(* ===== verification/Rust_Prelude.thy ===== *)
theory Rust_Prelude
  imports Main "HOL-Library.Word"
begin

unbundle bit_operations_syntax

text \<open>
  The part of Rust and of its standard library that the crates \<^verbatim>\<open>luks-core\<close> and
  \<^verbatim>\<open>luks-forensic\<close> use, shared by every component theory.

  \<^item> Fixed-width integers are words (\<open>u8\<close>, \<open>u16\<close>, \<open>u32\<close>, \<open>u64\<close>, \<open>u128\<close>); \<open>usize\<close> is a
    natural number with the 64-bit bound written out.  The arithmetic operators of the source are
    the checked operations below: a result that does not fit is the panic of a build with
    overflow checks.  A theorem that a function does not panic therefore also says that no
    operation wraps in a build without them.
  \<^item> A call ends in an \<open>outcome\<close>: \<open>Ok\<close>, \<open>Err\<close> or \<open>Panic\<close>.  A call with effects is a
    \<open>prog\<close>, a function from the state to \<open>None\<close> (it does not return) or to an outcome and
    the new state.
  \<^item> A \<open>String\<close> is the list of its UTF-8 bytes, written as an Isabelle \<open>string\<close>.
\<close>

section \<open>Types\<close>

type_synonym u8 = "8 word"
type_synonym u16 = "16 word"
type_synonym u32 = "32 word"
type_synonym u64 = "64 word"
type_synonym u128 = "128 word"
type_synonym usize = nat
type_synonym bytes = "8 word list"

text \<open>A \<open>Duration\<close> and an \<open>Instant\<close> are counted in nanoseconds.\<close>

type_synonym duration = nat
type_synonym instant = nat

abbreviation nanos_per_sec :: nat where
  "nanos_per_sec \<equiv> 1000000000"

definition from_secs :: "nat \<Rightarrow> duration" where
  "from_secs s = s * nanos_per_sec"

definition as_secs :: "duration \<Rightarrow> nat" where
  "as_secs d = d div nanos_per_sec"

abbreviation usize_MAX :: nat where
  "usize_MAX \<equiv> 18446744073709551615"

abbreviation isize_MAX :: nat where
  "isize_MAX \<equiv> 9223372036854775807"

abbreviation u64_MAX :: nat where
  "u64_MAX \<equiv> 18446744073709551615"

abbreviation u128_MAX :: nat where
  "u128_MAX \<equiv> 340282366920938463463374607431768211455"

section \<open>Collections of lemmas\<close>

named_theorems outcome_simps \<open>rewrite rules for outcomes and programs\<close>
named_theorems chk_simps \<open>checked arithmetic in range\<close>
named_theorems len_simps \<open>lengths of byte sequences\<close>

section \<open>Outcomes\<close>

datatype ('a, 'e) outcome = Ok 'a | Err 'e | Panic string

fun bindR :: "('a, 'e) outcome \<Rightarrow> ('a \<Rightarrow> ('b, 'e) outcome) \<Rightarrow> ('b, 'e) outcome" where
  "bindR (Ok x) f = f x"
| "bindR (Err e) f = Err e"
| "bindR (Panic p) f = Panic p"

fun is_Panic :: "('a, 'e) outcome \<Rightarrow> bool" where
  "is_Panic (Panic _) = True"
| "is_Panic _ = False"

text \<open>\<open>Option::ok_or\<close>.\<close>

fun ok_or :: "'a option \<Rightarrow> 'e \<Rightarrow> ('a, 'e) outcome" where
  "ok_or (Some x) e = Ok x"
| "ok_or None e = Err e"

text \<open>\<open>Iterator::map\<close> with a closure that may fail or panic, in order.\<close>

fun mapR :: "('a \<Rightarrow> ('b, 'e) outcome) \<Rightarrow> 'a list \<Rightarrow> ('b list, 'e) outcome" where
  "mapR f [] = Ok []"
| "mapR f (x # xs) = bindR (f x) (\<lambda>y. bindR (mapR f xs) (\<lambda>ys. Ok (y # ys)))"

lemma mapR_Ok: "(\<And>x. x \<in> set xs \<Longrightarrow> f x = Ok (g x)) \<Longrightarrow> mapR f xs = Ok (map g xs)"
  by (induction xs) simp_all

lemma bindR_eq_Ok [outcome_simps]:
  "bindR m f = Ok y \<longleftrightarrow> (\<exists>x. m = Ok x \<and> f x = Ok y)"
  by (cases m) auto

lemma bindR_Ok_right [simp]: "bindR m Ok = m"
  by (cases m) auto

lemma bindR_assoc: "bindR (bindR m f) g = bindR m (\<lambda>x. bindR (f x) g)"
  by (cases m) auto

lemma is_Panic_bindR [outcome_simps]:
  "is_Panic (bindR m f) \<longleftrightarrow> is_Panic m \<or> (\<exists>x. m = Ok x \<and> is_Panic (f x))"
  by (cases m) auto

lemma ok_or_eq_Ok [outcome_simps]: "ok_or m e = Ok x \<longleftrightarrow> m = Some x"
  by (cases m) auto

lemma not_is_Panic_ok_or [simp]: "\<not> is_Panic (ok_or m e)"
  by (cases m) auto

section \<open>Programs with state\<close>

type_synonym ('s, 'e, 'a) prog = "'s \<Rightarrow> (('a, 'e) outcome \<times> 's) option"

definition ret :: "'a \<Rightarrow> ('s, 'e, 'a) prog" where
  "ret x = (\<lambda>s. Some (Ok x, s))"

definition fail :: "'e \<Rightarrow> ('s, 'e, 'a) prog" where
  "fail e = (\<lambda>s. Some (Err e, s))"

text \<open>A computation without effects, run as a program.\<close>

definition liftR :: "('a, 'e) outcome \<Rightarrow> ('s, 'e, 'a) prog" where
  "liftR m = (\<lambda>s. Some (m, s))"

definition bindM :: "('s, 'e, 'a) prog \<Rightarrow> ('a \<Rightarrow> ('s, 'e, 'b) prog) \<Rightarrow> ('s, 'e, 'b) prog" where
  "bindM m f = (\<lambda>s. case m s of
      None \<Rightarrow> None
    | Some (Ok x, s') \<Rightarrow> f x s'
    | Some (Err e, s') \<Rightarrow> Some (Err e, s')
    | Some (Panic p, s') \<Rightarrow> Some (Panic p, s'))"

lemma ret_run [simp]: "ret x s = Some (Ok x, s)"
  by (simp add: ret_def)

lemma fail_run [simp]: "fail e s = Some (Err e, s)"
  by (simp add: fail_def)

lemma liftR_run [simp]: "liftR m s = Some (m, s)"
  by (simp add: liftR_def)

lemma bindM_run:
  "bindM m f s = (case m s of
      None \<Rightarrow> None
    | Some (Ok x, s') \<Rightarrow> f x s'
    | Some (Err e, s') \<Rightarrow> Some (Err e, s')
    | Some (Panic p, s') \<Rightarrow> Some (Panic p, s'))"
  by (simp add: bindM_def)

lemma bindM_Ok [simp]: "m s = Some (Ok x, s') \<Longrightarrow> bindM m f s = f x s'"
  by (simp add: bindM_run)

lemma bindM_Err [simp]: "m s = Some (Err e, s') \<Longrightarrow> bindM m f s = Some (Err e, s')"
  by (simp add: bindM_run)

lemma bindM_Panic [simp]: "m s = Some (Panic p, s') \<Longrightarrow> bindM m f s = Some (Panic p, s')"
  by (simp add: bindM_run)

lemma bindM_eq_Ok [outcome_simps]:
  "bindM m f s = Some (Ok y, t) \<longleftrightarrow> (\<exists>x s'. m s = Some (Ok x, s') \<and> f x s' = Some (Ok y, t))"
  by (auto simp: bindM_run split: option.splits prod.splits outcome.splits)

lemma liftR_bindM [simp]: "bindM (liftR m) f s = (case m of
      Ok x \<Rightarrow> f x s | Err e \<Rightarrow> Some (Err e, s) | Panic p \<Rightarrow> Some (Panic p, s))"
  by (cases m) (simp_all add: bindM_run)

lemma liftR_Ok_bindM [simp]: "bindM (liftR (Ok x)) f = f x"
  by (rule ext) (simp add: bindM_run)

lemma ret_bindM [simp]: "bindM (ret x) f = f x"
  by (rule ext) (simp add: bindM_run)

lemma fail_bindM [simp]: "bindM (fail e) f = fail e"
  by (rule ext) (simp add: bindM_run)

text \<open>
  A program changes its state only along a preorder \<open>I\<close>, whatever its outcome.  The rules follow
  the text of a program.
\<close>

definition preorder_on_states :: "('s \<Rightarrow> 's \<Rightarrow> bool) \<Rightarrow> bool" where
  "preorder_on_states I \<longleftrightarrow> (\<forall>s. I s s) \<and> (\<forall>s t u. I s t \<longrightarrow> I t u \<longrightarrow> I s u)"

definition keeps :: "('s \<Rightarrow> 's \<Rightarrow> bool) \<Rightarrow> ('s, 'e, 'a) prog \<Rightarrow> bool" where
  "keeps I m \<longleftrightarrow> (\<forall>s x s'. m s = Some (x, s') \<longrightarrow> I s s')"

lemma keepsD: "keeps I m \<Longrightarrow> m s = Some (x, s') \<Longrightarrow> I s s'"
  by (auto simp: keeps_def)

lemma keeps_pure [intro]:
  assumes "preorder_on_states I"
  shows "keeps I (ret x)" and "keeps I (fail e)" and "keeps I (liftR m)"
  using assms by (auto simp: keeps_def preorder_on_states_def)

lemma keeps_bindM:
  assumes "preorder_on_states I" and "keeps I m" and "\<And>x. keeps I (f x)"
  shows "keeps I (bindM m f)"
  using assms unfolding keeps_def preorder_on_states_def
  by (fastforce simp: bindM_run split: option.splits outcome.splits)

lemma keeps_bind_liftR:
  assumes "preorder_on_states I" and "\<And>x. m = Ok x \<Longrightarrow> keeps I (f x)"
  shows "keeps I (bindM (liftR m) f)"
  using assms by (cases m) (auto simp: keeps_def preorder_on_states_def)

lemma keeps_if: "(b \<Longrightarrow> keeps I m) \<Longrightarrow> (\<not> b \<Longrightarrow> keeps I m') \<Longrightarrow> keeps I (if b then m else m')"
  by simp

lemma keeps_pair: "(\<And>a b. keeps I (f a b)) \<Longrightarrow> keeps I (case x of (a, b) \<Rightarrow> f a b)"
  by (cases x) simp

lemma keeps_self: "(\<And>t. keeps I (f t)) \<Longrightarrow> keeps I (\<lambda>s. f s s)"
  by (auto simp: keeps_def)

lemmas keeps_rules = keeps_bind_liftR keeps_bindM keeps_pure keeps_if keeps_pair

section \<open>Checked integer arithmetic\<close>

definition usize_add :: "usize \<Rightarrow> usize \<Rightarrow> (usize, 'e) outcome" where
  "usize_add a b = (if a + b \<le> usize_MAX then Ok (a + b) else Panic ''attempt to add with overflow'')"

definition usize_mul :: "usize \<Rightarrow> usize \<Rightarrow> (usize, 'e) outcome" where
  "usize_mul a b = (if a * b \<le> usize_MAX then Ok (a * b) else Panic ''attempt to multiply with overflow'')"

definition usize_sub :: "usize \<Rightarrow> usize \<Rightarrow> (usize, 'e) outcome" where
  "usize_sub a b = (if b \<le> a then Ok (a - b) else Panic ''attempt to subtract with overflow'')"

text \<open>\<open>usize::checked_mul\<close>.\<close>

definition checked_mul :: "usize \<Rightarrow> usize \<Rightarrow> usize option" where
  "checked_mul a b = (if a * b \<le> usize_MAX then Some (a * b) else None)"

text \<open>\<open>usize::div_ceil\<close>, with a non-zero divisor.\<close>

definition div_ceil :: "usize \<Rightarrow> usize \<Rightarrow> usize" where
  "div_ceil a b = (if a mod b = 0 then a div b else a div b + 1)"

definition chk_add :: "'w::len word \<Rightarrow> 'w word \<Rightarrow> ('w word, 'e) outcome" where
  "chk_add a b = (if unat a + unat b < 2 ^ LENGTH('w) then Ok (a + b) else Panic ''attempt to add with overflow'')"

definition chk_mul :: "'w::len word \<Rightarrow> 'w word \<Rightarrow> ('w word, 'e) outcome" where
  "chk_mul a b = (if unat a * unat b < 2 ^ LENGTH('w) then Ok (a * b) else Panic ''attempt to multiply with overflow'')"

definition chk_sub :: "'w::len word \<Rightarrow> 'w word \<Rightarrow> ('w word, 'e) outcome" where
  "chk_sub a b = (if b \<le> a then Ok (a - b) else Panic ''attempt to subtract with overflow'')"

text \<open>\<open>saturating_sub\<close> on an unsigned integer.\<close>

definition sat_sub :: "'w::len word \<Rightarrow> 'w word \<Rightarrow> 'w word" where
  "sat_sub a b = (if b \<le> a then a - b else 0)"

lemma usize_add_Ok [chk_simps]: "a + b \<le> usize_MAX \<Longrightarrow> usize_add a b = Ok (a + b)"
  by (simp add: usize_add_def)

lemma usize_mul_Ok [chk_simps]: "a * b \<le> usize_MAX \<Longrightarrow> usize_mul a b = Ok (a * b)"
  by (simp add: usize_mul_def)

lemma usize_sub_Ok [chk_simps]: "b \<le> a \<Longrightarrow> usize_sub a b = Ok (a - b)"
  by (simp add: usize_sub_def)

lemma usize_add_eq_Ok [outcome_simps]:
  "usize_add a b = Ok c \<longleftrightarrow> a + b \<le> usize_MAX \<and> c = a + b"
  by (auto simp: usize_add_def)

lemma is_Panic_usize_add [outcome_simps]: "is_Panic (usize_add a b) \<longleftrightarrow> usize_MAX < a + b"
  by (auto simp: usize_add_def)

lemma chk_add_Ok [chk_simps]:
  "unat a + unat b < 2 ^ LENGTH('w) \<Longrightarrow> chk_add a (b :: 'w::len word) = Ok (a + b)"
  by (simp add: chk_add_def)

lemma chk_mul_Ok [chk_simps]:
  "unat a * unat b < 2 ^ LENGTH('w) \<Longrightarrow> chk_mul a (b :: 'w::len word) = Ok (a * b)"
  by (simp add: chk_mul_def)

lemma chk_sub_Ok [chk_simps]: "b \<le> a \<Longrightarrow> chk_sub a b = Ok (a - b)"
  by (simp add: chk_sub_def)

lemma unat_sat_sub: "unat (sat_sub a b) = unat a - unat b"
  by (auto simp: sat_sub_def unat_sub_if_size word_le_nat_alt)

lemma div_ceil_bounds:
  assumes "0 < b"
  shows "a \<le> div_ceil a b * b" and "div_ceil a b * b < a + b"
proof -
  define q r where "q = a div b" and "r = a mod b"
  then have a: "a = b * q + r" and r: "r < b"
    using assms by simp_all
  have eq: "div_ceil a b = (if r = 0 then q else q + 1)"
    by (simp add: div_ceil_def q_def r_def)
  from a r show "a \<le> div_ceil a b * b" "div_ceil a b * b < a + b"
    unfolding eq by (auto simp: algebra_simps)
qed

section \<open>Slices and vectors\<close>

text \<open>\<open>slice.get(lo..hi)\<close>.\<close>

definition slice_get :: "'a list \<Rightarrow> usize \<Rightarrow> usize \<Rightarrow> 'a list option" where
  "slice_get xs lo hi = (if lo \<le> hi \<and> hi \<le> length xs then Some (take (hi - lo) (drop lo xs)) else None)"

text \<open>\<open>&slice[lo..hi]\<close>, which panics out of range.\<close>

definition slice_index :: "'a list \<Rightarrow> usize \<Rightarrow> usize \<Rightarrow> ('a list, 'e) outcome" where
  "slice_index xs lo hi =
     (case slice_get xs lo hi of Some ys \<Rightarrow> Ok ys | None \<Rightarrow> Panic ''slice index out of range'')"

text \<open>\<open>dst[lo..hi].copy_from_slice(src)\<close>, which panics out of range or on unequal lengths.\<close>

definition copy_into :: "'a list \<Rightarrow> usize \<Rightarrow> usize \<Rightarrow> 'a list \<Rightarrow> ('a list, 'e) outcome" where
  "copy_into dst lo hi src =
     (if lo \<le> hi \<and> hi \<le> length dst
      then if length src = hi - lo then Ok (take lo dst @ src @ drop hi dst)
           else Panic ''source slice length does not match destination slice length''
      else Panic ''slice index out of range'')"

text \<open>
  \<open>vec![0u8; n]\<close>: the allocation of more than \<open>isize::MAX\<close> bytes panics with a capacity
  overflow.
\<close>

definition vec_zeroed :: "usize \<Rightarrow> (bytes, 'e) outcome" where
  "vec_zeroed n = (if n \<le> isize_MAX then Ok (replicate n 0) else Panic ''capacity overflow'')"

text \<open>\<open>iter().position(p)\<close>.\<close>

fun position_of :: "('a \<Rightarrow> bool) \<Rightarrow> 'a list \<Rightarrow> usize option" where
  "position_of p [] = None"
| "position_of p (x # xs) = (if p x then Some 0 else map_option Suc (position_of p xs))"

text \<open>\<open>chunks(n)\<close>, with \<open>n\<close> positive.\<close>

fun chunks :: "usize \<Rightarrow> 'a list \<Rightarrow> 'a list list" where
  "chunks n [] = []"
| "chunks n (x # xs) = take (max 1 n) (x # xs) # chunks n (drop (n - 1) xs)"

lemma slice_get_Some [simp]:
  "lo \<le> hi \<Longrightarrow> hi \<le> length xs \<Longrightarrow> slice_get xs lo hi = Some (take (hi - lo) (drop lo xs))"
  by (simp add: slice_get_def)

lemma slice_get_None [simp]: "length xs < hi \<Longrightarrow> slice_get xs lo hi = None"
  by (simp add: slice_get_def)

lemma slice_get_length [len_simps]: "slice_get xs lo hi = Some ys \<Longrightarrow> length ys = hi - lo"
  by (auto simp: slice_get_def split: if_splits)

lemma slice_get_cong:
  assumes len: "length xs = length ys"
    and nth: "\<And>i. i < length ys \<Longrightarrow> lo \<le> i \<Longrightarrow> i < hi \<Longrightarrow> xs ! i = ys ! i"
  shows "slice_get xs lo hi = slice_get ys lo hi"
proof -
  have "take (hi - lo) (drop lo xs) = take (hi - lo) (drop lo ys)" if "hi \<le> length ys"
    using len nth that by (intro nth_equalityI) auto
  then show ?thesis using len by (simp add: slice_get_def)
qed

lemma slice_index_Ok [chk_simps]:
  "lo \<le> hi \<Longrightarrow> hi \<le> length xs \<Longrightarrow> slice_index xs lo hi = Ok (take (hi - lo) (drop lo xs))"
  by (simp add: slice_index_def)

lemma copy_into_Ok [chk_simps]:
  "lo \<le> hi \<Longrightarrow> hi \<le> length dst \<Longrightarrow> length src = hi - lo \<Longrightarrow>
   copy_into dst lo hi src = Ok (take lo dst @ src @ drop hi dst)"
  by (simp add: copy_into_def)

lemma vec_zeroed_Ok [chk_simps]: "n \<le> isize_MAX \<Longrightarrow> vec_zeroed n = Ok (replicate n 0)"
  by (simp add: vec_zeroed_def)

lemma position_of_takeWhile:
  "(case position_of p xs of Some n \<Rightarrow> n | None \<Rightarrow> length xs) = length (takeWhile (\<lambda>x. \<not> p x) xs)"
  by (induction xs) (auto split: option.splits)

lemma chunks_concat [simp]: "concat (chunks n xs) = xs"
proof (induction n xs rule: chunks.induct)
  case (2 n x xs)
  have "take (max 1 n) (x # xs) = x # take (n - 1) xs"
    by (cases n) (auto simp: max_def)
  with 2 show ?case by simp
qed simp

lemma chunks_unfold: "xs \<noteq> [] \<Longrightarrow> 0 < n \<Longrightarrow> chunks n xs = take n xs # chunks n (drop n xs)"
  by (cases xs; cases n) (auto simp: max_def)

lemma chunks_length_le: "c \<in> set (chunks n xs) \<Longrightarrow> length c \<le> max 1 n"
  by (induction n xs rule: chunks.induct) auto

lemma length_concat_enumerate:
  "(\<And>i c. c \<in> set cs \<Longrightarrow> length (f i c) = length c) \<Longrightarrow>
   length (concat (map (\<lambda>(i, c). f i c) (List.enumerate k cs))) = length (concat cs)"
  by (induction cs arbitrary: k) simp_all

lemma chunks_small:
  assumes "xs \<noteq> []" and "length xs \<le> n"
  shows "chunks n xs = [xs]"
  using assms by (cases xs) auto

lemma chunks_append:
  assumes "length xs = n" and "0 < n"
  shows "chunks n (xs @ ys) = xs # chunks n ys"
  using assms by (cases xs) (auto simp: max_def)

text \<open>A length-preserving map on the chunks of a list, by index.\<close>

definition on_chunks :: "(nat \<Rightarrow> 'a list \<Rightarrow> 'a list) \<Rightarrow> nat \<Rightarrow> nat \<Rightarrow> 'a list \<Rightarrow> 'a list" where
  "on_chunks f n k xs = concat (map (\<lambda>(u, c). f u c) (List.enumerate k (chunks n xs)))"

lemma on_chunks_Nil [simp]: "on_chunks f n k [] = []"
  by (simp add: on_chunks_def)

lemma on_chunks_unfold:
  "xs \<noteq> [] \<Longrightarrow> 0 < n \<Longrightarrow> on_chunks f n k xs = f k (take n xs) @ on_chunks f n (Suc k) (drop n xs)"
  by (simp add: on_chunks_def chunks_unfold)

lemma length_on_chunks:
  "(\<And>i c. length (f i c) = length c) \<Longrightarrow> length (on_chunks f n k xs) = length xs"
  unfolding on_chunks_def by (subst length_concat_enumerate) simp_all

lemma on_chunks_inverse:
  assumes len: "\<And>i c. length (g i c) = length c" and inv: "\<And>i c. f i (g i c) = c" and n: "0 < n"
  shows "on_chunks f n k (on_chunks g n k xs) = xs"
proof (induction "length xs" arbitrary: xs k rule: less_induct)
  case less
  show ?case
  proof (cases "xs = []")
    case False
    let ?y = "on_chunks g n (Suc k) (drop n xs)"
    have IH: "on_chunks f n (Suc k) ?y = drop n xs"
      using False n by (intro less) (cases xs; simp)
    have "0 < length (g k (take n xs))"
      using False n by (simp add: len)
    then have "on_chunks f n k (g k (take n xs) @ ?y) =
        f k (take n (g k (take n xs) @ ?y)) @ on_chunks f n (Suc k) (drop n (g k (take n xs) @ ?y))"
      using n by (intro on_chunks_unfold) simp_all
    moreover have "take n (g k (take n xs) @ ?y) = g k (take n xs) \<and> drop n (g k (take n xs) @ ?y) = ?y"
      using len [of k "take n xs"] by (cases "length xs \<le> n") simp_all
    ultimately show ?thesis
      using False n IH inv by (simp add: on_chunks_unfold)
  qed simp
qed

end
