(* ===== verification/Rust_Text.thy ===== *)
theory Rust_Text
  imports Rust_Prelude
begin

unbundle bit_operations_syntax

text \<open>
  Byte order and text: \<open>from_be_bytes\<close> and \<open>to_be_bytes\<close>, \<open>to_le_bytes\<close>,
  \<open>String::from_utf8_lossy\<close>, decimal printing (\<open>to_string\<close>) and parsing
  (\<open>str::parse::<u64>\<close>), \<open>split_once\<close> and \<open>starts_with\<close>.
\<close>

section \<open>Byte order\<close>

definition from_be_bytes :: "bytes \<Rightarrow> 'w::len word" where
  "from_be_bytes bs = foldl (\<lambda>a b. push_bit 8 a OR ucast b) 0 bs"

fun to_be_bytes :: "nat \<Rightarrow> 'w::len word \<Rightarrow> bytes" where
  "to_be_bytes 0 w = []"
| "to_be_bytes (Suc n) w = to_be_bytes n (drop_bit 8 w) @ [ucast w]"

definition to_le_bytes :: "nat \<Rightarrow> 'w::len word \<Rightarrow> bytes" where
  "to_le_bytes n w = rev (to_be_bytes n w)"

lemma from_be_bytes_Nil [simp]: "from_be_bytes [] = 0"
  by (simp add: from_be_bytes_def)

lemma from_be_bytes_snoc:
  "from_be_bytes (bs @ [b]) = push_bit 8 (from_be_bytes bs) OR ucast b"
  by (simp add: from_be_bytes_def)

lemma length_to_be_bytes [simp, len_simps]: "length (to_be_bytes n w) = n"
  by (induction n w rule: to_be_bytes.induct) auto

lemma length_to_le_bytes [simp, len_simps]: "length (to_le_bytes n w) = n"
  by (simp add: to_le_bytes_def)

lemma from_be_bytes_to_be_bytes:
  "from_be_bytes (to_be_bytes n w) = take_bit (8 * n) (w :: 'w::len word)"
proof (induction n w rule: to_be_bytes.induct)
  case (2 n w)
  show ?case
  proof (rule bit_word_eqI)
    fix i assume "i < LENGTH('w)"
    then show "bit (from_be_bytes (to_be_bytes (Suc n) w) :: 'w word) i = bit (take_bit (8 * Suc n) w) i"
      by (auto simp: from_be_bytes_snoc 2 bit_simps)
  qed
qed simp

lemma from_be_bytes_to_be_bytes_full [simp]:
  "LENGTH('w) \<le> 8 * n \<Longrightarrow> from_be_bytes (to_be_bytes n w) = (w :: 'w::len word)"
  by (simp add: from_be_bytes_to_be_bytes take_bit_word_eq_self)

lemma bit_from_be_bytes: "bit (from_be_bytes bs :: 'w::len word) i \<Longrightarrow> i < 8 * length bs"
proof (induction bs arbitrary: i rule: rev_induct)
  case (snoc b bs)
  then consider "8 \<le> i" "bit (from_be_bytes bs :: 'w word) (i - 8)" | "bit b i"
    by (auto simp: from_be_bytes_snoc bit_simps)
  then show ?case
  proof cases
    case 1
    then show ?thesis using snoc.IH [of "i - 8"] by simp
  next
    case 2
    then show ?thesis using bit_imp_le_length [of b i] by simp
  qed
qed simp

lemma to_be_bytes_from_be_bytes:
  "8 * length bs \<le> LENGTH('w) \<Longrightarrow> to_be_bytes (length bs) (from_be_bytes bs :: 'w::len word) = bs"
proof (induction bs rule: rev_induct)
  case (snoc b bs)
  have "drop_bit 8 (from_be_bytes (bs @ [b])) = (from_be_bytes bs :: 'w word)"
  proof (rule bit_word_eqI)
    fix i assume "i < LENGTH('w)"
    then show "bit (drop_bit 8 (from_be_bytes (bs @ [b]) :: 'w word)) i = bit (from_be_bytes bs :: 'w word) i"
      using snoc.prems bit_from_be_bytes [of bs i, where 'w = 'w] by (auto simp: from_be_bytes_snoc bit_simps dest: bit_imp_le_length)
  qed
  moreover have "ucast (from_be_bytes (bs @ [b]) :: 'w word) = b"
    by (rule bit_word_eqI) (use snoc.prems in \<open>auto simp: from_be_bytes_snoc bit_simps\<close>)
  ultimately show ?case using snoc by simp
qed simp

lemma from_be_bytes_zeros [simp]: "from_be_bytes (replicate n 0) = 0"
  by (induction n) (simp_all add: from_be_bytes_def)

section \<open>Text\<close>

definition string_of_bytes :: "bytes \<Rightarrow> string" where
  "string_of_bytes bs = map (\<lambda>b. char_of (unat b)) bs"

definition bytes_of_string :: "string \<Rightarrow> bytes" where
  "bytes_of_string s = map (\<lambda>c. of_nat (of_char c)) s"

lemma length_string_of_bytes [simp, len_simps]: "length (string_of_bytes bs) = length bs"
  by (simp add: string_of_bytes_def)

lemma length_bytes_of_string [simp, len_simps]: "length (bytes_of_string s) = length s"
  by (simp add: bytes_of_string_def)

lemma unat_byte_of_char: "unat (of_nat (of_char c) :: 8 word) = of_char c"
  by (simp add: unat_of_nat)

lemma bytes_of_string_of_bytes [simp]: "bytes_of_string (string_of_bytes bs) = bs"
proof (induction bs)
  case (Cons b bs)
  have "unat b < 256" using unsigned_less [of b, where 'a = nat] by simp
  then have "of_nat (of_char (char_of (unat b) :: char)) = b" by (simp add: of_char_of)
  with Cons show ?case by (simp add: bytes_of_string_def string_of_bytes_def)
qed (simp add: bytes_of_string_def string_of_bytes_def)

lemma string_of_bytes_of_string [simp]: "string_of_bytes (bytes_of_string s) = s"
  by (simp add: string_of_bytes_def bytes_of_string_def unat_byte_of_char comp_def)

subsection \<open>UTF-8\<close>

text \<open>
  \<open>String::from_utf8_lossy\<close> keeps every well-formed UTF-8 sequence and writes U+FFFD once for
  every maximal ill-formed one.  \<open>utf8_step\<close> looks at the front of a non-empty sequence and says
  whether it is well-formed and how many bytes it takes.
\<close>

definition utf8_char_width :: "u8 \<Rightarrow> nat" where
  "utf8_char_width b =
     (if b < 0x80 then 1
      else if 0xC2 \<le> b \<and> b \<le> 0xDF then 2
      else if 0xE0 \<le> b \<and> b \<le> 0xEF then 3
      else if 0xF0 \<le> b \<and> b \<le> 0xF4 then 4
      else 0)"

definition is_cont :: "u8 \<Rightarrow> bool" where
  "is_cont b \<longleftrightarrow> 0x80 \<le> b \<and> b \<le> 0xBF"

definition byte_at :: "bytes \<Rightarrow> nat \<Rightarrow> u8" where
  "byte_at bs i = (if i < length bs then bs ! i else 0)"

definition second_of_three :: "u8 \<Rightarrow> u8 \<Rightarrow> bool" where
  "second_of_three b c \<longleftrightarrow>
     (if b = 0xE0 then 0xA0 \<le> c \<and> c \<le> 0xBF
      else if b = 0xED then 0x80 \<le> c \<and> c \<le> 0x9F
      else is_cont c)"

definition second_of_four :: "u8 \<Rightarrow> u8 \<Rightarrow> bool" where
  "second_of_four b c \<longleftrightarrow>
     (if b = 0xF0 then 0x90 \<le> c \<and> c \<le> 0xBF
      else if b = 0xF4 then 0x80 \<le> c \<and> c \<le> 0x8F
      else is_cont c)"

definition utf8_step :: "bytes \<Rightarrow> bool \<times> nat" where
  "utf8_step bs =
     (let b = byte_at bs 0; w = utf8_char_width b in
      if w = 1 then (True, 1)
      else if w = 2 then
        (if is_cont (byte_at bs 1) then (True, 2) else (False, 1))
      else if w = 3 then
        (if \<not> second_of_three b (byte_at bs 1) then (False, 1)
         else if is_cont (byte_at bs 2) then (True, 3) else (False, 2))
      else if w = 4 then
        (if \<not> second_of_four b (byte_at bs 1) then (False, 1)
         else if \<not> is_cont (byte_at bs 2) then (False, 2)
         else if is_cont (byte_at bs 3) then (True, 4) else (False, 3))
      else (False, 1))"

function lossy :: "bytes \<Rightarrow> bytes" where
  "lossy [] = []"
| "lossy (b # bs) =
     (let (ok, n) = utf8_step (b # bs) in
      (if ok then take n (b # bs) else [0xEF, 0xBF, 0xBD]) @ lossy (drop (n - 1) bs))"
  by pat_completeness auto
termination
  by (relation "measure length") auto

definition from_utf8_lossy :: "bytes \<Rightarrow> string" where
  "from_utf8_lossy bs = string_of_bytes (lossy bs)"

lemma utf8_step_ascii: "b < 0x80 \<Longrightarrow> utf8_step (b # bs) = (True, 1)"
  by (simp add: utf8_step_def byte_at_def utf8_char_width_def)

lemma lossy_ascii: "(\<And>b. b \<in> set bs \<Longrightarrow> b < 0x80) \<Longrightarrow> lossy bs = bs"
  by (induction bs) (simp_all add: utf8_step_ascii)

definition is_ascii :: "string \<Rightarrow> bool" where
  "is_ascii s \<longleftrightarrow> list_all (\<lambda>c. (of_char c :: nat) < 128) s"

lemma from_utf8_lossy_ascii:
  assumes "is_ascii s"
  shows "from_utf8_lossy (bytes_of_string s) = s"
proof -
  have "lossy (bytes_of_string s) = bytes_of_string s"
    using assms by (intro lossy_ascii)
      (auto simp: bytes_of_string_def is_ascii_def list_all_iff word_less_nat_alt unat_byte_of_char)
  then show ?thesis by (simp add: from_utf8_lossy_def)
qed

subsection \<open>Decimal numbers\<close>

fun digits_rev :: "nat \<Rightarrow> string" where
  "digits_rev n = (if n < 10 then [char_of (48 + n)] else char_of (48 + n mod 10) # digits_rev (n div 10))"

declare digits_rev.simps [simp del]

text \<open>\<open>to_string\<close> of an unsigned integer.\<close>

definition show_nat :: "nat \<Rightarrow> string" where
  "show_nat n = rev (digits_rev n)"

definition digit_value :: "char \<Rightarrow> nat option" where
  "digit_value c = (let d = of_char c :: nat in if 48 \<le> d \<and> d \<le> 57 then Some (d - 48) else None)"

fun digits_value :: "nat \<Rightarrow> string \<Rightarrow> nat option" where
  "digits_value acc [] = Some acc"
| "digits_value acc (c # cs) =
     (case digit_value c of None \<Rightarrow> None | Some d \<Rightarrow> digits_value (10 * acc + d) cs)"

text \<open>
  \<open>str::parse::<u64>()\<close>: one optional plus sign, at least one digit, and \<open>None\<close> for a number
  that does not fit.
\<close>

definition parse_u64 :: "string \<Rightarrow> u64 option" where
  "parse_u64 s =
     (let ds = (case s of c # cs \<Rightarrow> if c = CHR ''+'' then cs else s | [] \<Rightarrow> []) in
      if ds = [] then None
      else case digits_value 0 ds of
             None \<Rightarrow> None
           | Some n \<Rightarrow> if n \<le> u64_MAX then Some (of_nat n) else None)"

lemma digits_value_append:
  "digits_value a (xs @ ys) = (case digits_value a xs of None \<Rightarrow> None | Some n \<Rightarrow> digits_value n ys)"
  by (induction a xs rule: digits_value.induct) (auto split: option.splits)

lemma digit_value_digit: "d < 10 \<Longrightarrow> digit_value (char_of (48 + d)) = Some d"
  by (simp add: digit_value_def of_char_of)

lemma digits_value_show: "digits_value 0 (rev (digits_rev n)) = Some n"
proof (induction n rule: digits_rev.induct)
  case (1 n)
  show ?case
  proof (cases "n < 10")
    case True
    then show ?thesis by (simp add: digits_rev.simps [of n] digit_value_digit)
  next
    case False
    then show ?thesis
      using "1.IH" by (simp add: digits_rev.simps [of n] digits_value_append digit_value_digit)
  qed
qed

lemma show_nat_not_Nil [simp]: "show_nat n \<noteq> []"
  by (simp add: show_nat_def digits_rev.simps [of n])

lemma digits_rev_chars: "c \<in> set (digits_rev n) \<Longrightarrow> c \<noteq> CHR ''+''"
proof (induction n rule: digits_rev.induct)
  case (1 n)
  have ne: "char_of (48 + d :: nat) \<noteq> CHR ''+''" if "d < 10" for d
  proof
    assume "char_of (48 + d) = CHR ''+''"
    then have "(of_char (char_of (48 + d) :: char) :: nat) = 43" by simp
    with that show False by (simp add: of_char_of)
  qed
  from "1.prems" have "c = char_of (48 + n mod 10) \<or> \<not> n < 10 \<and> c \<in> set (digits_rev (n div 10))"
    by (simp add: digits_rev.simps [of n] split: if_splits)
  with "1.IH" ne [of "n mod 10"] show ?case by fastforce
qed

lemma parse_u64_show_nat:
  assumes "n \<le> u64_MAX"
  shows "parse_u64 (show_nat n) = Some (of_nat n)"
proof -
  obtain c cs where s: "show_nat n = c # cs"
    by (meson show_nat_not_Nil list.exhaust)
  then have "c \<in> set (digits_rev n)"
    by (metis list.set_intros(1) set_rev show_nat_def)
  then have "c \<noteq> CHR ''+''" by (rule digits_rev_chars)
  moreover have "digits_value 0 (c # cs) = Some n"
    using digits_value_show [of n] s by (simp add: show_nat_def)
  ultimately show ?thesis
    using assms by (simp add: parse_u64_def s del: digits_value.simps)
qed

subsection \<open>Searching in text\<close>

text \<open>\<open>str::split_once(c)\<close>: the parts before and after the first occurrence.\<close>

fun split_once :: "char \<Rightarrow> string \<Rightarrow> (string \<times> string) option" where
  "split_once c [] = None"
| "split_once c (x # xs) =
     (if x = c then Some ([], xs) else map_option (\<lambda>(a, b). (x # a, b)) (split_once c xs))"

fun starts_with :: "'a list \<Rightarrow> 'a list \<Rightarrow> bool" where
  "starts_with xs [] = True"
| "starts_with [] (y # ys) = False"
| "starts_with (x # xs) (y # ys) = (x = y \<and> starts_with xs ys)"

lemma split_once_None: "split_once c s = None \<longleftrightarrow> c \<notin> set s"
  by (induction c s rule: split_once.induct) auto

lemma split_once_append: "c \<notin> set a \<Longrightarrow> split_once c (a @ c # b) = Some (a, b)"
  by (induction a) auto

lemma split_once_Some: "split_once c s = Some (a, b) \<Longrightarrow> s = a @ c # b \<and> c \<notin> set a"
  by (induction c s arbitrary: a b rule: split_once.induct) (auto split: if_splits)

lemma starts_with_iff: "starts_with xs ys \<longleftrightarrow> take (length ys) xs = ys"
  by (induction xs ys rule: starts_with.induct) auto

end
