(* ===== verification/Luks_Error.thy ===== *)
theory Luks_Error
  imports Rust_Text
begin

text \<open>
  \<^verbatim>\<open>core/src/error.rs\<close>: the error type \<open>LuksError\<close> and the text of each variant, and the
  part of \<open>std::io::Error\<close> the crate looks at.
\<close>

section \<open>I/O errors\<close>

datatype ErrorKind = Interrupted | UnexpectedEof | InvalidInput | OtherKind

text \<open>An \<open>io::Error\<close>: its kind and the text its \<open>Display\<close> prints.\<close>

datatype io_error = IoError (io_kind: ErrorKind) (io_text: string)

section \<open>The error type\<close>

datatype LuksError =
    NotLuks (found: bytes)
  | UnsupportedVersion (err_version: u16)
  | Unsupported (err_what: string) (err_value: string)
  | UnlockBudgetExceeded (slots_tried: usize) (unlock_budget_secs: nat)
  | DerivationBudgetExceeded (err_iterations: u32) (projected_secs: nat) (budget_secs: nat)
  | ImplausibleStripes (err_stripes: usize) (max_stripes: usize) (err_block_size: usize)
  | DerivationMemoryExceeded (requested_kib: u32) (max_kib: u32)
  | KeyLengthExceeded (requested: usize) (max_len: usize)
  | MalformedHeader (malformed_what: string) (need: usize) (got: usize)
  | AuthenticationFailed
  | NoActiveKeyslot
  | Io io_error

type_synonym 'a res = "('a, LuksError) outcome"

section \<open>The text of an error\<close>

definition hex_digit :: "nat \<Rightarrow> char" where
  "hex_digit d = (if d < 10 then char_of (48 + d) else char_of (87 + d))"

definition hex_byte :: "u8 \<Rightarrow> string" where
  "hex_byte b = [hex_digit (unat b div 16), hex_digit (unat b mod 16)]"

fun join :: "string \<Rightarrow> string list \<Rightarrow> string" where
  "join sep [] = []"
| "join sep [x] = x"
| "join sep (x # y # ys) = x @ sep @ join sep (y # ys)"

text \<open>The format \<open>{:02x?}\<close> of a byte array.\<close>

definition hex_debug :: "bytes \<Rightarrow> string" where
  "hex_debug bs = ''['' @ join '', '' (map hex_byte bs) @ '']''"

definition em_dash :: string where
  "em_dash = string_of_bytes [0xE2, 0x80, 0x94]"

definition saturating_mul :: "usize \<Rightarrow> usize \<Rightarrow> usize" where
  "saturating_mul a b = min (a * b) usize_MAX"

text \<open>
  The \<open>#[error(...)]\<close> attributes.  The argument \<open>dbg\<close> is the \<open>Debug\<close> format of a string,
  which escapes characters by the Unicode tables of the standard library.
\<close>

fun to_string :: "(string \<Rightarrow> string) \<Rightarrow> LuksError \<Rightarrow> string" where
  "to_string dbg (NotLuks f) =
     ''not a LUKS container: magic is '' @ hex_debug f @ '', expected 4c554b53babe''"
| "to_string dbg (UnsupportedVersion v) =
     ''unsupported LUKS version '' @ show_nat (unat v) @ '' (only 1 and 2 are supported)''"
| "to_string dbg (Unsupported what value) = ''unsupported '' @ what @ '': '' @ dbg value"
| "to_string dbg (UnlockBudgetExceeded tried secs) =
     ''unlock exceeded its total budget of '' @ show_nat secs @ ''s after '' @ show_nat tried @
     '' keyslot(s); the header's cumulative key-derivation cost is not satisfiable''"
| "to_string dbg (DerivationBudgetExceeded iters proj secs) =
     ''key derivation would take about '' @ show_nat proj @ ''s for '' @ show_nat (unat iters) @
     '' iterations, over the '' @ show_nat secs @ ''s budget '' @ em_dash @
     '' refusing rather than clamping, because a reduced iteration count derives a different key''"
| "to_string dbg (ImplausibleStripes s m b) =
     ''keyslot declares '' @ show_nat s @ '' anti-forensic stripes, over the '' @ show_nat m @
     '' ceiling '' @ em_dash @ '' refusing before sizing a '' @ show_nat (saturating_mul s b) @
     '' byte buffer''"
| "to_string dbg (DerivationMemoryExceeded r m) =
     ''argon2 keyslot asks for '' @ show_nat (unat r) @ '' KiB of memory, over the '' @
     show_nat (unat m) @ '' KiB ceiling '' @ em_dash @ '' refusing before allocating''"
| "to_string dbg (KeyLengthExceeded r m) =
     ''header asks to derive a '' @ show_nat r @ '' byte master key, over the '' @ show_nat m @
     '' byte ceiling '' @ em_dash @ '' refusing before allocating or calibrating''"
| "to_string dbg (MalformedHeader what n g) =
     ''malformed LUKS header: '' @ what @ '' (need '' @ show_nat n @ '' bytes, have '' @
     show_nat g @ '')''"
| "to_string dbg AuthenticationFailed = ''authentication failed: no keyslot matched the passphrase''"
| "to_string dbg NoActiveKeyslot = ''no active keyslot in the LUKS header''"
| "to_string dbg (Io e) = ''I/O error: '' @ io_text e"

end
