(* ===== verification/Crypto_Api.thy ===== *)
theory Crypto_Api
  imports Luks_Error
begin

unbundle bit_operations_syntax

text \<open>
  The third-party crates that the sources call (\<^verbatim>\<open>sha1\<close>, \<^verbatim>\<open>sha2\<close>, \<^verbatim>\<open>pbkdf2\<close>,
  \<^verbatim>\<open>argon2\<close>, \<^verbatim>\<open>aes\<close>, \<^verbatim>\<open>xts-mode\<close>) are not part of the repository.  They are a parameter of the
  model: the record \<open>crypto_api\<close>, an argument of every definition that uses one of them.  What the
  theorems need of them is the documented behaviour stated in \<open>crypto_ok\<close> and \<open>xts_inverse\<close>.

  The clock is a parameter too: the readings that successive calls of \<open>Instant::now\<close> return.
\<close>

section \<open>Primitives\<close>

datatype hash_alg = Sha1 | Sha256 | Sha512

text \<open>The digest sizes fixed by FIPS 180.\<close>

fun output_size :: "hash_alg \<Rightarrow> usize" where
  "output_size Sha1 = 20"
| "output_size Sha256 = 32"
| "output_size Sha512 = 64"

datatype argon2_alg = Argon2i | Argon2id

datatype aes_alg = Aes128 | Aes256

text \<open>
  \<open>digest D m\<close> is \<open>D::digest\<close> of the concatenated updates.  \<open>pbkdf2_hmac D pw salt n len\<close> fills
  a buffer of \<open>len\<close> bytes.  \<open>argon2_params m t p len\<close> is \<open>Params::new\<close>: the text of its error, or
  \<open>None\<close> when the parameters are accepted.  \<open>argon2_hash\<close> is \<open>hash_password_into\<close> of Argon2
  version 0x13 under such parameters.  \<open>decrypt_sector A k1 k2 tweak unit\<close> is the method of
  \<open>Xts128<A>\<close> over the keys \<open>k1\<close> and \<open>k2\<close>; \<open>encrypt_sector\<close> is its companion, which only the
  fixtures call.
\<close>

record crypto_api =
  digest :: "hash_alg \<Rightarrow> bytes \<Rightarrow> bytes"
  pbkdf2_hmac :: "hash_alg \<Rightarrow> bytes \<Rightarrow> bytes \<Rightarrow> u32 \<Rightarrow> usize \<Rightarrow> bytes"
  argon2_params :: "u32 \<Rightarrow> u32 \<Rightarrow> u32 \<Rightarrow> usize \<Rightarrow> string option"
  argon2_hash :: "argon2_alg \<Rightarrow> u32 \<Rightarrow> u32 \<Rightarrow> u32 \<Rightarrow> bytes \<Rightarrow> bytes \<Rightarrow> usize \<Rightarrow> string + bytes"
  decrypt_sector :: "aes_alg \<Rightarrow> bytes \<Rightarrow> bytes \<Rightarrow> bytes \<Rightarrow> bytes \<Rightarrow> bytes"
  encrypt_sector :: "aes_alg \<Rightarrow> bytes \<Rightarrow> bytes \<Rightarrow> bytes \<Rightarrow> bytes \<Rightarrow> bytes"

text \<open>Documented sizes of the outputs.\<close>

definition crypto_ok :: "crypto_api \<Rightarrow> bool" where
  "crypto_ok C \<longleftrightarrow>
     (\<forall>D m. length (digest C D m) = output_size D) \<and>
     (\<forall>D pw s n len. length (pbkdf2_hmac C D pw s n len) = len) \<and>
     (\<forall>A m t p pw s len out. argon2_hash C A m t p pw s len = Inr out \<longrightarrow> length out = len) \<and>
     (\<forall>A k1 k2 t u. length (decrypt_sector C A k1 k2 t u) = length u) \<and>
     (\<forall>A k1 k2 t u. length (encrypt_sector C A k1 k2 t u) = length u)"

text \<open>Decryption undoes encryption of a unit under the same keys and tweak.\<close>

definition xts_inverse :: "crypto_api \<Rightarrow> bool" where
  "xts_inverse C \<longleftrightarrow>
     (\<forall>A k1 k2 t u. 16 \<le> length u \<longrightarrow> decrypt_sector C A k1 k2 t (encrypt_sector C A k1 k2 t u) = u)"

lemma crypto_okD:
  assumes "crypto_ok C"
  shows "length (digest C D m) = output_size D"
    and "length (pbkdf2_hmac C D pw s n len) = len"
    and "argon2_hash C A mm t p pw s len = Inr out \<Longrightarrow> length out = len"
    and "length (decrypt_sector C B k1 k2 tw u) = length u"
    and "length (encrypt_sector C B k1 k2 tw u) = length u"
  using assms by (simp_all add: crypto_ok_def)

lemma output_size_pos [simp]: "0 < output_size D"
  by (cases D) simp_all

text \<open>
  An instance with the documented sizes, for evaluating the model: digests and derived keys are
  the input cut or zero-filled to length, and the sector cipher complements every bit.
\<close>

definition fit :: "nat \<Rightarrow> bytes \<Rightarrow> bytes" where
  "fit n bs = take n bs @ replicate (n - length bs) 0"

definition sample_crypto :: crypto_api where
  "sample_crypto =
     \<lparr>digest = (\<lambda>D m. fit (output_size D) m),
      pbkdf2_hmac = (\<lambda>D pw s n len. fit len (pw @ s)),
      argon2_params = (\<lambda>m t p len. if t = 0 then Some ''time cost'' else None),
      argon2_hash = (\<lambda>A m t p pw s len. Inr (fit len (pw @ s))),
      decrypt_sector = (\<lambda>A k1 k2 t u. map (\<lambda>b. NOT b) u),
      encrypt_sector = (\<lambda>A k1 k2 t u. map (\<lambda>b. NOT b) u)\<rparr>"

lemma length_fit [simp]: "length (fit n bs) = n"
  by (simp add: fit_def)

lemma sample_crypto_ok [simp]: "crypto_ok sample_crypto" "xts_inverse sample_crypto"
  by (simp_all add: crypto_ok_def xts_inverse_def sample_crypto_def comp_def)

section \<open>The clock\<close>

text \<open>
  \<open>reading n\<close> is the \<open>n\<close>-th value that \<open>Instant::now\<close> returns in the run and \<open>tick\<close> counts the
  calls made so far.
\<close>

record clock =
  reading :: "nat \<Rightarrow> instant"
  tick :: nat

definition instant_now :: "('x clock_scheme, 'e, instant) prog" where
  "instant_now = (\<lambda>s. Some (Ok (reading s (tick s)), s\<lparr>tick := Suc (tick s)\<rparr>))"

text \<open>\<open>Instant::elapsed\<close>: one more reading, and zero if it is not later.\<close>

definition elapsed :: "instant \<Rightarrow> ('x clock_scheme, 'e, duration) prog" where
  "elapsed started = bindM instant_now (\<lambda>n. ret (n - started))"

lemma instant_now_run [simp]:
  "instant_now s = Some (Ok (reading s (tick s)), s\<lparr>tick := Suc (tick s)\<rparr>)"
  by (simp add: instant_now_def)

lemma elapsed_run [simp]:
  "elapsed t s = Some (Ok (reading s (tick s) - t), s\<lparr>tick := Suc (tick s)\<rparr>)"
  by (simp add: elapsed_def)

text \<open>Time has passed from one state to the other, and nothing else has happened.\<close>

definition clock_ahead :: "'x clock_scheme \<Rightarrow> 'x clock_scheme \<Rightarrow> bool" where
  "clock_ahead s s' \<longleftrightarrow> (\<exists>n. s' = s\<lparr>tick := n\<rparr> \<and> tick s \<le> n)"

lemma clock_ahead_refl [simp]: "clock_ahead s s"
  unfolding clock_ahead_def by (rule exI [of _ "tick s"]) simp

lemma clock_ahead_tick [simp]: "tick s \<le> n \<Longrightarrow> clock_ahead s (s\<lparr>tick := n\<rparr>)"
  by (auto simp: clock_ahead_def)

lemma clock_ahead_trans: "clock_ahead s t \<Longrightarrow> clock_ahead t u \<Longrightarrow> clock_ahead s u"
  by (auto simp: clock_ahead_def)

lemma clock_ahead_reading: "clock_ahead s t \<Longrightarrow> reading t = reading s"
  by (auto simp: clock_ahead_def)

end
