(* ===== verification/Af.thy ===== *)
theory Af
  imports Crypto_Api
begin

unbundle bit_operations_syntax

text \<open>
  \<^verbatim>\<open>core/src/af.rs\<close>: the anti-forensic splitter.  The loops of \<open>diffuse\<close> and \<open>af_merge\<close> are
  translated as loops; \<open>diffuse_ref\<close> and \<open>merge_ref\<close> state what the head comment of the file says
  they compute, and the loops are proved equal to them.
\<close>

section \<open>The code\<close>

text \<open>The body of the loop of \<open>diffuse\<close>, with its variables \<open>out\<close>, \<open>i\<close> and \<open>offset\<close>.\<close>

function diffuse_loop :: "crypto_api \<Rightarrow> hash_alg \<Rightarrow> bytes \<Rightarrow> bytes \<Rightarrow> usize \<Rightarrow> usize \<Rightarrow> bytes res" where
  "diffuse_loop C D data out i offset =
     (if offset < length data then
        let tk = min (output_size D) (length data - offset) in
        bindR (slice_index data offset (offset + tk)) (\<lambda>chunk.
        let h = digest C D (to_be_bytes 4 (of_nat i :: u32) @ chunk) in
        bindR (slice_index h 0 tk) (\<lambda>ht.
        bindR (copy_into out offset (offset + tk) ht) (\<lambda>out'.
        diffuse_loop C D data out' (i + 1) (offset + tk))))
      else Ok out)"
  by pat_completeness auto
termination
proof (relation "measure (\<lambda>(C, D, data, out, i, offset). length data - offset)")
  fix C :: crypto_api and D and data out :: bytes and i offset tk :: usize
    and chunk h ht out'
  assume "offset < length data" and "tk = min (output_size D) (length data - offset)"
  then have "0 < tk" and "offset < length data" by simp_all
  then show "((C, D, data, out', i + 1, offset + tk), (C, D, data, out, i, offset))
      \<in> measure (\<lambda>(C, D, data, out, i, offset). length data - offset)"
    by simp
qed simp

declare diffuse_loop.simps [simp del]

definition diffuse :: "crypto_api \<Rightarrow> hash_alg \<Rightarrow> bytes \<Rightarrow> bytes res" where
  "diffuse C D data = bindR (vec_zeroed (length data)) (\<lambda>out. diffuse_loop C D data out 0 0)"

fun xor_into :: "bytes \<Rightarrow> bytes \<Rightarrow> bytes" where
  "xor_into (a # acc) (b # other) = (a XOR b) # xor_into acc other"
| "xor_into acc [] = acc"
| "xor_into [] other = []"

text \<open>The loop \<open>for i in 0..stripes.saturating_sub(1)\<close>, over the list of its indices.\<close>

fun af_merge_loop :: "crypto_api \<Rightarrow> hash_alg \<Rightarrow> bytes \<Rightarrow> usize \<Rightarrow> usize list \<Rightarrow> bytes \<Rightarrow> bytes res" where
  "af_merge_loop C D material block_size [] acc = Ok acc"
| "af_merge_loop C D material block_size (i # is) acc =
     bindR (usize_mul i block_size) (\<lambda>start.
     bindR (usize_add start block_size) (\<lambda>stop.
     case slice_get material start stop of
       Some block \<Rightarrow>
         bindR (diffuse C D (xor_into acc block)) (\<lambda>acc'.
         af_merge_loop C D material block_size is acc')
     | None \<Rightarrow> af_merge_loop C D material block_size is acc))"

definition af_merge :: "crypto_api \<Rightarrow> hash_alg \<Rightarrow> bytes \<Rightarrow> usize \<Rightarrow> usize \<Rightarrow> bytes res" where
  "af_merge C D material block_size stripes =
     bindR (vec_zeroed block_size) (\<lambda>acc0.
     bindR (af_merge_loop C D material block_size [0..<stripes - 1] acc0) (\<lambda>acc.
     bindR (usize_mul (stripes - 1) block_size) (\<lambda>last_start.
     bindR (usize_add last_start block_size) (\<lambda>last_stop.
     Ok (case slice_get material last_start last_stop of
           Some block \<Rightarrow> xor_into acc block
         | None \<Rightarrow> acc)))))"

definition MAX_STRIPES :: usize where
  "MAX_STRIPES = 2 ^ 20"

definition merge :: "crypto_api \<Rightarrow> string \<Rightarrow> bytes \<Rightarrow> usize \<Rightarrow> usize \<Rightarrow> bytes res" where
  "merge C hspec material block_size stripes =
     (if MAX_STRIPES < stripes then Err (ImplausibleStripes stripes MAX_STRIPES block_size)
      else if hspec = ''sha1'' then af_merge C Sha1 material block_size stripes
      else if hspec = ''sha256'' then af_merge C Sha256 material block_size stripes
      else if hspec = ''sha512'' then af_merge C Sha512 material block_size stripes
      else Err (Unsupported ''hash'' hspec))"

definition material_len :: "usize \<Rightarrow> usize \<Rightarrow> usize res" where
  "material_len block_size stripes =
     (if MAX_STRIPES < stripes then Err (ImplausibleStripes stripes MAX_STRIPES block_size)
      else bindR (ok_or (checked_mul block_size stripes) (ImplausibleStripes stripes MAX_STRIPES block_size))
             (\<lambda>raw. usize_mul (div_ceil raw 512) 512))"

text \<open>
  The test-only inverse.  Every product, sum and difference is checked, the material has to be
  allocated, and the last loop indexes \<open>master\<close> and the material at every byte of the accumulator.
\<close>

definition vec_filled :: "u8 \<Rightarrow> usize \<Rightarrow> bytes res" where
  "vec_filled filler n = (if n \<le> isize_MAX then Ok (replicate n filler) else Panic ''capacity overflow'')"

fun af_split_loop :: "crypto_api \<Rightarrow> hash_alg \<Rightarrow> bytes \<Rightarrow> usize \<Rightarrow> usize list \<Rightarrow> bytes \<Rightarrow> bytes res" where
  "af_split_loop C D material block_size [] acc = Ok acc"
| "af_split_loop C D material block_size (i # is) acc =
     bindR (usize_mul i block_size) (\<lambda>start.
     bindR (usize_add start block_size) (\<lambda>stop.
     bindR (slice_index material start stop) (\<lambda>block.
     bindR (diffuse C D (xor_into acc block)) (\<lambda>acc'.
     af_split_loop C D material block_size is acc'))))"

fun mask_loop :: "bytes \<Rightarrow> usize \<Rightarrow> (usize \<times> u8) list \<Rightarrow> bytes \<Rightarrow> bytes res" where
  "mask_loop master last_start [] material = Ok material"
| "mask_loop master last_start ((j, b) # bs) material =
     (if j < length master then
        bindR (usize_add last_start j) (\<lambda>at.
        if at < length material then mask_loop master last_start bs (material[at := (master ! j) XOR b])
        else Panic ''index out of bounds'')
      else Panic ''index out of bounds'')"

definition af_split :: "crypto_api \<Rightarrow> hash_alg \<Rightarrow> bytes \<Rightarrow> usize \<Rightarrow> usize \<Rightarrow> u8 \<Rightarrow> bytes res" where
  "af_split C D master block_size stripes filler =
     bindR (usize_mul block_size stripes) (\<lambda>len.
     bindR (vec_filled filler len) (\<lambda>material.
     bindR (vec_zeroed block_size) (\<lambda>acc0.
     bindR (usize_sub stripes 1) (\<lambda>rounds.
     bindR (af_split_loop C D material block_size [0..<rounds] acc0) (\<lambda>acc.
     bindR (usize_mul rounds block_size) (\<lambda>last_start.
     mask_loop master last_start (List.enumerate 0 acc) material))))))"

section \<open>Reference definitions\<close>

text \<open>Hash every chunk behind its big-endian index and cut the digest to the chunk's length.\<close>

definition diffuse_chunk :: "crypto_api \<Rightarrow> hash_alg \<Rightarrow> nat \<Rightarrow> bytes \<Rightarrow> bytes" where
  "diffuse_chunk C D i c = take (length c) (digest C D (to_be_bytes 4 (of_nat i :: u32) @ c))"

definition diffuse_ref :: "crypto_api \<Rightarrow> hash_alg \<Rightarrow> bytes \<Rightarrow> bytes" where
  "diffuse_ref C D data =
     concat (map (\<lambda>(i, c). diffuse_chunk C D i c) (List.enumerate 0 (chunks (output_size D) data)))"

definition absorb :: "crypto_api \<Rightarrow> hash_alg \<Rightarrow> nat \<Rightarrow> bytes list \<Rightarrow> bytes" where
  "absorb C D n blocks = foldl (\<lambda>d b. diffuse_ref C D (map2 (XOR) d b)) (replicate n 0) blocks"

definition merge_ref :: "crypto_api \<Rightarrow> hash_alg \<Rightarrow> nat \<Rightarrow> bytes list \<Rightarrow> bytes" where
  "merge_ref C D n blocks = map2 (XOR) (absorb C D n (butlast blocks)) (last blocks)"

section \<open>The loops compute the reference\<close>

lemma xor_into_map2: "length acc = length other \<Longrightarrow> xor_into acc other = map2 (XOR) acc other"
  by (induction acc other rule: xor_into.induct) auto

lemma length_xor_into [simp, len_simps]: "length (xor_into acc other) = length acc"
  by (induction acc other rule: xor_into.induct) auto

lemma diffuse_loop_spec:
  assumes "crypto_ok C" and "offset \<le> length data" and "length out = length data"
  shows "diffuse_loop C D data out i offset =
    Ok (take offset out @
        concat (map (\<lambda>(j, c). diffuse_chunk C D j c)
          (List.enumerate i (chunks (output_size D) (drop offset data)))))"
  using assms
proof (induction C D data out i offset rule: diffuse_loop.induct)
  case (1 C D data out i offset)
  show ?case
  proof (cases "offset < length data")
    case True
    define tk where "tk = min (output_size D) (length data - offset)"
    define chunk where "chunk = take tk (drop offset data)"
    define ht where "ht = diffuse_chunk C D i chunk"
    define out' where "out' = take offset out @ ht @ drop (offset + tk) out"
    have tk: "offset + tk \<le> length data" "tk \<le> output_size D" using True by (auto simp: tk_def)
    have chunk: "slice_index data offset (offset + tk) = (Ok chunk :: bytes res)" "length chunk = tk"
      using tk by (simp_all add: slice_index_Ok chunk_def)
    have ht: "slice_index (digest C D (to_be_bytes 4 (of_nat i :: u32) @ chunk)) 0 tk = (Ok ht :: bytes res)"
        "length ht = tk"
      using tk chunk "1.prems"(1)
      by (simp_all add: slice_index_Ok ht_def diffuse_chunk_def crypto_okD)
    have out': "copy_into out offset (offset + tk) ht = (Ok out' :: bytes res)" "length out' = length data"
      using tk ht "1.prems"(3) by (simp_all add: copy_into_Ok out'_def)
    have "chunks (output_size D) (drop offset data) = chunk # chunks (output_size D) (drop (offset + tk) data)"
      using True by (subst chunks_unfold) (auto simp: chunk_def tk_def min_def add.commute)
    moreover have "diffuse_loop C D data out i offset = diffuse_loop C D data out' (i + 1) (offset + tk)"
      using True chunk ht out'
      by (subst diffuse_loop.simps) (simp add: tk_def [symmetric] Let_def)
    moreover have "diffuse_loop C D data out' (i + 1) (offset + tk) =
        Ok (take (offset + tk) out' @ concat (map (\<lambda>(j, c). diffuse_chunk C D j c)
          (List.enumerate (i + 1) (chunks (output_size D) (drop (offset + tk) data)))))"
      using "1.IH" [OF True tk_def refl] "1.prems"(1) tk out'(2) by simp
    moreover have "take (offset + tk) out' = take offset out @ ht"
      using True "1.prems" ht by (simp add: out'_def)
    ultimately show ?thesis by (simp add: ht_def)
  next
    case False
    with "1.prems" show ?thesis by (subst diffuse_loop.simps) simp
  qed
qed

lemma diffuse_eq_ref:
  "crypto_ok C \<Longrightarrow> length data \<le> isize_MAX \<Longrightarrow> diffuse C D data = Ok (diffuse_ref C D data)"
  by (simp add: diffuse_def vec_zeroed_Ok diffuse_loop_spec diffuse_ref_def)

lemma length_diffuse_ref [len_simps]:
  assumes "crypto_ok C"
  shows "length (diffuse_ref C D data) = length data"
proof -
  have "length (diffuse_chunk C D i c) = length c" if "c \<in> set (chunks (output_size D) data)" for i c
    using chunks_length_le [OF that] assms output_size_pos [of D]
    by (simp add: diffuse_chunk_def crypto_okD max_def Suc_leI)
  then have "length (diffuse_ref C D data) = length (concat (chunks (output_size D) data))"
    unfolding diffuse_ref_def by (rule length_concat_enumerate)
  then show ?thesis by simp
qed

lemma length_absorb [len_simps]:
  assumes "crypto_ok C" and "\<And>b. b \<in> set blocks \<Longrightarrow> length b = n"
  shows "length (absorb C D n blocks) = n"
  using assms(2) by (induction blocks rule: rev_induct)
    (simp_all add: absorb_def length_diffuse_ref [OF assms(1)])

text \<open>The \<open>i\<close>-th block of a concatenation of blocks of \<open>n\<close> bytes.\<close>

lemma length_concat_blocks:
  "(\<And>b. b \<in> set blocks \<Longrightarrow> length b = n) \<Longrightarrow> length (concat blocks) = length blocks * n"
  by (induction blocks) simp_all

lemma slice_get_block:
  assumes "\<And>b. b \<in> set blocks \<Longrightarrow> length b = n" and "i < length blocks"
  shows "slice_get (concat blocks @ rest) (i * n) (i * n + n) = Some (blocks ! i)"
proof -
  have split: "blocks = take i blocks @ blocks ! i # drop (Suc i) blocks"
    using assms(2) by (simp add: id_take_nth_drop)
  have pre: "length (concat (take i blocks)) = i * n"
    using assms by (subst length_concat_blocks [of _ n]) (auto dest: in_set_takeD)
  have "length (blocks ! i) = n" using assms by simp
  moreover have "concat blocks @ rest =
      concat (take i blocks) @ blocks ! i @ concat (drop (Suc i) blocks) @ rest"
    by (subst split) simp
  ultimately show ?thesis using pre by (simp add: slice_get_def)
qed

text \<open>No index computation overflows below this bound.\<close>

definition area_fits :: "nat \<Rightarrow> nat \<Rightarrow> bool" where
  "area_fits n stripes \<longleftrightarrow> n \<le> isize_MAX \<and> stripes * n + n \<le> usize_MAX"

lemma block_index_ok:
  assumes "area_fits n s" and "j \<le> s"
  shows "usize_mul j n = (Ok (j * n) :: usize res)"
    and "usize_add (j * n) n = (Ok (j * n + n) :: usize res)"
proof -
  have "j * n \<le> s * n" using assms(2) by (rule mult_le_mono1)
  moreover have "s * n + n \<le> usize_MAX" using assms(1) by (simp add: area_fits_def)
  ultimately have "j * n + n \<le> usize_MAX" by linarith
  then show "usize_mul j n = (Ok (j * n) :: usize res)"
    and "usize_add (j * n) n = (Ok (j * n + n) :: usize res)"
    by (simp_all add: usize_mul_Ok usize_add_Ok)
qed

lemma af_merge_loop_spec:
  assumes C: "crypto_ok C" and len: "\<And>b. b \<in> set blocks \<Longrightarrow> length b = n"
    and fits: "area_fits n (length blocks)" and k: "k \<le> length blocks"
  shows "af_merge_loop C D (concat blocks @ rest) n [0..<k] (replicate n 0) = Ok (absorb C D n (take k blocks))"
proof -
  have step: "af_merge_loop C D (concat blocks @ rest) n [j..<k] (absorb C D n (take j blocks)) =
      Ok (absorb C D n (take k blocks))" if "j \<le> k" for j
    using that
  proof (induction j rule: inc_induct)
    case (step j)
    then have j: "j < length blocks" using k by simp
    note ok = block_index_ok [OF fits less_imp_le [OF j]]
    let ?a = "absorb C D n (take j blocks)"
    have a: "length ?a = n" using len by (intro length_absorb [OF C]) (auto dest: in_set_takeD)
    moreover have "length (blocks ! j) = n" using len j by simp
    ultimately have "xor_into ?a (blocks ! j) = map2 (XOR) ?a (blocks ! j)"
      by (simp add: xor_into_map2)
    moreover have "diffuse C D (xor_into ?a (blocks ! j)) = Ok (diffuse_ref C D (xor_into ?a (blocks ! j)))"
      using C a fits by (intro diffuse_eq_ref) (simp_all add: area_fits_def)
    ultimately have d: "diffuse C D (xor_into ?a (blocks ! j)) = Ok (absorb C D n (take (Suc j) blocks))"
      using j by (simp add: absorb_def take_Suc_conv_app_nth)
    have "[j..<k] = j # [Suc j..<k]" using step.hyps by (simp add: upt_conv_Cons)
    then show ?case
      using ok d step.IH slice_get_block [of blocks n j rest, OF len j] by simp
  qed simp
  from step [of 0] show ?thesis by (simp add: absorb_def)
qed

lemma af_merge_eq_ref:
  assumes C: "crypto_ok C" and len: "\<And>b. b \<in> set blocks \<Longrightarrow> length b = n"
    and fits: "area_fits n (length blocks)" and ne: "blocks \<noteq> []"
  shows "af_merge C D (concat blocks @ rest) n (length blocks) = Ok (merge_ref C D n blocks)"
proof -
  let ?k = "length blocks - 1"
  have k: "?k < length blocks" using ne by simp
  have bl: "take ?k blocks = butlast blocks" "blocks ! ?k = last blocks"
    using ne by (simp_all add: butlast_conv_take last_conv_nth)
  have vec: "vec_zeroed n = (Ok (replicate n 0) :: bytes res)"
    using fits by (simp add: area_fits_def vec_zeroed_Ok)
  note ok = block_index_ok [OF fits less_imp_le [OF k]] vec
  have "length (absorb C D n (butlast blocks)) = length (last blocks)"
    using len ne by (subst length_absorb [OF C]) (auto dest: in_set_butlastD)
  then have "xor_into (absorb C D n (butlast blocks)) (last blocks) = merge_ref C D n blocks"
    by (simp add: xor_into_map2 merge_ref_def)
  then show ?thesis
    using ok bl slice_get_block [of blocks n ?k rest, OF len k]
      af_merge_loop_spec [OF C len fits, of ?k D rest] k
    by (simp add: af_merge_def)
qed

section \<open>Every input\<close>

text \<open>
  A stripe count or a block size that overruns the material is no error: the missing blocks are
  skipped.  The result always has the length of a block.
\<close>

lemma diffuse_total:
  assumes "crypto_ok C" and "length data \<le> isize_MAX"
  shows "\<exists>r. diffuse C D data = Ok r \<and> length r = length data"
  using assms by (simp add: diffuse_eq_ref length_diffuse_ref)

lemma af_merge_loop_step:
  assumes C: "crypto_ok C" and n: "n \<le> isize_MAX" and acc: "length acc = n" and i: "i * n + n \<le> usize_MAX"
  shows "\<exists>acc'. length acc' = n \<and> af_merge_loop C D material n (i # js) acc = af_merge_loop C D material n js acc'"
proof (cases "slice_get material (i * n) (i * n + n)")
  case None
  with acc i show ?thesis by (auto simp: usize_mul_Ok usize_add_Ok)
next
  case (Some block)
  obtain r where "diffuse C D (xor_into acc block) = Ok r" "length r = n"
    using diffuse_total [OF C, of "xor_into acc block" D] acc n by auto
  with Some i show ?thesis by (auto simp: usize_mul_Ok usize_add_Ok)
qed

lemma af_merge_loop_cases:
  assumes C: "crypto_ok C" and n: "n \<le> isize_MAX" and "length acc = n"
  shows "is_Panic (af_merge_loop C D material n js acc) \<or>
     (\<exists>r. af_merge_loop C D material n js acc = Ok r \<and> length r = n)"
  using assms(3)
proof (induction js arbitrary: acc)
  case (Cons i js)
  show ?case
  proof (cases "i * n + n \<le> usize_MAX")
    case True
    then show ?thesis using af_merge_loop_step [OF C n Cons.prems True, of D material js] Cons.IH by metis
  qed (simp add: usize_mul_def usize_add_def)
qed simp

lemma af_merge_loop_total:
  assumes C: "crypto_ok C" and n: "n \<le> isize_MAX" and "length acc = n" and "\<And>i. i \<in> set js \<Longrightarrow> i * n + n \<le> usize_MAX"
  shows "\<exists>r. af_merge_loop C D material n js acc = Ok r \<and> length r = n"
  using assms(3,4)
proof (induction js arbitrary: acc)
  case (Cons i js)
  have i: "i * n + n \<le> usize_MAX" using Cons.prems(2) by simp
  obtain acc' where "length acc' = n" "af_merge_loop C D material n (i # js) acc = af_merge_loop C D material n js acc'"
    using af_merge_loop_step [OF C n Cons.prems(1) i] by blast
  with Cons.IH [of acc'] Cons.prems(2) show ?case by simp
qed simp

text \<open>The last block ends behind every other one, at the size of all blocks.\<close>

lemma last_block: "0 < s \<Longrightarrow> (s - 1) * n + n = s * n" for s n :: nat
  by (cases s) simp_all

lemma af_merge_total:
  assumes C: "crypto_ok C" and n: "n \<le> isize_MAX" and s: "s * n \<le> usize_MAX"
  shows "\<exists>r. af_merge C D material n s = Ok r \<and> length r = n"
proof -
  have below: "i * n + n \<le> usize_MAX" if "i \<le> s - 1" for i
  proof (cases "s = 0")
    case False
    have "i * n + n \<le> (s - 1) * n + n" using mult_le_mono1 [OF that] by (rule add_le_mono1)
    then show ?thesis using False s last_block [of s n] by linarith
  qed (use that n in simp)
  then obtain r where "af_merge_loop C D material n [0..<s - 1] (replicate n 0) = Ok r" "length r = n"
    using af_merge_loop_total [OF C n, of "replicate n 0" "[0..<s - 1]" D material] by auto
  then show ?thesis
    using below [of "s - 1"] n by (simp add: af_merge_def vec_zeroed_Ok usize_mul_Ok usize_add_Ok split: option.split)
qed

lemma af_merge_panics:
  assumes C: "crypto_ok C" and "\<not> (n \<le> isize_MAX \<and> s * n \<le> usize_MAX)"
  shows "is_Panic (af_merge C D material n s)"
proof (cases "n \<le> isize_MAX")
  case True
  with assms have over: "usize_MAX < s * n" by simp
  then have "0 < s" by (cases s) simp_all
  then have "usize_MAX < (s - 1) * n + n" using over last_block by simp
  with True af_merge_loop_cases [OF C True, of "replicate n 0" D material "[0..<s - 1]"] show ?thesis
    by (auto simp: af_merge_def vec_zeroed_Ok usize_mul_def usize_add_def is_Panic_bindR)
qed (simp add: af_merge_def vec_zeroed_def)

lemma area_fits_total: "area_fits n s \<Longrightarrow> n \<le> isize_MAX \<and> s * n \<le> usize_MAX"
  by (simp add: area_fits_def)

text \<open>The hash names that the crate accepts.\<close>

definition hash_of_name :: "string \<Rightarrow> hash_alg option" where
  "hash_of_name s =
     (if s = ''sha1'' then Some Sha1 else if s = ''sha256'' then Some Sha256
      else if s = ''sha512'' then Some Sha512 else None)"

lemma merge_by_name:
  "merge C h material n s =
     (if MAX_STRIPES < s then Err (ImplausibleStripes s MAX_STRIPES n)
      else case hash_of_name h of
             Some D \<Rightarrow> af_merge C D material n s
           | None \<Rightarrow> Err (Unsupported ''hash'' h))"
  by (simp add: merge_def hash_of_name_def)

lemma merge_Ok_length:
  assumes "crypto_ok C" and "area_fits n s" and "merge C h material n s = Ok k"
  shows "length k = n"
proof -
  obtain D where "af_merge C D material n s = Ok k"
    using assms(3) by (auto simp: merge_by_name split: if_splits option.splits)
  with af_merge_total [OF assms(1), of n s D material] area_fits_total [OF assms(2)] show ?thesis by auto
qed

lemma merge_no_panic:
  assumes "crypto_ok C" and "area_fits n s"
  shows "\<not> is_Panic (merge C h material n s)"
proof (cases "hash_of_name h")
  case (Some D)
  with af_merge_total [OF assms(1), of n s D material] area_fits_total [OF assms(2)] show ?thesis by (auto simp: merge_by_name)
qed (simp add: merge_by_name)

section \<open>Splitting and merging\<close>

lemma xor_cancel: "a XOR (m XOR a) = (m :: u8)"
  by (rule bit_word_eqI) (auto simp: bit_simps)

lemma map2_xor_cancel:
  "length a = length (m :: bytes) \<Longrightarrow> map2 (XOR) a (map2 (XOR) m a) = m"
  by (induction a m rule: list_induct2) (simp_all add: xor_cancel)

lemma merge_ref_split:
  assumes "crypto_ok C" and "\<And>b. b \<in> set fs \<Longrightarrow> length b = n" and "length k = n"
  shows "merge_ref C D n (fs @ [map2 (XOR) k (absorb C D n fs)]) = k"
  using assms by (simp add: merge_ref_def length_absorb map2_xor_cancel)

text \<open>Merging the blocks \<open>fs\<close> followed by the masked key yields the key, for any \<open>fs\<close>.\<close>

lemma af_merge_split:
  assumes "crypto_ok C" and len: "\<And>b. b \<in> set fs \<Longrightarrow> length b = n" and k: "length k = n"
    and fits: "area_fits n (Suc (length fs))"
  shows "af_merge C D (concat fs @ map2 (XOR) k (absorb C D n fs) @ rest) n (Suc (length fs)) = Ok k"
proof -
  let ?blocks = "fs @ [map2 (XOR) k (absorb C D n fs)]"
  have "af_merge C D (concat ?blocks @ rest) n (length ?blocks) = Ok (merge_ref C D n ?blocks)"
    using assms by (intro af_merge_eq_ref) (auto simp: length_absorb)
  then show ?thesis using merge_ref_split [OF assms(1) len k] by simp
qed

lemma af_split_loop_spec:
  assumes C: "crypto_ok C" and len: "\<And>b. b \<in> set blocks \<Longrightarrow> length b = n"
    and fits: "area_fits n (length blocks)" and k: "k \<le> length blocks"
  shows "af_split_loop C D (concat blocks @ rest) n [0..<k] (replicate n 0) = Ok (absorb C D n (take k blocks))"
proof -
  have step: "af_split_loop C D (concat blocks @ rest) n [j..<k] (absorb C D n (take j blocks)) =
      Ok (absorb C D n (take k blocks))" if "j \<le> k" for j
    using that
  proof (induction j rule: inc_induct)
    case (step j)
    then have j: "j < length blocks" using k by simp
    note ok = block_index_ok [OF fits less_imp_le [OF j]]
    let ?a = "absorb C D n (take j blocks)"
    have a: "length ?a = n" using len by (intro length_absorb [OF C]) (auto dest: in_set_takeD)
    moreover have "length (blocks ! j) = n" using len j by simp
    ultimately have "xor_into ?a (blocks ! j) = map2 (XOR) ?a (blocks ! j)"
      by (simp add: xor_into_map2)
    moreover have "diffuse C D (xor_into ?a (blocks ! j)) = Ok (diffuse_ref C D (xor_into ?a (blocks ! j)))"
      using C a fits by (intro diffuse_eq_ref) (simp_all add: area_fits_def)
    ultimately have "diffuse C D (xor_into ?a (blocks ! j)) = Ok (absorb C D n (take (Suc j) blocks))"
      using j by (simp add: absorb_def take_Suc_conv_app_nth)
    moreover have "[j..<k] = j # [Suc j..<k]" using step.hyps by (simp add: upt_conv_Cons)
    ultimately show ?case
      using ok step.IH slice_get_block [of blocks n j rest, OF len j] by (simp add: slice_index_def)
  qed simp
  from step [of 0] show ?thesis by (simp add: absorb_def)
qed

lemma concat_replicate_replicate: "concat (replicate s (replicate n x)) = replicate (s * n) x"
  by (induction s) (simp_all add: replicate_add)

lemma mask_loop_spec:
  assumes "length acc \<le> length master - k" and "at + k + length acc \<le> length material" and "length material \<le> usize_MAX"
  shows "mask_loop master at (List.enumerate k acc) material =
     Ok (take (at + k) material @ map2 (XOR) (drop k master) acc @ drop (at + k + length acc) material)"
  using assms
proof (induction acc arbitrary: k material)
  case (Cons b acc)
  let ?m = "material[at + k := (master ! k) XOR b]"
  have k: "k < length master" using Cons.prems(1) by simp
  have "mask_loop master at (List.enumerate k (b # acc)) material = mask_loop master at (List.enumerate (Suc k) acc) ?m"
    using Cons.prems k by (simp add: usize_add_Ok)
  also have "\<dots> = Ok (take (at + Suc k) ?m @ map2 (XOR) (drop (Suc k) master) acc @ drop (at + Suc k + length acc) ?m)"
    using Cons.prems by (intro Cons.IH) auto
  also have "take (at + Suc k) ?m = take (at + k) material @ [(master ! k) XOR b]"
    using Cons.prems by (simp add: take_Suc_conv_app_nth)
  also have "drop (at + Suc k + length acc) ?m = drop (at + k + length (b # acc)) material" by simp
  finally show ?case using Cons_nth_drop_Suc [OF k, symmetric] by (simp only: list.simps zip_Cons_Cons case_prod_conv append.simps append_assoc)
qed simp

lemma mask_loop_short:
  assumes "length master < k + length acc" and "k \<le> length master"
  shows "is_Panic (mask_loop master at (List.enumerate k acc) material)"
  using assms by (induction acc arbitrary: k material) (auto simp: usize_add_def)

text \<open>What an allocation of the whole material implies.\<close>

lemma area_fits_of_material: "n * s \<le> isize_MAX \<Longrightarrow> 0 < s \<Longrightarrow> area_fits n s"
proof -
  assume "n * s \<le> isize_MAX" and "0 < s"
  moreover from this have "n * 1 \<le> n * s" by (intro mult_le_mono2) simp
  ultimately have "n \<le> isize_MAX" unfolding mult_1_right by linarith
  with \<open>n * s \<le> isize_MAX\<close> show ?thesis unfolding area_fits_def by (simp add: mult.commute)
qed

text \<open>What \<open>af_split\<close> writes: filler blocks and the masked key.\<close>

lemma af_split_run:
  assumes C: "crypto_ok C" and fits: "n * s \<le> isize_MAX" and s: "0 < s"
  shows "af_split C D master n s filler =
     mask_loop master ((s - 1) * n)
       (List.enumerate 0 (absorb C D n (replicate (s - 1) (replicate n filler)))) (replicate (n * s) filler)"
proof -
  let ?fs = "replicate (s - 1) (replicate n filler)"
  have area: "area_fits n s" using fits s by (rule area_fits_of_material)
  then have n: "n \<le> isize_MAX" by (simp add: area_fits_def)
  have "n * s = (s - 1) * n + n" using s by (cases s) simp_all
  then have mat: "replicate (n * s) filler = concat ?fs @ replicate n filler"
    by (simp add: concat_replicate_replicate replicate_add)
  have "area_fits n (length ?fs)" using area by (simp add: area_fits_def) (use s in \<open>cases s; simp\<close>)
  then have "af_split_loop C D (replicate (n * s) filler) n [0..<s - 1] (replicate n 0) = Ok (absorb C D n ?fs)"
    using af_split_loop_spec [OF C, of ?fs n "s - 1" D "replicate n filler"] unfolding mat by simp
  moreover have "usize_mul (s - 1) n = (Ok ((s - 1) * n) :: usize res)" using block_index_ok(1) [OF area, of "s - 1"] by simp
  moreover have "usize_mul n s = (Ok (n * s) :: usize res)" using fits by (simp add: usize_mul_Ok)
  ultimately show ?thesis
    using fits n s by (simp add: af_split_def vec_filled_def vec_zeroed_Ok usize_sub_Ok)
qed

lemma af_split_value:
  assumes C: "crypto_ok C" and k: "n \<le> length master" and fits: "n * s \<le> isize_MAX" and s: "0 < s"
  shows "af_split C D master n s filler =
     Ok (replicate ((s - 1) * n) filler @
         map2 (XOR) (take n master) (absorb C D n (replicate (s - 1) (replicate n filler))))"
proof -
  let ?acc = "absorb C D n (replicate (s - 1) (replicate n filler))"
  have len: "length ?acc = n" by (rule length_absorb [OF C]) auto
  have sn: "n * s = (s - 1) * n + n" using s by (cases s) simp_all
  have "mask_loop master ((s - 1) * n) (List.enumerate 0 ?acc) (replicate (n * s) filler) =
      Ok (take ((s - 1) * n + 0) (replicate (n * s) filler) @ map2 (XOR) (drop 0 master) ?acc @
        drop ((s - 1) * n + 0 + length ?acc) (replicate (n * s) filler))"
    using len k fits sn by (intro mask_loop_spec) simp_all
  moreover have "map2 (XOR) master ?acc = map2 (XOR) (take n master) ?acc"
    using take_zip [of n master ?acc] len by simp
  ultimately show ?thesis
    using len sn by (simp add: af_split_run [OF C fits s] min_def)
qed

lemma af_split_panics:
  assumes C: "crypto_ok C" and "\<not> (0 < s \<and> n * s \<le> isize_MAX \<and> n \<le> length master)"
  shows "is_Panic (af_split C D master n s filler)"
proof (cases "0 < s \<and> n * s \<le> isize_MAX")
  case True
  have "length (absorb C D n (replicate (s - 1) (replicate n filler))) = n" by (rule length_absorb [OF C]) auto
  with True assms show ?thesis by (simp add: af_split_run mask_loop_short)
next
  case False
  then show ?thesis
    by (auto simp: af_split_def usize_mul_def vec_filled_def vec_zeroed_def usize_sub_def)
qed

lemma merge_af_split:
  assumes C: "crypto_ok C" and k: "n \<le> length master" and fits: "n * s \<le> isize_MAX"
    and s: "0 < s" "s \<le> MAX_STRIPES" and h: "hash_of_name h = Some D"
  shows "\<exists>m. af_split C D master n s filler = Ok m \<and> length m = s * n \<and>
     (\<forall>rest. merge C h (m @ rest) n s = Ok (take n master))"
proof -
  let ?fs = "replicate (s - 1) (replicate n filler)"
  let ?m = "concat ?fs @ map2 (XOR) (take n master) (absorb C D n ?fs)"
  have area: "area_fits n s" using fits s(1) by (rule area_fits_of_material)
  have "length (absorb C D n ?fs) = n" by (rule length_absorb [OF C]) auto
  then have "length ?m = s * n"
    using k s by (cases s) (simp_all add: concat_replicate_replicate)
  moreover have "merge C h (?m @ rest) n s = Ok (take n master)" for rest
    using af_merge_split [OF C, of ?fs n "take n master" D rest] k area s h
    by (simp add: merge_by_name)
  moreover have "af_split C D master n s filler = Ok ?m"
    using af_split_value [OF C k fits s(1), of D filler] by (simp add: concat_replicate_replicate)
  ultimately show ?thesis by blast
qed

section \<open>The size of the key material\<close>

lemma div_ceil_512: "div_ceil r 512 = (r + 511) div 512"
proof -
  obtain q m where "r = 512 * q + m" "m < 512" using div_mult_mod_eq [of r 512] mod_less_divisor [of 512 r]
    by (metis mult.commute zero_less_numeral)
  then show ?thesis by (cases "m = 0") (simp_all add: div_ceil_def div_nat_eqI)
qed

lemma material_len_Ok:
  assumes "material_len n s = Ok len"
  shows "s \<le> MAX_STRIPES \<and> len mod 512 = 0 \<and> n * s \<le> len \<and> len < n * s + 512"
proof -
  from assms have s: "s \<le> MAX_STRIPES" and len: "len = div_ceil (n * s) 512 * 512"
    by (auto simp: material_len_def checked_mul_def usize_mul_def split: if_splits)
  then show ?thesis using div_ceil_bounds [of 512 "n * s"] by simp
qed

lemma material_len_total:
  assumes "n \<le> 1024"
  shows "\<not> is_Panic (material_len n s)"
    and "s \<le> MAX_STRIPES \<Longrightarrow> \<exists>len. material_len n s = Ok len \<and> len \<le> 2 ^ 30"
proof -
  show ok: "\<exists>len. material_len n s = Ok len \<and> len \<le> 2 ^ 30" if "s \<le> MAX_STRIPES"
  proof -
    have ns: "n * s \<le> 1024 * 2 ^ 20"
      using assms that by (intro mult_le_mono) (simp_all add: MAX_STRIPES_def)
    have "div_ceil (n * s) 512 * 512 < n * s + 512" by (rule div_ceil_bounds) simp
    moreover have "div_ceil (n * s) 512 \<le> 2 ^ 21"
    proof (rule ccontr)
      assume "\<not> div_ceil (n * s) 512 \<le> 2 ^ 21"
      then have "(2 ^ 21 + 1) * 512 \<le> div_ceil (n * s) 512 * 512" by (intro mult_le_mono1) simp
      with calculation ns show False by simp
    qed
    ultimately show ?thesis
      using that ns by (simp add: material_len_def checked_mul_def usize_mul_def)
  qed
  then show "\<not> is_Panic (material_len n s)"
    by (cases "s \<le> MAX_STRIPES") (auto simp: material_len_def)
qed

section \<open>Properties\<close>

text \<open>
  C21.  The diffusion loop computes the diffusion of the format: every chunk of the digest's size is
  replaced by the digest of its big-endian index and itself, cut to the length of the chunk.  It
  neither panics nor changes the length.
\<close>

theorem diffuse_is_diffusion:
  assumes "crypto_ok C" and "length data \<le> isize_MAX"
  shows "diffuse C D data = Ok (diffuse_ref C D data) \<and> length (diffuse_ref C D data) = length data"
  using assms by (simp add: diffuse_eq_ref length_diffuse_ref)

theorem diffuse_is_diffusion_witness:
  "diffuse sample_crypto Sha1 (replicate 21 9) = Ok (diffuse_ref sample_crypto Sha1 (replicate 21 9)) \<and>
   length (diffuse_ref sample_crypto Sha1 (replicate 21 9)) = 21"
  using diffuse_is_diffusion [of sample_crypto "replicate 21 9" Sha1] by simp

text \<open>
  C20.  Merging computes the anti-forensic combination of the format: each block but the last is
  combined into the accumulator by exclusive or and diffused, the last one is combined without
  diffusion, and bytes behind the blocks do not matter.
\<close>

theorem merge_is_combination:
  assumes "crypto_ok C" and "hash_of_name h = Some D" and "\<And>b. b \<in> set blocks \<Longrightarrow> length b = n"
    and "area_fits n (length blocks)" and "blocks \<noteq> []" and "length blocks \<le> MAX_STRIPES"
  shows "merge C h (concat blocks @ rest) n (length blocks) = Ok (merge_ref C D n blocks)"
  using assms af_merge_eq_ref [of C blocks n D rest] by (simp add: merge_by_name)

theorem merge_is_combination_witness:
  "merge sample_crypto ''sha1'' (concat [[1, 2], [3, 4]] @ [5]) 2 (length [[1, 2], [3, 4 :: u8]]) =
     Ok (merge_ref sample_crypto Sha1 2 [[1, 2], [3, 4]])"
  by (rule merge_is_combination) (auto simp: hash_of_name_def area_fits_def MAX_STRIPES_def)





text \<open>
  C31.  For every key length that a derivation can produce, the size of the key material is either
  refused, exactly when the stripes exceed the ceiling, or it is the least multiple of a sector that
  holds all stripes, and at most a gibibyte.
\<close>

theorem material_len_bounds:
  assumes "n \<le> 1024"
  shows "if MAX_STRIPES < s then material_len n s = Err (ImplausibleStripes s MAX_STRIPES n)
     else \<exists>len. material_len n s = Ok len \<and> len mod 512 = 0 \<and> n * s \<le> len \<and> len < n * s + 512 \<and> len \<le> 2 ^ 30"
proof (cases "MAX_STRIPES < s")
  case False
  then obtain len where "material_len n s = Ok len" "len \<le> 2 ^ 30"
    using material_len_total(2) [OF assms, of s] by auto
  with False material_len_Ok [of n s len] show ?thesis by auto
qed (simp add: material_len_def)

theorem material_len_bounds_witness:
  "(64 :: nat) \<le> 1024 \<and> (\<exists>len. material_len 64 4000 = Ok len \<and> len mod 512 = 0 \<and> 256000 \<le> len \<and> len < 256512)"
  using material_len_bounds [of 64 4000] by (auto simp: MAX_STRIPES_def)

text \<open>
  C40.  The size of the key material on every input: more stripes than the ceiling and a product
  outside the range of \<open>usize\<close> are refused, as documented, but the rounding up to a sector is not
  checked: a product within the last 511 values of the range passes \<open>checked_mul\<close> and overflows
  then.  Every other product is rounded up to the next multiple of 512.
\<close>

theorem material_len_classified:
  "material_len n s =
     (if MAX_STRIPES < s \<or> usize_MAX < n * s then Err (ImplausibleStripes s MAX_STRIPES n)
      else if usize_MAX - 511 < n * s then Panic ''attempt to multiply with overflow''
      else Ok ((n * s + 511) div 512 * 512))"
proof -
  have ceil: "div_ceil (n * s) 512 = (n * s + 511) div 512"
    by (rule div_ceil_512)
  have "(n * s + 511) div 512 * 512 \<le> usize_MAX \<longleftrightarrow> n * s \<le> usize_MAX - 511"
    using div_less_iff_less_mult [of 512 "n * s + 511" "2 ^ 55"] by auto
  then show ?thesis
    by (auto simp: material_len_def checked_mul_def usize_mul_def ceil not_less)
qed

end
