(* ===== verification/Crypto.thy ===== *)
theory Crypto
  imports Af
begin

text \<open>
  \<^verbatim>\<open>core/src/crypto.rs\<close>: key derivation within a time budget, and AES-XTS decryption of an area
  in data units.
\<close>

section \<open>Constants\<close>

definition DERIVATION_BUDGET :: duration where
  "DERIVATION_BUDGET = from_secs 30"

definition UNLOCK_BUDGET :: duration where
  "UNLOCK_BUDGET = from_secs 90"

definition CALIBRATION_ITERS :: u32 where
  "CALIBRATION_ITERS = 20000"

definition MAX_ARGON2_MEMORY_KIB :: u32 where
  "MAX_ARGON2_MEMORY_KIB = 4 * 1024 * 1024"

definition MAX_KEY_BYTES :: usize where
  "MAX_KEY_BYTES = 1024"

section \<open>PBKDF2\<close>

text \<open>The buffer \<open>out\<close> is overwritten; its length is the length asked for.\<close>

definition pbkdf2_into :: "crypto_api \<Rightarrow> string \<Rightarrow> bytes \<Rightarrow> bytes \<Rightarrow> u32 \<Rightarrow> bytes \<Rightarrow> bytes res" where
  "pbkdf2_into C hspec password slt iters out =
     (if hspec = ''sha1'' then Ok (pbkdf2_hmac C Sha1 password slt iters (length out))
      else if hspec = ''sha256'' then Ok (pbkdf2_hmac C Sha256 password slt iters (length out))
      else if hspec = ''sha512'' then Ok (pbkdf2_hmac C Sha512 password slt iters (length out))
      else Err (Unsupported ''hash'' hspec))"

text \<open>\<open>u128::saturating_mul\<close>, and \<open>Duration::from_nanos(u64::try_from(n).unwrap_or(u64::MAX))\<close>.\<close>

definition sat_mul_u128 :: "nat \<Rightarrow> nat \<Rightarrow> nat" where
  "sat_mul_u128 a b = min (a * b) u128_MAX"

definition nanos_clamped :: "nat \<Rightarrow> duration" where
  "nanos_clamped n = (if n \<le> u64_MAX then n else u64_MAX)"

text \<open>The projected cost of \<open>iters\<close> rounds from the time of the calibration run.\<close>

definition pbkdf2_projection :: "duration \<Rightarrow> u32 \<Rightarrow> duration" where
  "pbkdf2_projection measured iters =
     nanos_clamped (sat_mul_u128 measured (unat iters) div unat CALIBRATION_ITERS)"

definition derive_key_within ::
  "crypto_api \<Rightarrow> string \<Rightarrow> bytes \<Rightarrow> bytes \<Rightarrow> u32 \<Rightarrow> usize \<Rightarrow> duration \<Rightarrow>
   ('x clock_scheme, LuksError, bytes) prog" where
  "derive_key_within C hspec password slt iters0 key_len budget =
     (if MAX_KEY_BYTES < key_len then fail (KeyLengthExceeded key_len MAX_KEY_BYTES)
      else
      bindM (liftR (vec_zeroed key_len)) (\<lambda>out.
      let iters = max iters0 1 in
      bindM
        (if CALIBRATION_ITERS < iters then
           bindM (liftR (vec_zeroed key_len)) (\<lambda>probe.
           bindM instant_now (\<lambda>started.
           bindM (liftR (pbkdf2_into C hspec password slt CALIBRATION_ITERS probe)) (\<lambda>_.
           bindM (elapsed started) (\<lambda>measured.
           let projected = pbkdf2_projection measured iters in
           if budget < projected
             then fail (DerivationBudgetExceeded iters (as_secs projected) (as_secs budget))
             else ret ()))))
         else ret ())
        (\<lambda>_. liftR (pbkdf2_into C hspec password slt iters out))))"

section \<open>Argon2\<close>

record Argon2Params =
  kind :: string
  time :: u32
  memory :: u32
  cpus :: u32
  argon_salt :: bytes

text \<open>The closure \<open>run\<close>.\<close>

definition argon2_run ::
  "crypto_api \<Rightarrow> argon2_alg \<Rightarrow> Argon2Params \<Rightarrow> bytes \<Rightarrow> usize \<Rightarrow> u32 \<Rightarrow> bytes \<Rightarrow> bytes res" where
  "argon2_run C algo p password key_len t out =
     (case argon2_params C (memory p) t (cpus p) key_len of
        Some e \<Rightarrow> Err (Unsupported ''argon2 params'' e)
      | None \<Rightarrow>
         (case argon2_hash C algo (memory p) t (cpus p) password (argon_salt p) (length out) of
            Inl e \<Rightarrow> Err (Unsupported ''argon2'' e)
          | Inr out' \<Rightarrow> Ok out'))"

definition argon2_projection :: "duration \<Rightarrow> u32 \<Rightarrow> duration" where
  "argon2_projection measured t = nanos_clamped (sat_mul_u128 measured (unat t))"

definition derive_key_argon2_within ::
  "crypto_api \<Rightarrow> Argon2Params \<Rightarrow> bytes \<Rightarrow> usize \<Rightarrow> duration \<Rightarrow>
   ('x clock_scheme, LuksError, bytes) prog" where
  "derive_key_argon2_within C p password key_len budget =
     bindM (liftR (if kind p = ''argon2i'' then Ok Argon2i
                   else if kind p = ''argon2id'' then Ok Argon2id
                   else Err (Unsupported ''argon2 variant'' (kind p)))) (\<lambda>algo.
     if MAX_KEY_BYTES < key_len then fail (KeyLengthExceeded key_len MAX_KEY_BYTES)
     else if MAX_ARGON2_MEMORY_KIB < memory p
       then fail (DerivationMemoryExceeded (memory p) MAX_ARGON2_MEMORY_KIB)
     else
     bindM
       (if 1 < time p then
          bindM (liftR (vec_zeroed key_len)) (\<lambda>probe.
          bindM instant_now (\<lambda>started.
          bindM (liftR (argon2_run C algo p password key_len 1 probe)) (\<lambda>_.
          bindM (elapsed started) (\<lambda>measured.
          let projected = argon2_projection measured (time p) in
          if budget < projected
            then fail (DerivationBudgetExceeded (time p) (as_secs projected) (as_secs budget))
            else ret ()))))
        else ret ())
       (\<lambda>_. bindM (liftR (vec_zeroed key_len)) (\<lambda>out.
            liftR (argon2_run C algo p password key_len (time p) out))))"

section \<open>AES-XTS\<close>

text \<open>
  The area is cut into units of \<open>unit_size\<close> bytes; unit \<open>u\<close> is decrypted in place under the tweak
  \<open>base + u * step\<close>, little-endian; a unit below 16 bytes is left as it is.  \<open>chunks_mut\<close> panics
  for a size of zero.  The argument \<open>dec\<close> is the method \<open>decrypt_sector\<close> of the cipher at hand.
\<close>

definition decrypt_unit :: "(bytes \<Rightarrow> bytes \<Rightarrow> bytes) \<Rightarrow> u128 \<Rightarrow> u128 \<Rightarrow> usize \<times> bytes \<Rightarrow> bytes res" where
  "decrypt_unit dec base step uc =
     (case uc of (u, chunk) \<Rightarrow>
        if length chunk < 16 then Ok chunk
        else
        bindR (chk_mul (of_nat u) step) (\<lambda>m.
        bindR (chk_add base m) (\<lambda>tweak.
        Ok (dec (to_le_bytes 16 tweak) chunk))))"

definition decrypt_units ::
  "(bytes \<Rightarrow> bytes \<Rightarrow> bytes) \<Rightarrow> bytes \<Rightarrow> usize \<Rightarrow> u128 \<Rightarrow> u128 \<Rightarrow> bytes res" where
  "decrypt_units dec buffer unit_size base step =
     (if unit_size = 0 then Panic ''chunk size must be non-zero''
      else bindR (mapR (decrypt_unit dec base step) (List.enumerate 0 (chunks unit_size buffer)))
             (\<lambda>cs. Ok (concat cs)))"

definition xts_decrypt_area ::
  "crypto_api \<Rightarrow> string \<Rightarrow> bytes \<Rightarrow> bytes \<Rightarrow> usize \<Rightarrow> u128 \<Rightarrow> bytes res" where
  "xts_decrypt_area C mode key buffer unit_size base_sector =
     (if mode \<noteq> ''xts-plain64'' then Err (Unsupported ''cipher mode'' mode)
      else let step = of_nat (max (unit_size div 512) 1) in
        if length key = 32 then
          decrypt_units (decrypt_sector C Aes128 (take 16 key) (drop 16 key)) buffer unit_size base_sector step
        else if length key = 64 then
          decrypt_units (decrypt_sector C Aes256 (take 32 key) (drop 32 key)) buffer unit_size base_sector step
        else Err (Unsupported ''xts key size'' (show_nat (length key) @ '' bytes'')))"

section \<open>Derivation\<close>

lemma pbkdf2_into_by_name:
  "pbkdf2_into C h pw s n out =
     (case hash_of_name h of
        Some D \<Rightarrow> Ok (pbkdf2_hmac C D pw s n (length out))
      | None \<Rightarrow> Err (Unsupported ''hash'' h))"
  by (simp add: pbkdf2_into_def hash_of_name_def)

lemmas key_consts = MAX_KEY_BYTES_def CALIBRATION_ITERS_def MAX_ARGON2_MEMORY_KIB_def

text \<open>The time the calibration run takes, when there is one: two readings of the clock.\<close>

definition calibration_time :: "'x clock_scheme \<Rightarrow> duration" where
  "calibration_time s = reading s (Suc (tick s)) - reading s (tick s)"

lemma derive_key_value:
  "derive_key_within C h pw slt iters key_len budget s =
     (if MAX_KEY_BYTES < key_len then Some (Err (KeyLengthExceeded key_len MAX_KEY_BYTES), s)
      else case hash_of_name h of
        None \<Rightarrow> Some (Err (Unsupported ''hash'' h),
                   if CALIBRATION_ITERS < max iters 1 then s\<lparr>tick := tick s + 1\<rparr> else s)
      | Some D \<Rightarrow>
         if CALIBRATION_ITERS < max iters 1 then
           let projected = pbkdf2_projection (calibration_time s) (max iters 1) in
           if budget < projected
             then Some (Err (DerivationBudgetExceeded (max iters 1) (as_secs projected) (as_secs budget)),
                        s\<lparr>tick := tick s + 2\<rparr>)
             else Some (Ok (pbkdf2_hmac C D pw slt (max iters 1) key_len), s\<lparr>tick := tick s + 2\<rparr>)
         else Some (Ok (pbkdf2_hmac C D pw slt (max iters 1) key_len), s))"
proof (cases "MAX_KEY_BYTES < key_len")
  case False
  then have v: "vec_zeroed key_len = Ok (replicate key_len 0)"
    by (simp add: vec_zeroed_Ok MAX_KEY_BYTES_def)
  have r: "(s\<lparr>tick := Suc (tick s)\<rparr>)\<lparr>tick := Suc (Suc (tick s))\<rparr> = s\<lparr>tick := tick s + 2\<rparr>" by simp
  show ?thesis
    using False
    by (cases "hash_of_name h"; cases "CALIBRATION_ITERS < max iters 1")
      (simp_all add: derive_key_within_def v pbkdf2_into_by_name Let_def calibration_time_def
        bindM_run)
qed (simp add: derive_key_within_def)

text \<open>A derivation always returns, never panics and reads the clock but touches nothing else.\<close>

lemma derive_key_returns:
  "\<exists>r s'. derive_key_within C h pw slt iters key_len budget s = Some (r, s') \<and>
     clock_ahead s s' \<and> \<not> is_Panic r"
  unfolding derive_key_value Let_def by (auto split: option.split)

lemma derive_key_Ok:
  assumes "derive_key_within C h pw slt iters key_len budget s = Some (Ok k, s')"
  shows "key_len \<le> MAX_KEY_BYTES"
    and "\<exists>D. hash_of_name h = Some D \<and> k = pbkdf2_hmac C D pw slt (max iters 1) key_len"
    and "CALIBRATION_ITERS < max iters 1 \<Longrightarrow>
      pbkdf2_projection (calibration_time s) (max iters 1) \<le> budget"
  using assms unfolding derive_key_value Let_def by (auto split: option.splits if_splits)

lemma derive_key_Ok_length:
  "crypto_ok C \<Longrightarrow> derive_key_within C h pw slt iters key_len budget s = Some (Ok k, s') \<Longrightarrow>
   length k = key_len"
  using derive_key_Ok(2) crypto_okD(2) by metis

definition argon2_of_name :: "string \<Rightarrow> argon2_alg option" where
  "argon2_of_name s = (if s = ''argon2i'' then Some Argon2i else if s = ''argon2id'' then Some Argon2id else None)"

lemma argon2_run_no_panic [simp]: "\<not> is_Panic (argon2_run C A p pw n t out)"
  by (simp add: argon2_run_def split: option.split sum.split)

lemma argon2_run_Ok_length:
  "crypto_ok C \<Longrightarrow> argon2_run C A p pw n t out = Ok k \<Longrightarrow> length k = length out"
  by (auto simp: argon2_run_def crypto_okD split: option.splits sum.splits)

lemma derive_argon2_value:
  "derive_key_argon2_within C p pw key_len budget s =
     (case argon2_of_name (kind p) of
        None \<Rightarrow> Some (Err (Unsupported ''argon2 variant'' (kind p)), s)
      | Some A \<Rightarrow>
         if MAX_KEY_BYTES < key_len then Some (Err (KeyLengthExceeded key_len MAX_KEY_BYTES), s)
         else if MAX_ARGON2_MEMORY_KIB < memory p
           then Some (Err (DerivationMemoryExceeded (memory p) MAX_ARGON2_MEMORY_KIB), s)
         else if 1 < time p then
           (case argon2_run C A p pw key_len 1 (replicate key_len 0) of
              Ok _ \<Rightarrow>
                let projected = argon2_projection (calibration_time s) (time p) in
                if budget < projected
                  then Some (Err (DerivationBudgetExceeded (time p) (as_secs projected) (as_secs budget)),
                             s\<lparr>tick := tick s + 2\<rparr>)
                  else Some (argon2_run C A p pw key_len (time p) (replicate key_len 0),
                             s\<lparr>tick := tick s + 2\<rparr>)
            | Err e \<Rightarrow> Some (Err e, s\<lparr>tick := tick s + 1\<rparr>)
            | Panic q \<Rightarrow> Some (Panic q, s\<lparr>tick := tick s + 1\<rparr>))
         else Some (argon2_run C A p pw key_len (time p) (replicate key_len 0), s))"
proof (cases "argon2_of_name (kind p)")
  case None
  then show ?thesis
    by (auto simp: derive_key_argon2_within_def argon2_of_name_def bindM_run split: if_splits)
next
  case (Some A)
  then have alg: "(if kind p = ''argon2i'' then Ok Argon2i else if kind p = ''argon2id'' then Ok Argon2id
      else Err (Unsupported ''argon2 variant'' (kind p))) = Ok A"
    by (auto simp: argon2_of_name_def split: if_splits)
  show ?thesis
  proof (cases "MAX_KEY_BYTES < key_len")
    case True
    then show ?thesis using Some by (simp add: derive_key_argon2_within_def alg)
  next
    case False
    then have v: "vec_zeroed key_len = (Ok (replicate key_len 0) :: bytes res)"
      by (simp add: vec_zeroed_Ok MAX_KEY_BYTES_def)
    show ?thesis
      using False Some
      by (cases "argon2_run C A p pw key_len 1 (replicate key_len 0)"; cases "1 < time p")
        (simp_all add: derive_key_argon2_within_def alg v Let_def calibration_time_def bindM_run)
  qed
qed

lemma derive_argon2_returns:
  "\<exists>r s'. derive_key_argon2_within C p pw key_len budget s = Some (r, s') \<and>
     clock_ahead s s' \<and> \<not> is_Panic r"
proof -
  have "argon2_run C A p pw key_len t out = Panic q \<Longrightarrow> False" for A t out q
    using argon2_run_no_panic [of C A p pw key_len t out] by simp
  then show ?thesis
    unfolding derive_argon2_value Let_def by (auto split: option.split outcome.split)
qed

lemma derive_argon2_Ok:
  assumes "derive_key_argon2_within C p pw key_len budget s = Some (Ok k, s')"
  shows "key_len \<le> MAX_KEY_BYTES"
    and "memory p \<le> MAX_ARGON2_MEMORY_KIB"
    and "\<exists>A. argon2_of_name (kind p) = Some A \<and>
      argon2_run C A p pw key_len (time p) (replicate key_len 0) = Ok k"
    and "1 < time p \<Longrightarrow> argon2_projection (calibration_time s) (time p) \<le> budget"
  using assms unfolding derive_argon2_value Let_def
  by (auto split: option.splits if_splits outcome.splits)

lemma derive_argon2_Ok_length:
  assumes "crypto_ok C" and "derive_key_argon2_within C p pw key_len budget s = Some (Ok k, s')"
  shows "length k = key_len"
  using derive_argon2_Ok(3) [OF assms(2)] argon2_run_Ok_length [OF assms(1)] by fastforce

section \<open>Units\<close>

text \<open>Reference: every unit is transformed on its own under its sector number.\<close>

definition unit_ref :: "(bytes \<Rightarrow> bytes \<Rightarrow> bytes) \<Rightarrow> nat \<Rightarrow> nat \<Rightarrow> nat \<Rightarrow> bytes \<Rightarrow> bytes" where
  "unit_ref f base step u c =
     (if length c < 16 then c else f (to_le_bytes 16 (of_nat (base + u * step) :: u128)) c)"

definition units_ref :: "(bytes \<Rightarrow> bytes \<Rightarrow> bytes) \<Rightarrow> bytes \<Rightarrow> usize \<Rightarrow> nat \<Rightarrow> nat \<Rightarrow> bytes" where
  "units_ref f buffer unit_size base step = on_chunks (unit_ref f base step) unit_size 0 buffer"

lemma unit_tweak:
  assumes "unat base + u * unat step < 2 ^ 128"
  shows "chk_mul (of_nat u) step = (Ok (of_nat (u * unat step)) :: u128 res)"
    and "chk_add base (of_nat (u * unat step)) = (Ok (of_nat (unat base + u * unat step)) :: u128 res)"
proof -
  have le: "u * unat step < 2 ^ 128" using assms by simp
  have u: "unat (of_nat u :: u128) * unat step < 2 ^ LENGTH(128)"
  proof (rule le_less_trans)
    show "unat (of_nat u :: u128) * unat step \<le> u * unat step"
      by (intro mult_le_mono1) (simp add: unat_of_nat)
  qed (use le in simp)
  have "of_nat u * step = (of_nat (u * unat step) :: u128)"
    by simp
  with u show "chk_mul (of_nat u) step = (Ok (of_nat (u * unat step)) :: u128 res)"
    by (simp add: chk_mul_def)
  have "unat (of_nat (u * unat step) :: u128) = u * unat step"
    using le by (simp add: unat_of_nat del: of_nat_mult)
  moreover have "base + of_nat (u * unat step) = (of_nat (unat base + u * unat step) :: u128)"
    by simp
  ultimately show "chk_add base (of_nat (u * unat step)) = (Ok (of_nat (unat base + u * unat step)) :: u128 res)"
    using assms by (simp add: chk_add_def)
qed

lemma length_chunks: "length (chunks n xs) \<le> length xs"
  by (induction n xs rule: chunks.induct) (auto intro: le_trans)

lemma decrypt_units_spec:
  assumes "0 < unit_size" and bound: "unat base + length buffer * unat step < 2 ^ 128"
  shows "decrypt_units f buffer unit_size base step = Ok (units_ref f buffer unit_size (unat base) (unat step))"
proof -
  let ?us = "List.enumerate 0 (chunks unit_size buffer)"
  have "decrypt_unit f base step uc = Ok ((\<lambda>(u, c). unit_ref f (unat base) (unat step) u c) uc)"
    if "uc \<in> set ?us" for uc
  proof -
    obtain u c where uc: "uc = (u, c)" by (cases uc)
    with that have "u < length (chunks unit_size buffer)" by (auto simp: in_set_enumerate_eq)
    then have "u \<le> length buffer" using length_chunks [of unit_size buffer] by simp
    then have "u * unat step \<le> length buffer * unat step" by (rule mult_le_mono1)
    with bound have "unat base + u * unat step < 2 ^ 128" by linarith
    from unit_tweak [OF this] show ?thesis
      by (simp add: decrypt_unit_def unit_ref_def uc del: of_nat_mult of_nat_add)
  qed
  then show ?thesis
    using assms(1) by (simp add: decrypt_units_def units_ref_def on_chunks_def mapR_Ok)
qed

lemma length_units_ref:
  "(\<And>t c. length (f t c) = length c) \<Longrightarrow> length (units_ref f buffer n base step) = length buffer"
  unfolding units_ref_def by (rule length_on_chunks) (simp add: unit_ref_def)

lemma units_ref_single:
  assumes "16 \<le> length c" and "length c \<le> n"
  shows "units_ref f c n base step = f (to_le_bytes 16 (of_nat base :: u128)) c"
proof -
  have "chunks n c = [c]" using assms by (intro chunks_small) auto
  with assms show ?thesis by (simp add: units_ref_def on_chunks_def unit_ref_def)
qed

lemma units_ref_inverse:
  assumes "\<And>t c. 16 \<le> length c \<Longrightarrow> f t (g t c) = c" and "\<And>t c. length (g t c) = length c" and "0 < n"
  shows "units_ref f (units_ref g buffer n base step) n base step = buffer"
  unfolding units_ref_def using assms by (intro on_chunks_inverse) (simp_all add: unit_ref_def)

section \<open>Areas\<close>

text \<open>The AES variant and the two keys that a master key of 32 or 64 bytes selects.\<close>

definition xts_cipher :: "bytes \<Rightarrow> (aes_alg \<times> bytes \<times> bytes) option" where
  "xts_cipher key =
     (if length key = 32 then Some (Aes128, take 16 key, drop 16 key)
      else if length key = 64 then Some (Aes256, take 32 key, drop 32 key)
      else None)"

definition unit_step :: "usize \<Rightarrow> nat" where
  "unit_step unit_size = max (unit_size div 512) 1"

text \<open>Far above any tweak a container can produce.\<close>

definition tweaks_fit :: "nat \<Rightarrow> nat \<Rightarrow> nat \<Rightarrow> bool" where
  "tweaks_fit unit_size len base \<longleftrightarrow>
     0 < unit_size \<and> unit_size \<le> usize_MAX \<and> base + len * unit_step unit_size < 2 ^ 128"

lemma xts_decrypt_area_value:
  assumes "tweaks_fit unit_size (length buffer) (unat base)"
  shows "xts_decrypt_area C mode key buffer unit_size base =
     (if mode \<noteq> ''xts-plain64'' then Err (Unsupported ''cipher mode'' mode)
      else case xts_cipher key of
        None \<Rightarrow> Err (Unsupported ''xts key size'' (show_nat (length key) @ '' bytes''))
      | Some (A, k1, k2) \<Rightarrow>
          Ok (units_ref (decrypt_sector C A k1 k2) buffer unit_size (unat base) (unit_step unit_size)))"
proof -
  have "unit_step unit_size < 2 ^ 128"
    using assms by (auto simp: tweaks_fit_def unit_step_def max_def intro: le_less_trans [OF div_le_dividend])
  then have st: "unat (of_nat (unit_step unit_size) :: u128) = unit_step unit_size"
    by (simp add: unat_of_nat)
  have "decrypt_units f buffer unit_size base (of_nat (unit_step unit_size)) =
      Ok (units_ref f buffer unit_size (unat base) (unit_step unit_size))" for f
    using decrypt_units_spec [of unit_size base buffer "of_nat (unit_step unit_size)" f] assms
    by (simp add: st tweaks_fit_def)
  then show ?thesis
    unfolding unit_step_def by (simp add: xts_decrypt_area_def xts_cipher_def Let_def)
qed

lemma xts_decrypt_area_no_panic:
  "tweaks_fit unit_size (length buffer) (unat base) \<Longrightarrow>
   \<not> is_Panic (xts_decrypt_area C mode key buffer unit_size base)"
  by (simp add: xts_decrypt_area_value split: option.split)

lemma xts_decrypt_area_Ok:
  assumes "crypto_ok C" and "tweaks_fit unit_size (length buffer) (unat base)"
    and "xts_decrypt_area C mode key buffer unit_size base = Ok out"
  shows "length out = length buffer \<and> mode = ''xts-plain64'' \<and> (length key = 32 \<or> length key = 64)"
  using assms(3) unfolding xts_decrypt_area_value [OF assms(2)]
  by (auto simp: length_units_ref crypto_okD [OF assms(1)] xts_cipher_def split: if_splits option.splits)

section \<open>Properties\<close>

text \<open>
  C17.  A PBKDF2 derivation always returns, never panics and changes nothing but the clock.  Its
  outcome is one of four: a key longer than the ceiling is refused before any work, an unknown hash
  is refused, a count whose projected time exceeds the budget is refused with the projection, and
  otherwise the key is PBKDF2 with exactly the count that was asked for (at least one): the count
  is never clamped.  Counts up to the calibration length are not measured at all.
\<close>

theorem derive_key_classified:
  "\<exists>s'. clock_ahead s s' \<and> derive_key_within C h pw slt iters key_len budget s = Some
     (if MAX_KEY_BYTES < key_len then Err (KeyLengthExceeded key_len MAX_KEY_BYTES)
      else (case hash_of_name h of
              None \<Rightarrow> Err (Unsupported ''hash'' h)
            | Some D \<Rightarrow>
                let projected = pbkdf2_projection (calibration_time s) (max iters 1) in
                if CALIBRATION_ITERS < max iters 1 \<and> budget < projected
                then Err (DerivationBudgetExceeded (max iters 1) (as_secs projected) (as_secs budget))
                else Ok (pbkdf2_hmac C D pw slt (max iters 1) key_len)), s')"
  unfolding derive_key_value Let_def
  by (cases "hash_of_name h"; cases "MAX_KEY_BYTES < key_len"; cases "CALIBRATION_ITERS < max iters 1")
    (auto intro: exI [of _ s] exI [of _ "s\<lparr>tick := tick s + 1\<rparr>"] exI [of _ "s\<lparr>tick := tick s + 2\<rparr>"])

text \<open>
  C30.  An Argon2 derivation that succeeds has kept every ceiling: the variant is one of the two, the
  memory is at most 4 GiB, the key has the requested length of at most 1024 bytes, it comes from a
  run with exactly the requested cost, and where the cost was more than one pass its projected time
  was within the budget.
\<close>

theorem argon2_key_within_ceilings:
  assumes "crypto_ok C" and "derive_key_argon2_within C p pw key_len budget s = Some (Ok k, s')"
  shows "unat (memory p) \<le> 4194304 \<and> length k = key_len \<and> key_len \<le> 1024 \<and>
     (\<exists>A. argon2_of_name (kind p) = Some A \<and>
        argon2_hash C A (memory p) (time p) (cpus p) pw (argon_salt p) key_len = Inr k) \<and>
     (1 < time p \<longrightarrow> argon2_projection (calibration_time s) (time p) \<le> budget)"
proof -
  have "unat (memory p) \<le> unat MAX_ARGON2_MEMORY_KIB"
    using derive_argon2_Ok(2) [OF assms(2)] by (simp add: word_le_nat_alt)
  then have "unat (memory p) \<le> 4194304" by (simp add: MAX_ARGON2_MEMORY_KIB_def)
  moreover have "key_len \<le> 1024" using derive_argon2_Ok(1) [OF assms(2)] by (simp add: MAX_KEY_BYTES_def)
  moreover obtain A where A: "argon2_of_name (kind p) = Some A"
    "argon2_run C A p pw key_len (time p) (replicate key_len 0) = Ok k"
    using derive_argon2_Ok(3) [OF assms(2)] by blast
  moreover have "argon2_hash C A (memory p) (time p) (cpus p) pw (argon_salt p) key_len = Inr k"
    using A(2) by (auto simp: argon2_run_def split: option.splits sum.splits)
  ultimately show ?thesis
    using derive_argon2_Ok_length [OF assms] derive_argon2_Ok(4) [OF assms(2)] by blast
qed

definition sample_argon2 :: Argon2Params where
  "sample_argon2 = \<lparr>kind = ''argon2id'', time = 4, memory = 32, cpus = 1, argon_salt = [1, 2]\<rparr>"

lemma sample_argon2_run:
  "derive_key_argon2_within sample_crypto sample_argon2 [9] 4 5 \<lparr>reading = (\<lambda>n. 7), tick = 0\<rparr> =
     Some (Ok [9, 1, 2, 0], \<lparr>reading = (\<lambda>n. 7), tick = 2\<rparr>)"
  by (simp add: derive_argon2_value sample_argon2_def sample_crypto_def argon2_of_name_def argon2_run_def
      MAX_KEY_BYTES_def MAX_ARGON2_MEMORY_KIB_def calibration_time_def argon2_projection_def sat_mul_u128_def
      nanos_clamped_def fit_def)

theorem argon2_key_within_ceilings_witness:
  "derive_key_argon2_within sample_crypto sample_argon2 [9] 4 5 \<lparr>reading = (\<lambda>n. 7), tick = 0\<rparr> =
     Some (Ok [9, 1, 2, 0], \<lparr>reading = (\<lambda>n. 7), tick = 2\<rparr>) \<and>
   unat (memory sample_argon2) \<le> 4194304 \<and>
   (\<exists>A. argon2_of_name (kind sample_argon2) = Some A \<and>
      argon2_hash sample_crypto A (memory sample_argon2) (time sample_argon2) (cpus sample_argon2) [9] (argon_salt sample_argon2) 4 =
        Inr [9, 1, 2, 0]) \<and>
   argon2_projection (calibration_time \<lparr>reading = (\<lambda>n. 7), tick = 0\<rparr>) (time sample_argon2) \<le> 5"
proof -
  have "1 < time sample_argon2" by (simp add: sample_argon2_def)
  then show ?thesis
    using argon2_key_within_ceilings [OF sample_crypto_ok(1) sample_argon2_run] sample_argon2_run by blast
qed

text \<open>
  C22.  The loop of the sector cipher treats the data units independently: unit \<open>u\<close> of the area is the
  decryption of its bytes under the 128-bit little-endian tweak \<open>base + u * step\<close>, with one step per
  512 bytes of unit size, and AES-128 or AES-256 by the length of the key.  Another mode or key
  length is refused with its own error.
\<close>

theorem xts_area_by_units:
  assumes "tweaks_fit unit_size (length buffer) (unat base)"
  shows "xts_decrypt_area C mode key buffer unit_size base =
     (if mode \<noteq> ''xts-plain64'' then Err (Unsupported ''cipher mode'' mode)
      else if length key = 32 then
        Ok (units_ref (decrypt_sector C Aes128 (take 16 key) (drop 16 key)) buffer unit_size (unat base) (unit_step unit_size))
      else if length key = 64 then
        Ok (units_ref (decrypt_sector C Aes256 (take 32 key) (drop 32 key)) buffer unit_size (unat base) (unit_step unit_size))
      else Err (Unsupported ''xts key size'' (show_nat (length key) @ '' bytes'')))"
  using assms by (simp add: xts_decrypt_area_value xts_cipher_def)

theorem xts_area_by_units_witness:
  "xts_decrypt_area sample_crypto ''xts-plain64'' (replicate 64 1) (replicate 32 0) 16 3 =
     Ok (units_ref (decrypt_sector sample_crypto Aes256 (replicate 32 1) (replicate 32 1)) (replicate 32 0) 16 3 1)"
  using xts_area_by_units [of 16 "replicate 32 0" 3 sample_crypto "''xts-plain64''" "replicate 64 1"]
  by (simp add: tweaks_fit_def unit_step_def)

end
