(* ===== verification/Bytes.thy ===== *)
theory Bytes
  imports Luks_Error
begin

text \<open>
  \<^verbatim>\<open>core/src/bytes.rs\<close>: the bounds-checked big-endian readers, and the interface that the
  header parser relies on: a field reader returns what an encoder wrote at its offset, looks at no
  other byte, and yields a fixed default when the field does not fit into the buffer.
\<close>

section \<open>The readers\<close>

definition be_u16 :: "bytes \<Rightarrow> usize \<Rightarrow> u16 res" where
  "be_u16 data off =
     bindR (usize_add off 2) (\<lambda>hi.
     Ok (from_be_bytes (case slice_get data off hi of Some s \<Rightarrow> s | None \<Rightarrow> replicate 2 0)))"

definition be_u32 :: "bytes \<Rightarrow> usize \<Rightarrow> u32 res" where
  "be_u32 data off =
     bindR (usize_add off 4) (\<lambda>hi.
     Ok (from_be_bytes (case slice_get data off hi of Some s \<Rightarrow> s | None \<Rightarrow> replicate 4 0)))"

definition be_u64 :: "bytes \<Rightarrow> usize \<Rightarrow> u64 res" where
  "be_u64 data off =
     bindR (usize_add off 8) (\<lambda>hi.
     Ok (from_be_bytes (case slice_get data off hi of Some s \<Rightarrow> s | None \<Rightarrow> replicate 8 0)))"

text \<open>The const parameter \<open>N\<close> is the first argument.\<close>

definition bytes_n :: "nat \<Rightarrow> bytes \<Rightarrow> usize \<Rightarrow> bytes res" where
  "bytes_n n data off =
     bindR (usize_add off n) (\<lambda>hi.
     Ok (case slice_get data off hi of Some s \<Rightarrow> s | None \<Rightarrow> replicate n 0))"

definition cstr :: "bytes \<Rightarrow> usize \<Rightarrow> usize \<Rightarrow> string res" where
  "cstr data off len =
     bindR (usize_add off len) (\<lambda>hi.
     let field = (case slice_get data off hi of Some s \<Rightarrow> s | None \<Rightarrow> []);
         end_pos = (case position_of (\<lambda>b. b = 0) field of Some n \<Rightarrow> n | None \<Rightarrow> length field)
     in bindR (slice_index field 0 end_pos) (\<lambda>s. Ok (from_utf8_lossy s)))"

section \<open>Values\<close>

text \<open>The bytes a reader sees: the window when it fits, and nothing otherwise.\<close>

definition window :: "bytes \<Rightarrow> nat \<Rightarrow> nat \<Rightarrow> bytes option" where
  "window data off n = slice_get data off (off + n)"

lemma window_append [simp]:
  "off = length pre \<Longrightarrow> n = length mid \<Longrightarrow> window (pre @ mid @ post) off n = Some mid"
  by (simp add: window_def)

lemma window_None: "length data < off + n \<Longrightarrow> window data off n = None"
  by (simp add: window_def)

lemma cut_at_nul:
  "bindR (slice_index f 0 (case position_of (\<lambda>b. b = 0) f of Some n \<Rightarrow> n | None \<Rightarrow> length f)) g
     = g (takeWhile (\<lambda>b. b \<noteq> 0) f)"
  by (simp add: position_of_takeWhile slice_index_Ok length_takeWhile_le takeWhile_eq_take [symmetric])

lemma cstr_window:
  "off + len \<le> usize_MAX \<Longrightarrow>
   cstr data off len = Ok (from_utf8_lossy (takeWhile (\<lambda>b. b \<noteq> 0)
     (case window data off len of Some s \<Rightarrow> s | None \<Rightarrow> [])))"
  by (simp add: cstr_def usize_add_Ok cut_at_nul window_def Let_def)

lemmas reader_window =
  be_u16_def be_u32_def be_u64_def bytes_n_def window_def usize_add_Ok

lemma length_bytes_n [len_simps]: "bytes_n n data off = Ok s \<Longrightarrow> length s = n"
  by (auto simp: bytes_n_def slice_get_def usize_add_def split: option.splits if_splits)

lemma bytes_n_value:
  "off + n \<le> usize_MAX \<Longrightarrow> off + n \<le> length data \<Longrightarrow> bytes_n n data off = Ok (take n (drop off data))"
  by (simp add: bytes_n_def usize_add_Ok)

lemma be_u16_value:
  "off + 2 \<le> usize_MAX \<Longrightarrow> off + 2 \<le> length data \<Longrightarrow>
   be_u16 data off = Ok (from_be_bytes (take 2 (drop off data)))"
  by (simp add: be_u16_def usize_add_Ok)

lemma be_u32_value:
  "off + 4 \<le> usize_MAX \<Longrightarrow> off + 4 \<le> length data \<Longrightarrow>
   be_u32 data off = Ok (from_be_bytes (take 4 (drop off data)))"
  by (simp add: be_u32_def usize_add_Ok)

lemma be_u64_value:
  "off + 8 \<le> usize_MAX \<Longrightarrow> off + 8 \<le> length data \<Longrightarrow>
   be_u64 data off = Ok (from_be_bytes (take 8 (drop off data)))"
  by (simp add: be_u64_def usize_add_Ok)

lemma cstr_value:
  "off + n \<le> usize_MAX \<Longrightarrow> off + n \<le> length data \<Longrightarrow>
   cstr data off n = Ok (from_utf8_lossy (takeWhile (\<lambda>b. b \<noteq> 0) (take n (drop off data))))"
  by (simp add: cstr_window window_def)

lemmas reader_values = bytes_n_value be_u16_value be_u32_value be_u64_value cstr_value

section \<open>The field interface\<close>

text \<open>
  A field of \<open>width\<close> bytes with an encoder for the values of \<open>valid\<close> and a reader.
\<close>

locale field_reader =
  fixes width :: nat
    and encode :: "'a \<Rightarrow> bytes"
    and read_field :: "bytes \<Rightarrow> usize \<Rightarrow> 'a res"
    and valid :: "'a \<Rightarrow> bool"
    and default :: 'a
  assumes encode_length: "valid x \<Longrightarrow> length (encode x) = width"
    and read_cong: "off + width \<le> usize_MAX \<Longrightarrow> off' + width \<le> usize_MAX \<Longrightarrow>
      window data off width = window data' off' width \<Longrightarrow> read_field data off = read_field data' off'"
    and read_encode: "width \<le> usize_MAX \<Longrightarrow> valid x \<Longrightarrow> read_field (encode x) 0 = Ok x"
    and read_default: "off + width \<le> usize_MAX \<Longrightarrow> length data < off + width \<Longrightarrow>
      read_field data off = Ok default"
    and read_total: "off + width \<le> usize_MAX \<Longrightarrow> \<exists>x. read_field data off = Ok x"
begin

text \<open>A value written between other bytes is read back.\<close>

lemma read_at_encoded:
  assumes "valid x" and "off = length pre" and "off + width \<le> usize_MAX"
  shows "read_field (pre @ encode x @ post) off = Ok x"
proof -
  have "window (pre @ encode x @ post) off width = window (encode x) 0 width"
    using assms by (simp add: encode_length window_def)
  then have "read_field (pre @ encode x @ post) off = read_field (encode x) 0"
    using assms by (intro read_cong) simp_all
  with assms show ?thesis by (simp add: read_encode)
qed

text \<open>A write into another part of the buffer does not change what is read.\<close>

lemma read_disjoint:
  assumes "off + width \<le> lo \<or> hi \<le> off" and "off + width \<le> usize_MAX"
    and "lo \<le> hi" "hi \<le> length data" "length src = hi - lo"
  shows "read_field (take lo data @ src @ drop hi data) off = read_field data off"
proof (rule read_cong [OF assms(2,2)])
  let ?d = "take lo data @ src @ drop hi data"
  have len: "length ?d = length data" using assms by simp
  have nth: "?d ! i = data ! i" if "i < length data" "i < lo \<or> hi \<le> i" for i
    using that assms by (auto simp: nth_append)
  show "window ?d off width = window data off width"
    unfolding window_def using assms(1,4) by (intro slice_get_cong [OF len] nth) auto
qed

text \<open>A write at the field's own place is read back.\<close>

lemma read_written:
  assumes "valid x" and "off + width \<le> length data" and "off + width \<le> usize_MAX"
  shows "read_field (take off data @ encode x @ drop (off + width) data) off = Ok x"
  using assms by (intro read_at_encoded) simp_all

lemma read_skip:
  assumes "length pre \<le> off" and "off + width \<le> usize_MAX"
  shows "read_field (pre @ rest) off = read_field rest (off - length pre)"
  using assms by (intro read_cong) (auto simp: window_def slice_get_def)

lemma read_front:
  "width \<le> usize_MAX \<Longrightarrow> valid x \<Longrightarrow> read_field (encode x @ post) 0 = Ok x"
  using read_at_encoded [of x 0 "[]" post] by simp

lemma never_panics: "off + width \<le> usize_MAX \<Longrightarrow> \<not> is_Panic (read_field data off)"
  using read_total [of off data] by auto

end

section \<open>The readers meet the interface\<close>

text \<open>
  Each reader is an instance, so each lemma of the interface is a fact about it, under the
  instance's qualifier.
\<close>

interpretation be16: field_reader 2 "to_be_bytes 2" be_u16 "\<lambda>_. True" 0
  by unfold_locales (simp_all add: reader_window)

interpretation be32: field_reader 4 "to_be_bytes 4" be_u32 "\<lambda>_. True" 0
  by unfold_locales (simp_all add: reader_window)

interpretation be64: field_reader 8 "to_be_bytes 8" be_u64 "\<lambda>_. True" 0
  by unfold_locales (simp_all add: reader_window)

interpretation raw: field_reader n "\<lambda>bs. bs" "bytes_n n" "\<lambda>bs. length bs = n" "replicate n 0" for n
  by unfold_locales (simp_all add: reader_window)

text \<open>A text field: the text, padded with NUL bytes to the width of the field.\<close>

definition pad_field :: "nat \<Rightarrow> string \<Rightarrow> bytes" where
  "pad_field n s = bytes_of_string s @ replicate (n - length s) 0"

definition text_fits :: "nat \<Rightarrow> string \<Rightarrow> bool" where
  "text_fits n s \<longleftrightarrow> is_ascii s \<and> length s \<le> n \<and> CHR 0x00 \<notin> set s"

lemma zero_byte_of_char: "of_nat (of_char c) = (0 :: 8 word) \<longleftrightarrow> c = CHR 0x00"
proof
  assume "of_nat (of_char c) = (0 :: 8 word)"
  then have "(of_char c :: nat) = 0" using unat_byte_of_char [of c] by simp
  then have "c = char_of (0 :: nat)" by (metis char_of_char)
  then show "c = CHR 0x00" by (simp add: char_of_def)
qed simp

lemma takeWhile_pad:
  assumes "CHR 0x00 \<notin> set s"
  shows "takeWhile (\<lambda>b. b \<noteq> 0) (bytes_of_string s @ replicate k 0) = bytes_of_string s"
proof -
  have "b \<noteq> 0" if "b \<in> set (bytes_of_string s)" for b
    using that assms by (auto simp: bytes_of_string_def zero_byte_of_char)
  then show ?thesis by (simp add: takeWhile_append2)
qed

interpretation str: field_reader n "pad_field n" "\<lambda>data off. cstr data off n" "text_fits n" "[]" for n
proof unfold_locales
  fix s assume s: "text_fits n s"
  then show len: "length (pad_field n s) = n" by (simp add: pad_field_def text_fits_def)
  then have "window (pad_field n s) 0 n = Some (pad_field n s)" by (simp add: window_def)
  moreover assume "n \<le> usize_MAX"
  ultimately show "cstr (pad_field n s) 0 n = Ok s"
    using s by (simp add: cstr_window pad_field_def takeWhile_pad from_utf8_lossy_ascii text_fits_def)
qed (auto simp: cstr_window window_None from_utf8_lossy_def string_of_bytes_def)

lemmas field_skip = be16.read_skip be32.read_skip be64.read_skip raw.read_skip str.read_skip
lemmas field_front = be16.read_front be32.read_front be64.read_front raw.read_front str.read_front

end
