(* ===== verification/Header1.thy ===== *)
theory Header1
  imports Bytes
begin

text \<open>
  \<^verbatim>\<open>core/src/header.rs\<close>: the LUKS1 partition header.  \<open>parse\<close> is the source's parser;
  \<open>encode_luks1\<close> writes the layout table of the file's head comment, and the parser reads back
  every header the encoder writes.
\<close>

section \<open>Constants\<close>

definition LUKS_MAGIC :: bytes where
  "LUKS_MAGIC = [0x4C, 0x55, 0x4B, 0x53, 0xBA, 0xBE]"

definition LUKS1_PHDR_LEN :: usize where
  "LUKS1_PHDR_LEN = 592"

definition LUKS_NUM_KEYS :: usize where
  "LUKS_NUM_KEYS = 8"

definition KEYSLOT_LEN :: usize where
  "KEYSLOT_LEN = 48"

definition MK_DIGEST_LEN :: usize where
  "MK_DIGEST_LEN = 20"

definition SALT_LEN :: usize where
  "SALT_LEN = 32"

definition KEY_ENABLED :: u32 where
  "KEY_ENABLED = 0x00AC71F3"

definition KEY_DISABLED :: u32 where
  "KEY_DISABLED = 0x0000DEAD"

definition SECTOR :: u64 where
  "SECTOR = 512"

lemmas header1_consts =
  LUKS1_PHDR_LEN_def LUKS_NUM_KEYS_def KEYSLOT_LEN_def MK_DIGEST_LEN_def SALT_LEN_def SECTOR_def

lemma length_LUKS_MAGIC [simp, len_simps]: "length LUKS_MAGIC = 6"
  by (simp add: LUKS_MAGIC_def)

section \<open>Data\<close>

record Keyslot =
  active :: u32
  iterations :: u32
  salt :: bytes
  key_material_offset :: u32
  stripes :: u32

record Luks1Header =
  version :: u16
  cipher_name :: string
  cipher_mode :: string
  hash_spec :: string
  payload_offset :: u32
  key_bytes :: u32
  mk_digest :: bytes
  mk_digest_salt :: bytes
  mk_digest_iter :: u32
  uuid :: string
  keyslots :: "Keyslot list"

definition is_active :: "Keyslot \<Rightarrow> bool" where
  "is_active k \<longleftrightarrow> active k = KEY_ENABLED"

definition is_disabled :: "Keyslot \<Rightarrow> bool" where
  "is_disabled k \<longleftrightarrow> active k = KEY_DISABLED"

text \<open>The lengths that the array types of the source fix.\<close>

definition slot_shape :: "Keyslot \<Rightarrow> bool" where
  "slot_shape k \<longleftrightarrow> length (salt k) = SALT_LEN"

definition header1_shape :: "Luks1Header \<Rightarrow> bool" where
  "header1_shape h \<longleftrightarrow>
     length (mk_digest h) = MK_DIGEST_LEN \<and> length (mk_digest_salt h) = SALT_LEN \<and>
     length (keyslots h) = LUKS_NUM_KEYS \<and> list_all slot_shape (keyslots h)"

section \<open>The parser\<close>

text \<open>
  The closure of \<open>std::array::from_fn\<close>.  The index is below 8, so the offset is at most 544 and
  its computation does not overflow.
\<close>

definition parse_slot :: "bytes \<Rightarrow> usize \<Rightarrow> Keyslot res" where
  "parse_slot data i =
     (let base = 208 + i * KEYSLOT_LEN in
      bindR (be_u32 data base) (\<lambda>act.
      bindR (be_u32 data (base + 4)) (\<lambda>iters.
      bindR (bytes_n SALT_LEN data (base + 8)) (\<lambda>slt.
      bindR (be_u32 data (base + 40)) (\<lambda>off.
      bindR (be_u32 data (base + 44)) (\<lambda>strp.
      Ok \<lparr>active = act, iterations = iters, salt = slt, key_material_offset = off, stripes = strp\<rparr>))))))"

definition parse :: "bytes \<Rightarrow> Luks1Header res" where
  "parse data =
     bindR (bytes_n 6 data 0) (\<lambda>magic.
     if magic \<noteq> LUKS_MAGIC then Err (NotLuks magic)
     else if length data < LUKS1_PHDR_LEN
       then Err (MalformedHeader ''phdr'' LUKS1_PHDR_LEN (length data))
     else
     bindR (be_u16 data 6) (\<lambda>ver.
     if ver \<noteq> 1 then Err (UnsupportedVersion ver)
     else
     bindR (mapR (parse_slot data) [0..<LUKS_NUM_KEYS]) (\<lambda>slots.
     bindR (cstr data 8 32) (\<lambda>cname.
     bindR (cstr data 40 32) (\<lambda>cmode.
     bindR (cstr data 72 32) (\<lambda>hspec.
     bindR (be_u32 data 104) (\<lambda>poff.
     bindR (be_u32 data 108) (\<lambda>kbytes.
     bindR (bytes_n MK_DIGEST_LEN data 112) (\<lambda>digest.
     bindR (bytes_n SALT_LEN data 132) (\<lambda>dsalt.
     bindR (be_u32 data 164) (\<lambda>diter.
     bindR (cstr data 168 40) (\<lambda>uid.
     Ok \<lparr>version = ver, cipher_name = cname, cipher_mode = cmode, hash_spec = hspec,
         payload_offset = poff, key_bytes = kbytes, mk_digest = digest, mk_digest_salt = dsalt,
         mk_digest_iter = diter, uuid = uid, keyslots = slots\<rparr>))))))))))))"

definition active_keyslots :: "Luks1Header \<Rightarrow> Keyslot list" where
  "active_keyslots h = filter is_active (keyslots h)"

text \<open>\<open>u64::from(payload_offset) * SECTOR\<close>: the product is checked like every other.\<close>

definition payload_byte_offset :: "Luks1Header \<Rightarrow> u64 res" where
  "payload_byte_offset h = chk_mul (ucast (payload_offset h)) SECTOR"

lemma sector_product:
  "chk_mul (ucast (n :: u32)) SECTOR = (Ok (ucast n * 512) :: u64 res)"
  "unat (ucast n * 512 :: u64) = unat n * 512"
proof -
  have "unat (ucast n :: u64) = unat n"
    using unsigned_less [of n, where 'a = nat] by (simp add: unsigned_ucast_eq take_bit_nat_eq_self)
  moreover have "unat n < 2 ^ 32" using unsigned_less [of n, where 'a = nat] by simp
  ultimately show "chk_mul (ucast n) SECTOR = (Ok (ucast n * 512) :: u64 res)"
    "unat (ucast n * 512 :: u64) = unat n * 512"
    by (simp_all add: chk_mul_def SECTOR_def unat_mult_lem [THEN iffD1])
qed

section \<open>The layout\<close>

definition encode_slot :: "Keyslot \<Rightarrow> bytes" where
  "encode_slot k =
     to_be_bytes 4 (active k) @ to_be_bytes 4 (iterations k) @ salt k @
     to_be_bytes 4 (key_material_offset k) @ to_be_bytes 4 (stripes k)"

definition encode_luks1 :: "Luks1Header \<Rightarrow> bytes" where
  "encode_luks1 h =
     LUKS_MAGIC @ to_be_bytes 2 (version h) @
     pad_field 32 (cipher_name h) @ pad_field 32 (cipher_mode h) @ pad_field 32 (hash_spec h) @
     to_be_bytes 4 (payload_offset h) @ to_be_bytes 4 (key_bytes h) @
     mk_digest h @ mk_digest_salt h @ to_be_bytes 4 (mk_digest_iter h) @
     pad_field 40 (uuid h) @ concat (map encode_slot (keyslots h))"

definition header1_text_ok :: "Luks1Header \<Rightarrow> bool" where
  "header1_text_ok h \<longleftrightarrow> text_fits 32 (cipher_name h) \<and> text_fits 32 (cipher_mode h) \<and>
     text_fits 32 (hash_spec h) \<and> text_fits 40 (uuid h)"

lemma length_encode_slot [len_simps]: "slot_shape k \<Longrightarrow> length (encode_slot k) = 48"
  by (simp add: encode_slot_def slot_shape_def header1_consts)

lemma length_encode_slots [len_simps]:
  "list_all slot_shape ks \<Longrightarrow> length (concat (map encode_slot ks)) = 48 * length ks"
  by (induction ks) (simp_all add: length_encode_slot)

lemma parse_slot_total:
  assumes "i < 8"
  shows "\<exists>k. parse_slot data i = Ok k \<and> slot_shape k"
proof -
  have fits: "208 + i * 48 + 48 \<le> usize_MAX" using assms by simp
  then obtain a b c d s where
    "be_u32 data (208 + i * 48) = Ok a" "be_u32 data (208 + i * 48 + 4) = Ok b"
    "bytes_n 32 data (208 + i * 48 + 8) = Ok s" "be_u32 data (208 + i * 48 + 40) = Ok c"
    "be_u32 data (208 + i * 48 + 44) = Ok d"
    using be32.read_total [of "208 + i * 48" data] be32.read_total [of "208 + i * 48 + 4" data]
      raw.read_total [of "208 + i * 48 + 8" 32 data] be32.read_total [of "208 + i * 48 + 40" data]
      be32.read_total [of "208 + i * 48 + 44" data] by auto
  moreover from this(3) have "length s = 32"
    using fits by (auto simp: bytes_n_def usize_add_Ok slice_get_def split: option.splits if_splits)
  ultimately show ?thesis
    by (simp add: parse_slot_def slot_shape_def header1_consts)
qed

lemma parse_slot_encoded:
  assumes "length pre = 208 + i * 48" and "slot_shape k" and "i < 8"
  shows "parse_slot (pre @ encode_slot k @ post) i = Ok k"
  using assms
  by (simp add: parse_slot_def encode_slot_def slot_shape_def header1_consts field_skip field_front)

section \<open>What the parser returns\<close>

text \<open>The header that the 592 bytes of a buffer spell out.\<close>

definition slot_at :: "bytes \<Rightarrow> nat \<Rightarrow> Keyslot" where
  "slot_at data b =
     \<lparr>active = from_be_bytes (take 4 (drop b data)),
      iterations = from_be_bytes (take 4 (drop (b + 4) data)),
      salt = take 32 (drop (b + 8) data),
      key_material_offset = from_be_bytes (take 4 (drop (b + 40) data)),
      stripes = from_be_bytes (take 4 (drop (b + 44) data))\<rparr>"

definition text_at :: "bytes \<Rightarrow> nat \<Rightarrow> nat \<Rightarrow> string" where
  "text_at data off n = from_utf8_lossy (takeWhile (\<lambda>b. b \<noteq> 0) (take n (drop off data)))"

definition header_at :: "bytes \<Rightarrow> Luks1Header" where
  "header_at data =
     \<lparr>version = from_be_bytes (take 2 (drop 6 data)),
      cipher_name = text_at data 8 32, cipher_mode = text_at data 40 32, hash_spec = text_at data 72 32,
      payload_offset = from_be_bytes (take 4 (drop 104 data)),
      key_bytes = from_be_bytes (take 4 (drop 108 data)),
      mk_digest = take 20 (drop 112 data), mk_digest_salt = take 32 (drop 132 data),
      mk_digest_iter = from_be_bytes (take 4 (drop 164 data)),
      uuid = text_at data 168 40,
      keyslots = map (\<lambda>i. slot_at data (208 + 48 * i)) [0..<8]\<rparr>"

lemma parse_slot_value:
  assumes "i < 8" and "592 \<le> length data"
  shows "parse_slot data i = Ok (slot_at data (208 + 48 * i))"
proof -
  have "208 + i * 48 + 48 \<le> length data" and "208 + i * 48 + 48 \<le> usize_MAX"
    using assms by simp_all
  then show ?thesis
    by (simp add: parse_slot_def slot_at_def header1_consts reader_values algebra_simps)
qed

lemma parse_slots_value:
  "592 \<le> length data \<Longrightarrow>
   mapR (parse_slot data) [0..<8] = Ok (map (\<lambda>i. slot_at data (208 + 48 * i)) [0..<8])"
  by (rule mapR_Ok) (simp add: parse_slot_value)

lemma magic_short: "length data < 6 \<Longrightarrow> bytes_n 6 data 0 = Ok (replicate 6 0)"
  by (simp add: bytes_n_def usize_add_Ok)

lemma zeros_not_magic [simp]: "replicate 6 0 \<noteq> LUKS_MAGIC"
proof
  assume "replicate 6 0 = LUKS_MAGIC"
  then have "hd (replicate 6 0) = hd LUKS_MAGIC" by (rule arg_cong)
  then show False by (simp add: LUKS_MAGIC_def)
qed

lemma parse_value:
  "parse data =
     (if length data < 6 then Err (NotLuks (replicate 6 0))
      else if take 6 data \<noteq> LUKS_MAGIC then Err (NotLuks (take 6 data))
      else if length data < 592 then Err (MalformedHeader ''phdr'' 592 (length data))
      else if version (header_at data) \<noteq> 1 then Err (UnsupportedVersion (version (header_at data)))
      else Ok (header_at data))"
proof (cases "length data < 592")
  case True
  then show ?thesis
    by (cases "length data < 6")
      (simp_all add: parse_def magic_short bytes_n_value header1_consts)
next
  case False
  then show ?thesis
    by (simp add: parse_def reader_values parse_slots_value header_at_def text_at_def header1_consts)
qed

lemma header_at_shape: "592 \<le> length data \<Longrightarrow> header1_shape (header_at data)"
  by (simp add: header1_shape_def header_at_def slot_at_def slot_shape_def header1_consts list_all_iff)

lemma parse_Ok_shape: "parse data = Ok h \<Longrightarrow> header1_shape h \<and> version h = 1"
  by (auto simp: parse_value header_at_shape split: if_splits)

lemma parse_encode:
  assumes shape: "header1_shape h" and tok: "header1_text_ok h" and ver: "version h = 1"
  shows "parse (encode_luks1 h @ rest) = Ok h"
proof -
  let ?d = "encode_luks1 h @ rest"
  have lens: "length (mk_digest h) = 20" "length (mk_digest_salt h) = 32" "length (keyslots h) = 8"
    and slots: "list_all slot_shape (keyslots h)"
    using shape by (simp_all add: header1_shape_def header1_consts)
  have txts: "text_fits 32 (cipher_name h)" "text_fits 32 (cipher_mode h)"
    "text_fits 32 (hash_spec h)" "text_fits 40 (uuid h)"
    using tok by (simp_all add: header1_text_ok_def)
  note plen = str.encode_length [OF txts(1)] str.encode_length [OF txts(2)]
    str.encode_length [OF txts(3)] str.encode_length [OF txts(4)]
  have slot: "parse_slot ?d i = Ok (keyslots h ! i)" if i: "i < 8" for i
  proof -
    let ?ks = "keyslots h"
    have ks: "?ks = take i ?ks @ ?ks ! i # drop (Suc i) ?ks"
      using i lens by (simp add: id_take_nth_drop)
    have "list_all slot_shape (take i ?ks)" and k: "slot_shape (?ks ! i)"
      using slots i lens by (auto simp: list_all_iff dest: in_set_takeD)
    then have "length (concat (map encode_slot (take i ?ks))) = 48 * i"
      using i lens by (simp add: length_encode_slots)
    moreover obtain pre where pre: "?d = pre @ concat (map encode_slot ?ks) @ rest" "length pre = 208"
      using lens plen by (auto simp: encode_luks1_def
        intro!: that [of "LUKS_MAGIC @ to_be_bytes 2 (version h) @
          pad_field 32 (cipher_name h) @ pad_field 32 (cipher_mode h) @ pad_field 32 (hash_spec h) @
          to_be_bytes 4 (payload_offset h) @ to_be_bytes 4 (key_bytes h) @
          mk_digest h @ mk_digest_salt h @ to_be_bytes 4 (mk_digest_iter h) @ pad_field 40 (uuid h)"])
    moreover have "concat (map encode_slot ?ks) = concat (map encode_slot (take i ?ks)) @
        encode_slot (?ks ! i) @ concat (map encode_slot (drop (Suc i) ?ks))"
      by (subst ks) simp
    ultimately show ?thesis
      using k i parse_slot_encoded [of "pre @ concat (map encode_slot (take i ?ks))" i "?ks ! i"
          "concat (map encode_slot (drop (Suc i) ?ks)) @ rest"]
      by (simp add: algebra_simps)
  qed
  have "mapR (parse_slot ?d) [0..<8] = Ok (map ((!) (keyslots h)) [0..<8])"
    by (rule mapR_Ok) (simp add: slot)
  also have "map ((!) (keyslots h)) [0..<8] = keyslots h"
    using lens(3) map_nth [of "keyslots h"] by simp
  finally have sl: "mapR (parse_slot ?d) [0..<8] = Ok (keyslots h)" .
  have "592 \<le> length ?d"
    using lens plen slots by (simp add: encode_luks1_def length_encode_slots)
  then show ?thesis
    using lens plen txts ver sl
    by (simp add: parse_def encode_luks1_def header1_consts field_skip field_front)
qed

section \<open>Writing back what was read\<close>

text \<open>A text field without bytes beyond ASCII and with nothing but zeros behind the first zero.\<close>

definition clean_field :: "bytes \<Rightarrow> bool" where
  "clean_field f \<longleftrightarrow> list_all (\<lambda>b. b < 0x80) f \<and> list_all (\<lambda>b. b = 0) (dropWhile (\<lambda>b. b \<noteq> 0) f)"

lemma pad_clean_field:
  assumes "clean_field f"
  shows "pad_field (length f) (from_utf8_lossy (takeWhile (\<lambda>b. b \<noteq> 0) f)) = f"
proof -
  let ?t = "takeWhile (\<lambda>b. b \<noteq> 0) f" and ?z = "dropWhile (\<lambda>b. b \<noteq> 0) f"
  have "lossy ?t = ?t"
  proof (rule lossy_ascii)
    fix b assume "b \<in> set ?t"
    then have "b \<in> set f" by (blast dest: set_takeWhileD)
    with assms show "b < 0x80" by (simp add: clean_field_def list_all_iff)
  qed
  then have "bytes_of_string (from_utf8_lossy ?t) = ?t" "length (from_utf8_lossy ?t) = length ?t"
    by (simp_all add: from_utf8_lossy_def)
  moreover have "replicate (length ?z) 0 = ?z"
  proof (rule replicate_eqI [symmetric])
    show "b = 0" if "b \<in> set ?z" for b using that assms unfolding clean_field_def list_all_iff by blast
  qed (rule refl)
  moreover have "length f = length ?t + length ?z" by (simp flip: length_append)
  ultimately show ?thesis by (simp add: pad_field_def)
qed

lemma pad_text_at:
  "clean_field (take n (drop off data)) \<Longrightarrow> off + n \<le> length data \<Longrightarrow> pad_field n (text_at data off n) = take n (drop off data)"
  using pad_clean_field [of "take n (drop off data)"] by (simp add: text_at_def)

lemma word_at:
  "off + 4 \<le> length data \<Longrightarrow> to_be_bytes 4 (from_be_bytes (take 4 (drop off data)) :: u32) = take 4 (drop off data)"
  "off + 2 \<le> length data \<Longrightarrow> to_be_bytes 2 (from_be_bytes (take 2 (drop off data)) :: u16) = take 2 (drop off data)"
  using to_be_bytes_from_be_bytes [of "take 4 (drop off data)", where 'w = 32]
    to_be_bytes_from_be_bytes [of "take 2 (drop off data)", where 'w = 16] by simp_all

lemma window_join:
  "take n (drop a xs) @ take m (drop (a + n) xs) = take (n + m) (drop a xs)"
  by (simp add: take_add drop_drop add.commute [of a n])

lemma encode_slot_at: "b + 48 \<le> length data \<Longrightarrow> encode_slot (slot_at data b) = take 48 (drop b data)"
proof -
  assume "b + 48 \<le> length data"
  then have "encode_slot (slot_at data b) = take 4 (drop b data) @ take 4 (drop (b + 4) data) @ take 32 (drop (b + 4 + 4) data) @
      take 4 (drop (b + 4 + 4 + 32) data) @ take 4 (drop (b + 4 + 4 + 32 + 4) data)"
    by (simp add: encode_slot_def slot_at_def word_at add.assoc)
  then show ?thesis unfolding window_join by simp
qed

lemma encode_slots_at:
  "b + 48 * k \<le> length data \<Longrightarrow> concat (map (\<lambda>i. encode_slot (slot_at data (b + 48 * i))) [0..<k]) = take (48 * k) (drop b data)"
proof (induction k)
  case (Suc k)
  then have "encode_slot (slot_at data (b + 48 * k)) = take 48 (drop (b + 48 * k) data)" by (intro encode_slot_at) simp
  with Suc show ?case using window_join [of "48 * k" b data 48] by (simp add: add.commute)
qed simp

section \<open>Properties\<close>

text \<open>
  C23.  Parsing a LUKS1 header is a total classification of the input: the parser never panics, the
  error names the first check that fails (magic, length, version, in that order), and otherwise the
  result is the header that the first 592 bytes spell out field by field.
\<close>

theorem parse_classified:
  "parse data =
     (if take 6 data \<noteq> LUKS_MAGIC
        then Err (NotLuks (if length data < 6 then replicate 6 0 else take 6 data))
      else if length data < 592 then Err (MalformedHeader ''phdr'' 592 (length data))
      else if version (header_at data) \<noteq> 1 then Err (UnsupportedVersion (version (header_at data)))
      else Ok (header_at data))"
proof (cases "length data < 6")
  case True
  then have "take 6 data \<noteq> LUKS_MAGIC" using length_LUKS_MAGIC by auto
  with True show ?thesis by (simp add: parse_value)
qed (simp add: parse_value)

text \<open>
  C9.  The parser inverts the layout of the format: a header whose fields have the sizes and texts
  that the format can hold is read back exactly from its 592-byte encoding, whatever follows it.
\<close>

theorem parse_inverts_layout:
  assumes "header1_shape h" and "header1_text_ok h" and "version h = 1"
  shows "length (encode_luks1 h) = LUKS1_PHDR_LEN \<and> parse (encode_luks1 h @ rest) = Ok h"
proof -
  have "length (keyslots h) = 8" "list_all slot_shape (keyslots h)"
    "length (mk_digest h) = 20" "length (mk_digest_salt h) = 32"
    using assms(1) by (simp_all add: header1_shape_def header1_consts)
  with assms(2) have "length (encode_luks1 h) = 592"
    by (simp add: encode_luks1_def header1_text_ok_def str.encode_length length_encode_slots)
  with parse_encode [OF assms] show ?thesis by (simp add: LUKS1_PHDR_LEN_def)
qed

definition sample_slot :: Keyslot where
  "sample_slot = \<lparr>active = KEY_ENABLED, iterations = 5, salt = replicate 32 0x11,
     key_material_offset = 2, stripes = 8\<rparr>"

definition sample_header :: Luks1Header where
  "sample_header = \<lparr>version = 1, cipher_name = ''aes'', cipher_mode = ''xts-plain64'', hash_spec = ''sha256'',
     payload_offset = 4, key_bytes = 64, mk_digest = replicate 20 7, mk_digest_salt = replicate 32 0x22,
     mk_digest_iter = 7, uuid = ''b22690e1'', keyslots = replicate 8 sample_slot\<rparr>"

lemma sample_header_ok: "header1_shape sample_header" "header1_text_ok sample_header" "version sample_header = 1"
proof -
  show "header1_shape sample_header"
    by (simp add: header1_shape_def sample_header_def header1_consts list_all_iff slot_shape_def sample_slot_def)
  show "header1_text_ok sample_header"
    by (simp add: header1_text_ok_def sample_header_def text_fits_def is_ascii_def)
  show "version sample_header = 1" by (simp add: sample_header_def)
qed

theorem parse_inverts_layout_witness:
  "header1_shape sample_header \<and> header1_text_ok sample_header \<and> version sample_header = 1 \<and>
   length (encode_luks1 sample_header) = LUKS1_PHDR_LEN \<and>
   parse (encode_luks1 sample_header @ [1, 2, 3]) = Ok sample_header"
  using parse_inverts_layout [OF sample_header_ok, of "[1, 2, 3]"] sample_header_ok by simp

text \<open>
  C25.  Parsing loses nothing: whenever the parser accepts a buffer whose four text fields are ASCII
  and padded with zeros, writing the parsed header in the layout of the format gives back the first
  592 bytes of the buffer, so that two such buffers with the same header have the same first 592 bytes.
\<close>

theorem parsed_header_reencodes:
  assumes "parse data = Ok h"
    and "clean_field (take 32 (drop 8 data))" and "clean_field (take 32 (drop 40 data))"
    and "clean_field (take 32 (drop 72 data))" and "clean_field (take 40 (drop 168 data))"
  shows "encode_luks1 h = take LUKS1_PHDR_LEN data"
proof -
  have len: "592 \<le> length data" and magic: "take 6 data = LUKS_MAGIC" and h: "h = header_at data"
    using assms(1) by (auto simp: parse_value split: if_splits)
  have slots: "concat (map encode_slot (map (\<lambda>i. slot_at data (208 + 48 * i)) [0..<8])) = take 384 (drop 208 data)"
    using encode_slots_at [of 208 8 data] len by (simp add: comp_def)
  have "encode_luks1 h = take 6 (drop 0 data) @ take 2 (drop (0 + 6) data) @ take 32 (drop (0 + 6 + 2) data) @
      take 32 (drop (0 + 6 + 2 + 32) data) @ take 32 (drop (0 + 6 + 2 + 32 + 32) data) @
      take 4 (drop (0 + 6 + 2 + 32 + 32 + 32) data) @ take 4 (drop (0 + 6 + 2 + 32 + 32 + 32 + 4) data) @
      take 20 (drop (0 + 6 + 2 + 32 + 32 + 32 + 4 + 4) data) @ take 32 (drop (0 + 6 + 2 + 32 + 32 + 32 + 4 + 4 + 20) data) @
      take 4 (drop (0 + 6 + 2 + 32 + 32 + 32 + 4 + 4 + 20 + 32) data) @
      take 40 (drop (0 + 6 + 2 + 32 + 32 + 32 + 4 + 4 + 20 + 32 + 4) data) @
      take 384 (drop (0 + 6 + 2 + 32 + 32 + 32 + 4 + 4 + 20 + 32 + 4 + 40) data)"
    using len assms(2-5) unfolding h encode_luks1_def
    by (simp add: header_at_def slots pad_text_at word_at magic del: map_map)
  then show ?thesis unfolding window_join by (simp add: LUKS1_PHDR_LEN_def)
qed

theorem parsed_header_reencodes_witness:
  "parse (encode_luks1 sample_header @ [1, 2, 3]) = Ok sample_header \<and>
   encode_luks1 sample_header = take LUKS1_PHDR_LEN (encode_luks1 sample_header @ [1, 2, 3])"
proof -
  have run: "parse (encode_luks1 sample_header @ [1, 2, 3]) = Ok sample_header"
    by (rule parse_encode [OF sample_header_ok])
  have "encode_luks1 sample_header = take LUKS1_PHDR_LEN (encode_luks1 sample_header @ [1, 2, 3])"
    by (rule parsed_header_reencodes [OF run])
      (simp_all add: encode_luks1_def sample_header_def pad_field_def header1_consts clean_field_def bytes_of_string_def
        list_all_iff)
  with run show ?thesis by simp
qed

end
