(* ===== verification/Header2.thy ===== *)
theory Header2
  imports Header1 "HOL-Library.List_Lexorder" "HOL-Library.Char_ord"
begin

text \<open>
  \<^verbatim>\<open>core/src/header2.rs\<close>: the LUKS2 binary header and its JSON area.

  The crates \<^verbatim>\<open>serde_json\<close> and \<^verbatim>\<open>base64\<close> are not part of the repository.  \<open>Value\<close> is the public
  enum of the former, with an unspecified type of numbers; the functions of both crates that the
  source calls are the record \<open>json_api\<close>, and \<open>json_ok\<close> states their documented behaviour.  The
  repository builds \<^verbatim>\<open>serde_json\<close> without its feature \<^verbatim>\<open>preserve_order\<close>, so that the entries of an object
  are visited in ascending order of their keys, each key once: \<open>value_ok\<close>.
\<close>

section \<open>JSON\<close>

datatype 'n Value =
    Null
  | Bool bool
  | Number 'n
  | String string
  | Array "'n Value list"
  | Object "(string \<times> 'n Value) list"

text \<open>
  \<open>value_get v k\<close> is \<open>v.get(k)\<close>; \<open>as_object\<close> lists the entries of the map in its iteration order;
  \<open>number_as_u64\<close> is \<open>Number::as_u64\<close>; \<open>b64_decode\<close> is the decoder of the standard alphabet, without
  the text of its error.
\<close>

record 'n json_api =
  from_slice :: "bytes \<Rightarrow> 'n Value option"
  value_get :: "'n Value \<Rightarrow> string \<Rightarrow> 'n Value option"
  as_str :: "'n Value \<Rightarrow> string option"
  as_object :: "'n Value \<Rightarrow> (string \<times> 'n Value) list option"
  as_array :: "'n Value \<Rightarrow> 'n Value list option"
  number_as_u64 :: "'n \<Rightarrow> u64 option"
  b64_decode :: "string \<Rightarrow> bytes option"

definition json_ok :: "'n json_api \<Rightarrow> bool" where
  "json_ok J \<longleftrightarrow>
     (\<forall>m k. value_get J (Object m) k = map_of m k) \<and>
     (\<forall>s. as_str J (String s) = Some s) \<and>
     (\<forall>m. as_object J (Object m) = Some m) \<and>
     (\<forall>a. as_array J (Array a) = Some a)"

fun value_ok :: "'n Value \<Rightarrow> bool" where
  "value_ok (Array vs) \<longleftrightarrow> list_all value_ok vs"
| "value_ok (Object m) \<longleftrightarrow> sorted_wrt (<) (map fst m) \<and> list_all (\<lambda>e. value_ok (snd e)) m"
| "value_ok v \<longleftrightarrow> True"

text \<open>
  The rest of what the crate documents: only an object has entries, and every document it returns
  is ordered.
\<close>

definition json_documented :: "'n json_api \<Rightarrow> bool" where
  "json_documented J \<longleftrightarrow> json_ok J \<and>
     (\<forall>v m. as_object J v = Some m \<longrightarrow> v = Object m) \<and>
     (\<forall>v k u. value_get J v k = Some u \<longrightarrow> (\<exists>m. v = Object m)) \<and>
     (\<forall>bs v. from_slice J bs = Some v \<longrightarrow> value_ok v)"

section \<open>Data\<close>

definition LUKS2_BIN_HDR_LEN :: usize where
  "LUKS2_BIN_HDR_LEN = 4096"

text \<open>
  The fields of \<open>Argon2\<close> are kind, time, memory, cpus and salt, those of \<open>Pbkdf2\<close> are hash,
  iterations and salt.
\<close>

datatype Luks2Kdf =
    Argon2 string u32 u32 u32 bytes
  | Pbkdf2 string u32 bytes

record Luks2Keyslot =
  slot_id :: string
  key_size :: usize
  af_stripes :: u32
  af_hash :: string
  area_offset :: u64
  area_size :: u64
  area_encryption :: string
  kdf :: Luks2Kdf

record Luks2Segment =
  segment_id :: string
  segment_offset :: u64
  encryption :: string
  segment_sector_size :: usize
  iv_tweak :: u128

record Luks2Digest =
  digest_kind :: string
  digest_hash :: string
  digest_iterations :: u32
  digest_salt :: bytes
  digest_value :: bytes
  digest_keyslots :: "string list"

record Luks2Header =
  version2 :: u16
  hdr_size :: u64
  keyslots2 :: "Luks2Keyslot list"
  segments :: "Luks2Segment list"
  digests :: "Luks2Digest list"

section \<open>The parser\<close>

text \<open>\<open>Option::unwrap_or\<close>.\<close>

definition unwrap_or :: "'a option \<Rightarrow> 'a \<Rightarrow> 'a" where
  "unwrap_or x d = (case x of Some y \<Rightarrow> y | None \<Rightarrow> d)"

lemma unwrap_or_simps [simp]: "unwrap_or (Some x) d = x" "unwrap_or None d = d"
  by (simp_all add: unwrap_or_def)

fun as_u64 :: "'n json_api \<Rightarrow> 'n Value \<Rightarrow> u64" where
  "as_u64 J (String s) = unwrap_or (parse_u64 s) 0"
| "as_u64 J (Number n) = unwrap_or (number_as_u64 J n) 0"
| "as_u64 J _ = 0"

definition b64 :: "'n json_api \<Rightarrow> 'n Value \<Rightarrow> bytes" where
  "b64 J v = unwrap_or (Option.bind (as_str J v) (b64_decode J)) []"

text \<open>\<open>v.get(k).and_then(Value::as_str)\<close>\<close>

definition get_str :: "'n json_api \<Rightarrow> 'n Value \<Rightarrow> string \<Rightarrow> string option" where
  "get_str J v k = Option.bind (value_get J v k) (as_str J)"

definition parse_kdf :: "'n json_api \<Rightarrow> 'n Value \<Rightarrow> Luks2Kdf option" where
  "parse_kdf J kdf_v =
     Option.bind (get_str J kdf_v ''type'') (\<lambda>kind.
     if kind = ''pbkdf2'' then
       let h = unwrap_or (get_str J kdf_v ''hash'') ''sha256'' in
       Option.bind (value_get J kdf_v ''iterations'') (\<lambda>it.
       Option.bind (value_get J kdf_v ''salt'') (\<lambda>slt.
       Some (Pbkdf2 h (ucast (as_u64 J it)) (b64 J slt))))
     else if kind = ''argon2i'' \<or> kind = ''argon2id'' then
       Option.bind (value_get J kdf_v ''time'') (\<lambda>t.
       Option.bind (value_get J kdf_v ''memory'') (\<lambda>m.
       Option.bind (value_get J kdf_v ''cpus'') (\<lambda>c.
       Option.bind (value_get J kdf_v ''salt'') (\<lambda>slt.
       Some (Argon2 kind (ucast (as_u64 J t)) (ucast (as_u64 J m)) (ucast (as_u64 J c)) (b64 J slt))))))
     else None)"

definition parse_keyslot :: "'n json_api \<Rightarrow> string \<Rightarrow> 'n Value \<Rightarrow> Luks2Keyslot option" where
  "parse_keyslot J sid v =
     Option.bind (value_get J v ''af'') (\<lambda>af.
     Option.bind (value_get J v ''area'') (\<lambda>area.
     Option.bind (value_get J v ''kdf'') (\<lambda>kdf_v.
     Option.bind (parse_kdf J kdf_v) (\<lambda>k.
     Option.bind (value_get J v ''key_size'') (\<lambda>ks.
     Option.bind (value_get J af ''stripes'') (\<lambda>st.
     Option.bind (value_get J area ''offset'') (\<lambda>ao.
     Option.bind (value_get J area ''size'') (\<lambda>asz.
     Option.bind (get_str J area ''encryption'') (\<lambda>enc.
     Some \<lparr>slot_id = sid, key_size = unat (as_u64 J ks), af_stripes = ucast (as_u64 J st),
           af_hash = unwrap_or (get_str J af ''hash'') ''sha256'',
           area_offset = as_u64 J ao, area_size = as_u64 J asz, area_encryption = enc,
           kdf = k\<rparr>)))))))))"

definition parse_segment :: "'n json_api \<Rightarrow> string \<Rightarrow> 'n Value \<Rightarrow> Luks2Segment option" where
  "parse_segment J sid v =
     Option.bind (value_get J v ''offset'') (\<lambda>off.
     Option.bind (get_str J v ''encryption'') (\<lambda>enc.
     Option.bind (value_get J v ''sector_size'') (\<lambda>ss.
     Some \<lparr>segment_id = sid, segment_offset = as_u64 J off, encryption = enc,
           segment_sector_size = unat (as_u64 J ss),
           iv_tweak = ucast (as_u64 J (unwrap_or (value_get J v ''iv_tweak'') Null))\<rparr>)))"

definition parse_digest :: "'n json_api \<Rightarrow> 'n Value \<Rightarrow> Luks2Digest option" where
  "parse_digest J v =
     Option.bind (get_str J v ''type'') (\<lambda>kind.
     Option.bind (value_get J v ''salt'') (\<lambda>slt.
     Option.bind (value_get J v ''digest'') (\<lambda>dig.
     Some \<lparr>digest_kind = kind, digest_hash = unwrap_or (get_str J v ''hash'') ''sha256'',
           digest_iterations = ucast (as_u64 J (unwrap_or (value_get J v ''iterations'') Null)),
           digest_salt = b64 J slt, digest_value = b64 J dig,
           digest_keyslots =
             unwrap_or (map_option (List.map_filter (as_str J))
               (Option.bind (value_get J v ''keyslots'') (as_array J))) []\<rparr>)))"

text \<open>\<open>root.get(k).and_then(Value::as_object)\<close>, and its entries that the closure accepts.\<close>

definition entries :: "'n json_api \<Rightarrow> 'n Value \<Rightarrow> string \<Rightarrow> (string \<times> 'n Value \<Rightarrow> 'a option) \<Rightarrow> 'a list" where
  "entries J root k f =
     unwrap_or (map_option (List.map_filter f) (Option.bind (value_get J root k) (as_object J))) []"

definition parse2 :: "'n json_api \<Rightarrow> bytes \<Rightarrow> Luks2Header res" where
  "parse2 J data =
     bindR (bytes_n 6 data 0) (\<lambda>magic.
     if magic \<noteq> LUKS_MAGIC then Err (NotLuks magic)
     else
     bindR (be_u16 data 6) (\<lambda>ver.
     if ver \<noteq> 2 then Err (UnsupportedVersion ver)
     else
     bindR (be_u64 data 8) (\<lambda>size.
     let end_pos = min (unat size) (length data) in
     bindR (ok_or (slice_get data LUKS2_BIN_HDR_LEN end_pos)
              (MalformedHeader ''json area'' LUKS2_BIN_HDR_LEN (length data))) (\<lambda>json_area.
     let json_end = unwrap_or (position_of (\<lambda>b. b = 0) json_area) (length json_area) in
     bindR (slice_index json_area 0 json_end) (\<lambda>json.
     bindR (ok_or (from_slice J json)
              (MalformedHeader ''json parse'' json_end (length json_area))) (\<lambda>root.
     Ok \<lparr>version2 = ver, hdr_size = size,
         keyslots2 = entries J root ''keyslots'' (\<lambda>(k, v). parse_keyslot J k v),
         segments = entries J root ''segments'' (\<lambda>(k, v). parse_segment J k v),
         digests = entries J root ''digests'' (\<lambda>(k, v). parse_digest J v)\<rparr>))))))"

definition crypt_segment :: "Luks2Header \<Rightarrow> Luks2Segment option" where
  "crypt_segment h = List.find (\<lambda>s. encryption s \<noteq> []) (segments h)"

section \<open>What the parser returns\<close>

text \<open>The header that a JSON document describes.\<close>

definition header2_of :: "'n json_api \<Rightarrow> u64 \<Rightarrow> 'n Value \<Rightarrow> Luks2Header" where
  "header2_of J hsize root =
     \<lparr>version2 = 2, hdr_size = hsize,
      keyslots2 = entries J root ''keyslots'' (\<lambda>(k, v). parse_keyslot J k v),
      segments = entries J root ''segments'' (\<lambda>(k, v). parse_segment J k v),
      digests = entries J root ''digests'' (\<lambda>(k, v). parse_digest J v)\<rparr>"

text \<open>The text before the first zero byte of the area between the binary header and \<open>hdr_size\<close>.\<close>

definition json_area_of :: "bytes \<Rightarrow> bytes" where
  "json_area_of data = drop LUKS2_BIN_HDR_LEN (take (unat (from_be_bytes (take 8 (drop 8 data)) :: u64)) data)"

definition json_text_of :: "bytes \<Rightarrow> bytes" where
  "json_text_of data = takeWhile (\<lambda>b. b \<noteq> 0) (json_area_of data)"

lemma unwrap_position:
  "unwrap_or (position_of p xs) (length xs) = length (takeWhile (\<lambda>x. \<not> p x) xs)"
  using position_of_takeWhile [where p = p and xs = xs] by (simp add: unwrap_or_def)

lemma parse2_value:
  assumes "4096 \<le> length data"
  shows "parse2 J data =
     (if take 6 data \<noteq> LUKS_MAGIC then Err (NotLuks (take 6 data))
      else if from_be_bytes (take 2 (drop 6 data)) \<noteq> (2 :: u16)
        then Err (UnsupportedVersion (from_be_bytes (take 2 (drop 6 data))))
      else let size = from_be_bytes (take 8 (drop 8 data)) :: u64 in
        if unat size < 4096 then Err (MalformedHeader ''json area'' 4096 (length data))
        else case from_slice J (json_text_of data) of
          None \<Rightarrow> Err (MalformedHeader ''json parse'' (length (json_text_of data)) (length (json_area_of data)))
        | Some root \<Rightarrow> Ok (header2_of J size root))"
proof -
  let ?size = "from_be_bytes (take 8 (drop 8 data)) :: u64"
  have rd: "bytes_n 6 data 0 = Ok (take 6 data)" "be_u16 data 6 = Ok (from_be_bytes (take 2 (drop 6 data)))"
    "be_u64 data 8 = Ok ?size"
    using assms by (simp_all add: reader_values)
  have cut: "drop 4096 (take (unat ?size) data) =
      take (min (unat ?size) (length data) - 4096) (drop 4096 data)"
    by (simp add: drop_take min_def)
  show ?thesis
  proof (cases "unat ?size < 4096")
    case True
    then have "slice_get data 4096 (min (unat ?size) (length data)) = None"
      using assms by (simp add: slice_get_def)
    with True show ?thesis
      by (simp add: parse2_def rd LUKS2_BIN_HDR_LEN_def Let_def)
  next
    case False
    then have area: "slice_get data 4096 (min (unat ?size) (length data)) = Some (json_area_of data)"
      using assms cut by (simp add: slice_get_def json_area_of_def LUKS2_BIN_HDR_LEN_def)
    have txt_of: "slice_index (json_area_of data) 0 (length (json_text_of data)) =
        (Ok (json_text_of data) :: bytes res)"
      by (simp add: slice_index_Ok json_text_of_def length_takeWhile_le takeWhile_eq_take [symmetric])
    have le: "unwrap_or (position_of (\<lambda>b. b = 0) (json_area_of data)) (length (json_area_of data)) =
        length (json_text_of data)"
      by (simp add: unwrap_position json_text_of_def)
    show ?thesis
      using False
      by (simp add: parse2_def rd LUKS2_BIN_HDR_LEN_def Let_def area le txt_of header2_of_def
          split: option.split)
  qed
qed

text \<open>On a buffer that does not cover the binary header, a field that is not there reads as zero.\<close>

lemma parse2_short:
  assumes "length data < 4096"
  shows "parse2 J data =
     (if take 6 data \<noteq> LUKS_MAGIC then Err (NotLuks (if length data < 6 then replicate 6 0 else take 6 data))
      else let ver = (if length data < 8 then 0 else from_be_bytes (take 2 (drop 6 data)) :: u16) in
        if ver \<noteq> 2 then Err (UnsupportedVersion ver)
        else Err (MalformedHeader ''json area'' 4096 (length data)))"
proof -
  obtain size where size: "be_u64 data 8 = Ok size" using be64.read_total [of 8 data] by auto
  have area: "slice_get data 4096 (min k (length data)) = None" for k using assms by (simp add: slice_get_def)
  consider "length data < 6" | "6 \<le> length data" "length data < 8" | "8 \<le> length data" by linarith
  then show ?thesis
  proof cases
    case 1
    then have "take 6 data \<noteq> LUKS_MAGIC" using length_LUKS_MAGIC by auto
    with 1 show ?thesis by (simp add: parse2_def magic_short)
  next
    case 2
    then have "bytes_n 6 data 0 = Ok (take 6 data)" "be_u16 data 6 = Ok 0" by (simp_all add: reader_values be16.read_default)
    with 2 show ?thesis by (simp add: parse2_def)
  next
    case 3
    then have "bytes_n 6 data 0 = Ok (take 6 data)" "be_u16 data 6 = Ok (from_be_bytes (take 2 (drop 6 data)))"
      by (simp_all add: reader_values)
    with 3 show ?thesis by (simp add: parse2_def size area LUKS2_BIN_HDR_LEN_def Let_def)
  qed
qed

lemma parse2_cases:
  "parse2 J data =
     (if take 6 data \<noteq> LUKS_MAGIC then Err (NotLuks (if length data < 6 then replicate 6 0 else take 6 data))
      else let ver = (if length data < 8 then 0 else from_be_bytes (take 2 (drop 6 data)) :: u16);
               hs = from_be_bytes (take 8 (drop 8 data)) :: u64 in
        if ver \<noteq> 2 then Err (UnsupportedVersion ver)
        else if length data < 4096 \<or> unat hs < 4096 then Err (MalformedHeader ''json area'' 4096 (length data))
        else case from_slice J (json_text_of data) of
          None \<Rightarrow> Err (MalformedHeader ''json parse'' (length (json_text_of data)) (length (json_area_of data)))
        | Some root \<Rightarrow> Ok (header2_of J hs root))"
proof (cases "length data < 4096")
  case True
  then show ?thesis by (simp add: parse2_short Let_def)
next
  case False
  then show ?thesis by (simp add: parse2_value Let_def cong: if_cong)
qed

lemma magic_is_nonzero: "bytes_n 6 data 0 = Ok LUKS_MAGIC \<Longrightarrow> 6 \<le> length data"
  by (rule ccontr) (simp add: magic_short)

lemma parse2_no_panic: "\<not> is_Panic (parse2 J data)"
proof -
  have [simp]: "\<not> is_Panic (slice_index xs 0 (unwrap_or (position_of p xs) (length xs)))" for xs :: bytes and p
    by (simp add: unwrap_position slice_index_Ok length_takeWhile_le)
  have "\<not> is_Panic (bytes_n 6 data 0)" "\<not> is_Panic (be_u16 data 6)" "\<not> is_Panic (be_u64 data 8)"
    using raw.never_panics [of 0 6 data] be16.never_panics [of 6 data] be64.never_panics [of 8 data]
    by simp_all
  then show ?thesis
    by (auto simp: parse2_def outcome_simps Let_def split: if_splits)
qed

section \<open>Writing a header\<close>

text \<open>
  The JSON document of a header: numbers are written as strings, which the format allows, and byte
  strings by an encoder \<open>enc\<close> that the decoder undoes.  The keys are those of the fixture
  \<open>ORACLE_JSON\<close>, in ascending order; \<open>dids\<close> are the keys of the digests, which the parser drops.
\<close>

definition json_num :: "nat \<Rightarrow> 'n Value" where
  "json_num n = String (show_nat n)"

fun kdf_json :: "(bytes \<Rightarrow> string) \<Rightarrow> Luks2Kdf \<Rightarrow> 'n Value" where
  "kdf_json enc (Argon2 k t m c s) =
     Object [(''cpus'', json_num (unat c)), (''memory'', json_num (unat m)), (''salt'', String (enc s)),
             (''time'', json_num (unat t)), (''type'', String k)]"
| "kdf_json enc (Pbkdf2 h it s) =
     Object [(''hash'', String h), (''iterations'', json_num (unat it)), (''salt'', String (enc s)),
             (''type'', String ''pbkdf2'')]"

definition keyslot_json :: "(bytes \<Rightarrow> string) \<Rightarrow> Luks2Keyslot \<Rightarrow> 'n Value" where
  "keyslot_json enc k =
     Object [(''af'', Object [(''hash'', String (af_hash k)), (''stripes'', json_num (unat (af_stripes k))),
                      (''type'', String ''luks1'')]),
       (''area'', Object [(''encryption'', String (area_encryption k)), (''offset'', json_num (unat (area_offset k))),
                        (''size'', json_num (unat (area_size k))), (''type'', String ''raw'')]),
       (''kdf'', kdf_json enc (kdf k)), (''key_size'', json_num (key_size k)), (''type'', String ''luks2'')]"

definition segment_json :: "Luks2Segment \<Rightarrow> 'n Value" where
  "segment_json g =
     Object [(''encryption'', String (encryption g)), (''iv_tweak'', json_num (unat (iv_tweak g))),
       (''offset'', json_num (unat (segment_offset g))), (''sector_size'', json_num (segment_sector_size g)),
       (''size'', String ''dynamic''), (''type'', String ''crypt'')]"

definition digest_json :: "(bytes \<Rightarrow> string) \<Rightarrow> Luks2Digest \<Rightarrow> 'n Value" where
  "digest_json enc d =
     Object [(''digest'', String (enc (digest_value d))), (''hash'', String (digest_hash d)),
       (''iterations'', json_num (unat (digest_iterations d))), (''keyslots'', Array (map String (digest_keyslots d))),
       (''salt'', String (enc (digest_salt d))), (''type'', String (digest_kind d))]"

definition header2_json :: "(bytes \<Rightarrow> string) \<Rightarrow> string list \<Rightarrow> Luks2Header \<Rightarrow> 'n Value" where
  "header2_json enc dids h =
     Object [(''digests'', Object (zip dids (map (digest_json enc) (digests h)))),
       (''keyslots'', Object (map (\<lambda>k. (slot_id k, keyslot_json enc k)) (keyslots2 h))),
       (''segments'', Object (map (\<lambda>g. (segment_id g, segment_json g)) (segments h)))]"

text \<open>
  The header area of the fixtures: the binary header, the text and zeros, \<open>n\<close> bytes of JSON area in
  all.  The fixture \<open>build_luks2\<close> has an area of 12288 bytes.
\<close>

definition luks2_area :: "usize \<Rightarrow> bytes \<Rightarrow> bytes" where
  "luks2_area n json =
     LUKS_MAGIC @ to_be_bytes 2 (2 :: u16) @ to_be_bytes 8 (of_nat (LUKS2_BIN_HDR_LEN + n) :: u64) @
     replicate (LUKS2_BIN_HDR_LEN - 16) 0 @ json @ replicate (n - length json) 0"

definition build_luks2 :: "bytes \<Rightarrow> bytes res" where
  "build_luks2 json =
     (if 12288 < length json then Panic ''range end index out of range'' else Ok (luks2_area 12288 json))"

text \<open>The headers that a document can express.\<close>

fun kdf_ok :: "Luks2Kdf \<Rightarrow> bool" where
  "kdf_ok (Argon2 k t m c s) = (k = ''argon2i'' \<or> k = ''argon2id'')"
| "kdf_ok (Pbkdf2 h it s) = True"

definition header2_wf :: "Luks2Header \<Rightarrow> bool" where
  "header2_wf h \<longleftrightarrow> version2 h = 2 \<and>
     list_all (\<lambda>k. key_size k \<le> usize_MAX \<and> kdf_ok (kdf k)) (keyslots2 h) \<and>
     list_all (\<lambda>g. segment_sector_size g \<le> usize_MAX \<and> unat (iv_tweak g) \<le> u64_MAX) (segments h) \<and>
     sorted_wrt (<) (map slot_id (keyslots2 h)) \<and> sorted_wrt (<) (map segment_id (segments h))"

definition json_text_ok :: "usize \<Rightarrow> bytes \<Rightarrow> bool" where
  "json_text_ok n json \<longleftrightarrow> length json \<le> n \<and> 0 \<notin> set json"

lemma as_u64_num: "n \<le> u64_MAX \<Longrightarrow> as_u64 J (json_num n) = of_nat n"
  by (simp add: json_num_def parse_u64_show_nat)

lemma unat_le_u64: "unat (w :: u32) \<le> u64_MAX" "unat (v :: u64) \<le> u64_MAX"
  using unsigned_less [of w, where 'a = nat] unsigned_less [of v, where 'a = nat] by simp_all

lemma ucast_up_down [simp]: "ucast (ucast (w :: u32) :: u64) = w"
proof (rule bit_word_eqI)
  fix n assume "n < LENGTH(32)"
  then show "bit (ucast (ucast w :: u64) :: u32) n = bit w n"
    by (simp add: bit_ucast_iff)
qed

lemma ucast_down_up: "unat (w :: u128) \<le> u64_MAX \<Longrightarrow> ucast (ucast w :: u64) = w"
  by (simp add: word_unat_eq_iff unsigned_ucast_eq unsigned_take_bit_eq take_bit_nat_eq_self)

lemma json_okD:
  assumes "json_ok J"
  shows "value_get J (Object m) k = map_of m k" "as_str J (String s) = Some s"
    "as_object J (Object m) = Some m" "as_array J (Array a) = Some a"
  using assms by (simp_all add: json_ok_def)

lemma map_filter_all: "(\<And>x. x \<in> set xs \<Longrightarrow> f (g x) = Some (h x)) \<Longrightarrow> List.map_filter f (map g xs) = map h xs"
  by (induction xs) (simp_all add: List.map_filter_simps)

lemma b64_enc: "json_ok J \<Longrightarrow> b64_decode J (enc x) = Some x \<Longrightarrow> b64 J (String (enc x)) = x"
  by (simp add: b64_def json_okD)

lemmas json_reads = get_str_def json_okD as_u64_num unat_le_u64 b64_enc

lemma parse_kdf_json:
  assumes "json_ok J" and "\<And>x. b64_decode J (enc x) = Some x" and "kdf_ok k"
  shows "parse_kdf J (kdf_json enc k) = Some k"
proof (cases k)
  case (Argon2 n t m c s)
  then have "n \<noteq> ''pbkdf2''" using assms(3) by auto
  with Argon2 assms show ?thesis by (simp add: parse_kdf_def json_reads)
next
  case (Pbkdf2 h it s)
  with assms show ?thesis by (simp add: parse_kdf_def json_reads)
qed

lemma parse_keyslot_json:
  assumes "json_ok J" and "\<And>x. b64_decode J (enc x) = Some x" and "kdf_ok (kdf k)" and "key_size k \<le> usize_MAX"
  shows "parse_keyslot J (slot_id k) (keyslot_json enc k) = Some k"
  using assms by (simp add: parse_keyslot_def keyslot_json_def json_reads parse_kdf_json unat_of_nat)

lemma parse_segment_json:
  assumes "json_ok J" and "segment_sector_size g \<le> usize_MAX" and "unat (iv_tweak g) \<le> u64_MAX"
  shows "parse_segment J (segment_id g) (segment_json g) = Some g"
  using assms by (simp add: parse_segment_def segment_json_def json_reads ucast_down_up unat_of_nat)

lemma parse_digest_json:
  assumes "json_ok J" and "\<And>x. b64_decode J (enc x) = Some x"
  shows "parse_digest J (digest_json enc d) = Some d"
proof -
  have "List.map_filter (as_str J) (map String (digest_keyslots d)) = map (\<lambda>x. x) (digest_keyslots d)"
    by (rule map_filter_all) (simp add: json_okD [OF assms(1)])
  then show ?thesis
    using assms by (simp add: parse_digest_def digest_json_def json_reads)
qed

lemma header2_of_json:
  assumes "json_ok J" and "\<And>x. b64_decode J (enc x) = Some x" and "header2_wf h" and "length dids = length (digests h)"
  shows "header2_of J (hdr_size h) (header2_json enc dids h) = h"
proof -
  have ks: "List.map_filter (\<lambda>(k, v). parse_keyslot J k v) (map (\<lambda>k. (slot_id k, keyslot_json enc k)) (keyslots2 h))
      = map (\<lambda>k. k) (keyslots2 h)"
    using assms by (intro map_filter_all) (auto simp: header2_wf_def list_all_iff parse_keyslot_json)
  have sg: "List.map_filter (\<lambda>(k, v). parse_segment J k v) (map (\<lambda>g. (segment_id g, segment_json g)) (segments h))
      = map (\<lambda>k. k) (segments h)"
    using assms by (intro map_filter_all) (auto simp: header2_wf_def list_all_iff parse_segment_json)
  have eq: "zip dids (map (digest_json enc) (digests h)) = map (\<lambda>(i, d). (i, digest_json enc d)) (zip dids (digests h))"
    by (simp add: zip_map2)
  have "List.map_filter (\<lambda>(k, v). parse_digest J v) (map (\<lambda>(i, d). (i, digest_json enc d)) (zip dids (digests h)))
      = map snd (zip dids (digests h))"
    using assms by (intro map_filter_all) (auto simp: parse_digest_json)
  then have ds: "List.map_filter (\<lambda>(k, v). parse_digest J v) (zip dids (map (digest_json enc) (digests h))) = digests h"
    unfolding eq using assms(4) by simp
  from ks sg ds show ?thesis
    using assms by (simp add: header2_of_def header2_json_def entries_def json_okD header2_wf_def)
qed

text \<open>The document of a header is one that the crate can return.\<close>

lemma header2_json_ok:
  assumes "header2_wf h" and "sorted_wrt (<) dids" and "length dids = length (digests h)"
  shows "value_ok (header2_json enc dids h)"
proof -
  have "value_ok (kdf_json enc k)" for k by (cases k) (simp_all add: json_num_def)
  then have "value_ok (keyslot_json enc k)" for k by (simp add: keyslot_json_def json_num_def)
  moreover have "value_ok (segment_json g)" for g by (simp add: segment_json_def json_num_def)
  moreover have "value_ok (digest_json enc d)" for d by (simp add: digest_json_def json_num_def list_all_iff)
  moreover from this have "value_ok b" if "(a, b) \<in> set (zip dids (map (digest_json enc) (digests h)))" for a b
    using set_zip_rightD [OF that] by auto
  ultimately show ?thesis
    using assms by (auto simp: header2_json_def header2_wf_def list_all_iff comp_def)
qed

section \<open>What the parser guarantees\<close>

lemma sorted_map_filter:
  assumes "\<And>k v y. f (k, v) = Some y \<Longrightarrow> g y = k" and "sorted_wrt (<) (map fst m)"
  shows "sorted_wrt (<) (map g (List.map_filter f m))"
proof -
  have sub: "map g (List.map_filter f m) = filter (\<lambda>k. False) [] @ map fst (filter (\<lambda>e. f e \<noteq> None) m)" for m
    by (induction m) (auto simp: List.map_filter_simps split: option.split dest: assms(1) elim!: prod.exhaust)
  have "sorted_wrt (<) (map fst (filter (\<lambda>e. f e \<noteq> None) m))"
    using assms(2) by (induction m) auto
  then show ?thesis by (simp add: sub)
qed

lemma unat_of_u64: "unat (ucast (w :: u64) :: u128) = unat w"
  using unsigned_less [of w, where 'a = nat] by (simp add: unsigned_ucast_eq take_bit_nat_eq_self)

lemma parse_kdf_ok: "parse_kdf J v = Some k \<Longrightarrow> kdf_ok k"
  by (auto simp: parse_kdf_def Let_def split: bind_splits if_splits)

lemma entries_of_root:
  assumes "json_documented J" and "value_ok root"
  shows "\<exists>m. entries J root k f = List.map_filter f m \<and> sorted_wrt (<) (map fst m)"
proof (cases "Option.bind (value_get J root k) (as_object J)")
  case None
  then show ?thesis by (intro exI [of _ "[]"]) (simp add: entries_def List.map_filter_simps)
next
  case (Some m)
  then obtain v where v: "value_get J root k = Some v" "v = Object m"
    using assms(1) by (auto simp: json_documented_def split: bind_splits)
  then obtain n where "root = Object n" "map_of n k = Some v"
    using assms(1) by (auto simp: json_documented_def json_ok_def) metis
  then have "value_ok (Object m)" using assms(2) v(2) map_of_SomeD by (fastforce simp: list_all_iff)
  with Some show ?thesis by (intro exI [of _ m]) (simp add: entries_def)
qed

lemma header2_of_wf:
  assumes "json_documented J" and "value_ok root"
  shows "header2_wf (header2_of J hs root)"
proof -
  obtain ms mg where m: "entries J root ''keyslots'' (\<lambda>(k, v). parse_keyslot J k v) = List.map_filter (\<lambda>(k, v). parse_keyslot J k v) ms"
    "sorted_wrt (<) (map fst ms)"
    "entries J root ''segments'' (\<lambda>(k, v). parse_segment J k v) = List.map_filter (\<lambda>(k, v). parse_segment J k v) mg"
    "sorted_wrt (<) (map fst mg)"
    using entries_of_root [OF assms] by metis
  have ids: "sorted_wrt (<) (map slot_id (List.map_filter (\<lambda>(k, v). parse_keyslot J k v) ms))"
    "sorted_wrt (<) (map segment_id (List.map_filter (\<lambda>(k, v). parse_segment J k v) mg))"
    using m(2,4) by (auto intro!: sorted_map_filter simp: parse_keyslot_def parse_segment_def split: bind_splits)
  have "key_size k \<le> usize_MAX \<and> kdf_ok (kdf k)" if "parse_keyslot J i v = Some k" for i v k
    using that unat_le_u64(2) by (auto simp: parse_keyslot_def split: bind_splits dest: parse_kdf_ok)
  moreover have "segment_sector_size g \<le> usize_MAX \<and> unat (iv_tweak g) \<le> u64_MAX" if "parse_segment J i v = Some g" for i v g
    using that unat_le_u64(2) by (auto simp: parse_segment_def unat_of_u64 split: bind_splits)
  ultimately show ?thesis
    using ids unfolding header2_of_def m(1,3) header2_wf_def
    by (auto simp: list_all_iff List.map_filter_def)
qed

section \<open>The header area\<close>

lemma luks2_area_parts:
  assumes "json_text_ok n json" and "n \<le> isize_MAX"
  shows "length (luks2_area n json) = 4096 + n" "take 6 (luks2_area n json) = LUKS_MAGIC"
    "from_be_bytes (take 2 (drop 6 (luks2_area n json))) = (2 :: u16)"
    "from_be_bytes (take 8 (drop 8 (luks2_area n json))) = (of_nat (4096 + n) :: u64)"
    "json_text_of (luks2_area n json) = json"
proof -
  let ?img = "luks2_area n json"
  have img: "?img = LUKS_MAGIC @ to_be_bytes 2 (2 :: u16) @ to_be_bytes 8 (of_nat (4096 + n) :: u64) @
      replicate 4080 0 @ json @ replicate (n - length json) 0"
    by (simp add: luks2_area_def LUKS2_BIN_HDR_LEN_def)
  show len: "length ?img = 4096 + n" using assms unfolding img by (simp add: json_text_ok_def)
  show "take 6 ?img = LUKS_MAGIC"
    "from_be_bytes (take 2 (drop 6 ?img)) = (2 :: u16)"
    and size: "from_be_bytes (take 8 (drop 8 ?img)) = (of_nat (4096 + n) :: u64)"
    unfolding img by (simp_all add: from_be_bytes_to_be_bytes_full del: of_nat_add)
  have "unat (of_nat (4096 + n) :: u64) = 4096 + n" using assms(2) by (simp add: unat_of_nat del: of_nat_add)
  with len have "json_area_of ?img = drop 4096 ?img"
    by (simp add: json_area_of_def size LUKS2_BIN_HDR_LEN_def del: of_nat_add)
  also have "drop 4096 ?img = json @ replicate (n - length json) 0"
    unfolding img by simp
  finally have area: "json_area_of ?img = json @ replicate (n - length json) 0" .
  have "takeWhile (\<lambda>b. b \<noteq> 0) (json @ replicate (n - length json) 0) =
      json @ takeWhile (\<lambda>b. b \<noteq> 0) (replicate (n - length json) (0 :: u8))"
    using assms by (intro takeWhile_append2) (auto simp: json_text_ok_def)
  then show "json_text_of ?img = json" by (simp add: json_text_of_def area)
qed

lemma parse2_area:
  assumes "json_text_ok n json" and "n \<le> isize_MAX" and "from_slice J json = Some root"
  shows "parse2 J (luks2_area n json) = Ok (header2_of J (of_nat (4096 + n)) root)"
proof -
  note parts = luks2_area_parts [OF assms(1,2)]
  have "unat (of_nat (4096 + n) :: u64) = 4096 + n" using assms(2) by (simp add: unat_of_nat del: of_nat_add)
  then show ?thesis
    using parts(1) assms(3) by (simp add: parse2_value parts Let_def del: of_nat_add)
qed

section \<open>Properties\<close>

text \<open>An instance of the JSON crates whose parser knows one document.\<close>

definition sample_json :: "nat Value \<Rightarrow> nat json_api" where
  "sample_json doc =
     \<lparr>from_slice = (\<lambda>bs. if bs = [] then None else Some doc),
      value_get = (\<lambda>v k. case v of Object m \<Rightarrow> map_of m k | _ \<Rightarrow> None),
      as_str = (\<lambda>v. case v of String t \<Rightarrow> Some t | _ \<Rightarrow> None),
      as_object = (\<lambda>v. case v of Object m \<Rightarrow> Some m | _ \<Rightarrow> None),
      as_array = (\<lambda>v. case v of Array a \<Rightarrow> Some a | _ \<Rightarrow> None),
      number_as_u64 = (\<lambda>n. if n \<le> u64_MAX then Some (of_nat n) else None),
      b64_decode = (\<lambda>t. Some (bytes_of_string t))\<rparr>"

lemma sample_json_ok: "json_ok (sample_json doc)" "b64_decode (sample_json doc) (string_of_bytes x) = Some x"
  by (simp_all add: json_ok_def sample_json_def)

definition sample_header2 :: Luks2Header where
  "sample_header2 =
     \<lparr>version2 = 2, hdr_size = 16384,
      keyslots2 = [\<lparr>slot_id = ''0'', key_size = 64, af_stripes = 8, af_hash = ''sha256'', area_offset = 8192,
        area_size = 512, area_encryption = ''aes-xts-plain64'', kdf = Argon2 ''argon2id'' 4 32 1 [1, 2, 3]\<rparr>],
      segments = [\<lparr>segment_id = ''0'', segment_offset = 12288, encryption = ''aes-xts-plain64'',
        segment_sector_size = 4096, iv_tweak = 0\<rparr>],
      digests = [\<lparr>digest_kind = ''pbkdf2'', digest_hash = ''sha256'', digest_iterations = 5,
        digest_salt = [4, 5], digest_value = [6, 7], digest_keyslots = [''0'']\<rparr>]\<rparr>"

lemma sample_header2_ok: "header2_wf sample_header2" "hdr_size sample_header2 = 16384" "length (digests sample_header2) = 1"
  by (simp_all add: header2_wf_def sample_header2_def)

lemma sample_json_documented: "value_ok doc \<Longrightarrow> json_documented (sample_json doc)"
  using sample_json_ok(1) [of doc]
  by (auto simp: json_documented_def sample_json_def split: Value.splits if_splits) (metis Value.exhaust)

text \<open>
  C24.  The LUKS2 parser answers every input, of any length and with any JSON parser, and never
  panics: the error names the first check that fails, magic, version, a buffer or a header size below
  4096, and the JSON text up to the first zero byte, in that order (a version field that the buffer
  does not cover reads as zero); otherwise the answer is the header that the document describes, from
  which every entry that lacks a required field is left out.
\<close>

theorem parse2_classified:
  "parse2 J data =
     (if take 6 data \<noteq> LUKS_MAGIC then Err (NotLuks (if length data < 6 then replicate 6 0 else take 6 data))
      else let ver = (if length data < 8 then 0 else from_be_bytes (take 2 (drop 6 data)) :: u16);
               hs = from_be_bytes (take 8 (drop 8 data)) :: u64 in
        if ver \<noteq> 2 then Err (UnsupportedVersion ver)
        else if length data < 4096 \<or> unat hs < 4096 then Err (MalformedHeader ''json area'' 4096 (length data))
        else case from_slice J (json_text_of data) of
          None \<Rightarrow> Err (MalformedHeader ''json parse'' (length (json_text_of data)) (length (json_area_of data)))
        | Some root \<Rightarrow> Ok (header2_of J hs root))"
  by (rule parse2_cases)

text \<open>
  C26.  Every LUKS2 header that the parser returns is well-formed, whatever bytes it comes from: the
  version is 2 and the header size at least 4096, every keyslot has PBKDF2 or one of the two Argon2
  variants, sizes and tweaks are in range, and the identifiers of keyslots and segments are in
  ascending order without duplicates, so that the first keyslot that unlocking tries is the one with
  the least identifier.
\<close>

theorem parsed_header2_wellformed:
  assumes "json_documented J" and "parse2 J data = Ok h"
  shows "header2_wf h \<and> 4096 \<le> unat (hdr_size h) \<and> 4096 \<le> length data"
proof -
  obtain root where "from_slice J (json_text_of data) = Some root" "h = header2_of J (from_be_bytes (take 8 (drop 8 data))) root"
    "4096 \<le> unat (from_be_bytes (take 8 (drop 8 data)) :: u64)" "4096 \<le> length data"
    using assms(2) unfolding parse2_cases Let_def by (auto split: if_splits option.splits)
  moreover from this have "value_ok root" using assms(1) by (simp add: json_documented_def)
  ultimately show ?thesis using header2_of_wf [OF assms(1)] by (simp add: header2_of_def)
qed

theorem parsed_header2_wellformed_witness:
  "parse2 (sample_json (header2_json string_of_bytes [''0''] sample_header2)) (luks2_area 12288 [123, 125]) = Ok sample_header2 \<and>
   header2_wf sample_header2 \<and> 4096 \<le> unat (hdr_size sample_header2)"
proof -
  let ?J = "sample_json (header2_json string_of_bytes [''0''] sample_header2)"
  have "from_slice ?J [123, 125] = Some (header2_json string_of_bytes [''0''] sample_header2)" by (simp add: sample_json_def)
  moreover have "header2_of ?J (hdr_size sample_header2) (header2_json string_of_bytes [''0''] sample_header2) = sample_header2"
    by (rule header2_of_json) (simp_all add: sample_json_ok sample_header2_ok)
  ultimately have run: "parse2 ?J (luks2_area 12288 [123, 125]) = Ok sample_header2"
    using parse2_area [of 12288 "[123, 125]" ?J] by (simp add: json_text_ok_def sample_header2_ok)
  have "json_documented ?J" by (intro sample_json_documented header2_json_ok) (simp_all add: sample_header2_ok)
  with run show ?thesis using parsed_header2_wellformed by blast
qed

text \<open>
  C10.  The LUKS2 parser inverts the JSON encoding of a header: for every well-formed header, if the
  JSON crate parses the text of the area to the document of the header, whose objects are in the order
  in which the crate visits them, and the base64 crate undoes the encoding of byte strings, the parser
  returns the header itself, all keyslots, segments and digests in order.
\<close>

theorem parse2_inverts_json:
  fixes J :: "'n json_api"
  assumes "json_ok J" and "\<And>x. b64_decode J (enc x) = Some x" and "header2_wf h" and "hdr_size h = 16384"
    and "sorted_wrt (<) dids" and "length dids = length (digests h)" and "json_text_ok 12288 json"
    and "from_slice J json = Some (header2_json enc dids h)"
  shows "value_ok (header2_json enc dids h :: 'n Value) \<and> bindR (build_luks2 json) (parse2 J) = Ok h"
proof -
  have "parse2 J (luks2_area 12288 json) = Ok h"
    using parse2_area [OF assms(7) _ assms(8)] header2_of_json [OF assms(1-3,6)] assms(4) by simp
  moreover have "build_luks2 json = Ok (luks2_area 12288 json)"
    using assms(7) by (simp add: build_luks2_def json_text_ok_def)
  ultimately show ?thesis using header2_json_ok [OF assms(3,5,6)] by simp
qed

theorem parse2_inverts_json_witness:
  "bindR (build_luks2 [123, 125]) (parse2 (sample_json (header2_json string_of_bytes [''0''] sample_header2))) = Ok sample_header2"
proof -
  let ?J = "sample_json (header2_json string_of_bytes [''0''] sample_header2)"
  have "from_slice ?J [123, 125] = Some (header2_json string_of_bytes [''0''] sample_header2)" by (simp add: sample_json_def)
  from parse2_inverts_json [OF sample_json_ok sample_header2_ok(1,2) _ _ _ this] show ?thesis
    by (simp add: sample_header2_ok json_text_ok_def)
qed

end
