(* ===== verification/Reader.thy ===== *)
theory Reader
  imports Luks_Error
begin

text \<open>
  The traits \<open>std::io::Read\<close> and \<open>std::io::Seek\<close> as an interface, and the two helpers at the end of
  \<^verbatim>\<open>core/src/volume.rs\<close> that read through it.  A reader is a record of two operations over a
  state; a read returns the bytes that it puts at the front of the buffer, or an error.

  The locale \<open>byte_reader\<close> states what a reader of a fixed byte sequence promises: a read delivers
  the next bytes, at least one unless it is at the end, an error is only ever an interruption and
  interruptions run out; a seek to an absolute position goes there.  Inside it the two helpers are
  proved to return and to deliver what they say.
\<close>

section \<open>Operations\<close>

text \<open>The offset of \<open>End\<close> and \<open>Current\<close> is an \<open>i64\<close>.\<close>

datatype SeekFrom = Start u64 | End "64 word" | Current "64 word"

record 'r reader =
  rd_read :: "'r \<Rightarrow> usize \<Rightarrow> (io_error + bytes) \<times> 'r"
  rd_seek :: "'r \<Rightarrow> SeekFrom \<Rightarrow> (io_error + u64) \<times> 'r"

section \<open>The helpers\<close>

text \<open>
  The loop that \<open>read_available\<close> and \<open>Read::read_exact\<close> share: read into \<open>buf[filled..]\<close> until the
  buffer is full or a read delivers nothing, retrying an interrupted read.  It returns the number of
  bytes and the bytes, or the error; it does not return if the reader is interrupted for ever.  A
  reader that claims more bytes than it was offered makes the index of the next slice panic.
\<close>

partial_function (option) fill_loop ::
  "('r \<Rightarrow> usize \<Rightarrow> (io_error + bytes) \<times> 'r) \<Rightarrow> usize \<Rightarrow> bytes \<Rightarrow> 'r \<Rightarrow> ((bytes, io_error) outcome \<times> 'r) option" where
  "fill_loop rd len done r =
     (if length done < len then
        case rd r (len - length done) of
          (Inr bs, r') \<Rightarrow>
            (if bs = [] then Some (Ok done, r')
             else if len < length done + length bs then Some (Panic ''slice index out of range'', r')
             else fill_loop rd len (done @ bs) r')
        | (Inl e, r') \<Rightarrow>
            (if io_kind e = Interrupted then fill_loop rd len done r' else Some (Err e, r'))
      else Some (Ok done, r))"

text \<open>\<open>read_available\<close>: the count of real bytes and the buffer, zero-filled behind them.\<close>

definition read_available ::
  "('r \<Rightarrow> usize \<Rightarrow> (io_error + bytes) \<times> 'r) \<Rightarrow> usize \<Rightarrow> ('r, LuksError, usize \<times> bytes) prog" where
  "read_available rd len =
     (\<lambda>r. case fill_loop rd len [] r of
        None \<Rightarrow> None
      | Some (Ok done, r') \<Rightarrow> Some (Ok (length done, done @ replicate (len - length done) 0), r')
      | Some (Err e, r') \<Rightarrow> Some (Err (Io e), r')
      | Some (Panic p, r') \<Rightarrow> Some (Panic p, r'))"

definition eof_error :: io_error where
  "eof_error = IoError UnexpectedEof ''failed to fill whole buffer''"

text \<open>\<open>read_fill\<close>: \<open>Read::read_exact\<close>, an error at a premature end.\<close>

definition read_fill ::
  "('r \<Rightarrow> usize \<Rightarrow> (io_error + bytes) \<times> 'r) \<Rightarrow> usize \<Rightarrow> ('r, LuksError, bytes) prog" where
  "read_fill rd len =
     (\<lambda>r. case fill_loop rd len [] r of
        None \<Rightarrow> None
      | Some (Ok done, r') \<Rightarrow>
          (if length done < len then Some (Err (Io eof_error), r') else Some (Ok done, r'))
      | Some (Err e, r') \<Rightarrow> Some (Err (Io e), r')
      | Some (Panic p, r') \<Rightarrow> Some (Panic p, r'))"

text \<open>\<open>reader.seek(pos)?\<close>\<close>

definition seek_to :: "'r reader \<Rightarrow> SeekFrom \<Rightarrow> ('r, LuksError, u64) prog" where
  "seek_to R p =
     (\<lambda>r. case rd_seek R r p of (Inr n, r') \<Rightarrow> Some (Ok n, r') | (Inl e, r') \<Rightarrow> Some (Err (Io e), r'))"

section \<open>The contract\<close>

locale byte_stream =
  fixes rd :: "'r \<Rightarrow> usize \<Rightarrow> (io_error + bytes) \<times> 'r"
    and content :: "'r \<Rightarrow> bytes"
    and pos :: "'r \<Rightarrow> nat"
    and retries :: "'r \<Rightarrow> nat"
    and inv :: "'r \<Rightarrow> bool"
  assumes read_Inr: "inv r \<Longrightarrow> n \<le> isize_MAX \<Longrightarrow> rd r n = (Inr bs, r') \<Longrightarrow>
      inv r' \<and> content r' = content r \<and> retries r' \<le> retries r \<and>
      length bs \<le> n \<and> bs = take (length bs) (drop (pos r) (content r)) \<and>
      pos r' = pos r + length bs \<and> (bs = [] \<longrightarrow> n = 0 \<or> length (content r) \<le> pos r)"
    and read_Inl: "inv r \<Longrightarrow> n \<le> isize_MAX \<Longrightarrow> rd r n = (Inl e, r') \<Longrightarrow>
      io_kind e = Interrupted \<and> inv r' \<and> content r' = content r \<and> pos r' = pos r \<and> retries r' < retries r"
begin

text \<open>The reader has moved, and what it reads from is the same.\<close>

definition same_source :: "'r \<Rightarrow> 'r \<Rightarrow> bool" where
  "same_source r r' \<longleftrightarrow> inv r' \<and> content r' = content r"

lemma fill_loop_spec:
  assumes "inv r" and "length done \<le> len" and "len \<le> isize_MAX"
  defines "bs \<equiv> \<lambda>r done. take (len - length done) (drop (pos r) (content r))"
  shows "\<exists>r'. fill_loop rd len done r = Some (Ok (done @ bs r done), r') \<and> same_source r r' \<and>
      pos r' = pos r + length (bs r done)"
  using assms(1-3)
proof (induction "(len - length done) + retries r" arbitrary: r "done" rule: less_induct)
  case less
  let ?want = "len - length done"
  obtain x r' where rd: "rd r ?want = (x, r')" by fastforce
  have want: "?want \<le> isize_MAX" using less.prems by simp
  consider (full) "\<not> length done < len" | (err) e where "length done < len" "x = Inl e"
    | (eof) "length done < len" "x = Inr []" | (more) xs where "length done < len" "x = Inr xs" "xs \<noteq> []"
    by (cases x) auto
  then show ?case
  proof cases
    case full
    then show ?thesis using less.prems by (subst fill_loop.simps) (simp add: same_source_def bs_def)
  next
    case (err e)
    note law = read_Inl [OF less.prems(1) want rd [unfolded err(2)]]
    have "\<exists>r''. fill_loop rd len done r' = Some (Ok (done @ bs r' done), r'') \<and> same_source r' r'' \<and>
        pos r'' = pos r' + length (bs r' done)"
      using law less.prems by (intro less.hyps) auto
    then show ?thesis using law rd err by (subst fill_loop.simps) (auto simp: same_source_def bs_def)
  next
    case eof
    with read_Inr [OF less.prems(1) want rd [unfolded eof(2)]] rd show ?thesis
      by (subst fill_loop.simps) (auto simp: same_source_def bs_def)
  next
    case (more xs)
    note law = read_Inr [OF less.prems(1) want rd [unfolded more(2)]]
    then have xs: "xs = take (length xs) (drop (pos r) (content r))" "length xs \<le> ?want" "retries r' \<le> retries r" by auto
    have "0 < length xs" using more(3) by simp
    then have dec: "(len - length (done @ xs)) + retries r' < ?want + retries r"
      using xs(2,3) more(1) unfolding length_append by linarith
    have "\<exists>r''. fill_loop rd len (done @ xs) r' = Some (Ok ((done @ xs) @ bs r' (done @ xs)), r'') \<and> same_source r' r'' \<and>
        pos r'' = pos r' + length (bs r' (done @ xs))"
      using law less.prems xs(2) more(1) by (intro less.hyps [OF dec]) auto
    moreover have "xs @ take (?want - length xs) (drop (pos r + length xs) (content r)) = take ?want (drop (pos r) (content r))"
      using xs by (metis add.commute drop_drop le_add_diff_inverse take_add)
    then have "bs r done = xs @ bs r' (done @ xs)" using law by (simp add: bs_def)
    ultimately show ?thesis
      using law rd more xs(2) by (subst fill_loop.simps) (auto simp: same_source_def)
  qed
qed

text \<open>What lies at a position, as far as the content goes.\<close>

definition available :: "'r \<Rightarrow> nat \<Rightarrow> bytes" where
  "available r n = take n (drop (pos r) (content r))"

lemma length_available [simp]: "length (available r n) = min n (length (content r) - pos r)"
  by (simp add: available_def min.commute)

lemma read_available_moves:
  assumes "inv r" and "len \<le> isize_MAX"
  shows "\<exists>r'. read_available rd len r =
      Some (Ok (length (available r len), available r len @ replicate (len - length (available r len)) 0), r')
      \<and> same_source r r' \<and> pos r' = pos r + length (available r len)"
  using fill_loop_spec [OF assms(1) _ assms(2), of "[]"]
  by (auto simp: read_available_def available_def)

lemma read_available_spec:
  assumes "inv r" and "len \<le> isize_MAX"
  shows "\<exists>r'. read_available rd len r =
      Some (Ok (length (available r len), available r len @ replicate (len - length (available r len)) 0), r')
      \<and> same_source r r'"
  using read_available_moves [OF assms] by blast

lemma read_fill_moves:
  assumes "inv r" and "len \<le> isize_MAX"
  shows "\<exists>r'. read_fill rd len r =
      Some (if length (available r len) = len then Ok (available r len) else Err (Io eof_error), r') \<and>
      same_source r r' \<and> pos r' = pos r + length (available r len)"
  using fill_loop_spec [OF assms(1) _ assms(2), of "[]"]
  by (auto simp: read_fill_def available_def)

lemma read_fill_spec:
  assumes "inv r" and "len \<le> isize_MAX"
  shows "\<exists>r'. read_fill rd len r =
      Some (if pos r + len \<le> length (content r) \<or> len = 0 then Ok (available r len)
            else Err (Io eof_error), r') \<and> same_source r r'"
proof -
  have "length (available r len) = len \<longleftrightarrow> pos r + len \<le> length (content r) \<or> len = 0" by auto
  with read_fill_moves [OF assms] show ?thesis by auto
qed

end

text \<open>The same with \<open>Seek\<close>.\<close>

locale byte_reader = byte_stream "rd_read R" content pos retries inv
  for R :: "'r reader"
    and content :: "'r \<Rightarrow> bytes"
    and pos :: "'r \<Rightarrow> nat"
    and retries :: "'r \<Rightarrow> nat"
    and inv :: "'r \<Rightarrow> bool" +
  assumes seek_Start: "inv r \<Longrightarrow> \<exists>r'. rd_seek R r (Start p) = (Inr p, r') \<and>
      inv r' \<and> content r' = content r \<and> pos r' = unat p"
    and seek_End: "inv r \<Longrightarrow> \<exists>r'. rd_seek R r (End 0) = (Inr (of_nat (length (content r))), r') \<and>
      inv r' \<and> content r' = content r \<and> pos r' = length (content r)"
    and content_bound: "inv r \<Longrightarrow> length (content r) \<le> u64_MAX"
begin

lemma seek_to_Start:
  assumes "inv r"
  shows "\<exists>r'. seek_to R (Start p) r = Some (Ok p, r') \<and> same_source r r' \<and> pos r' = unat p"
  using seek_Start [OF assms, of p] by (auto simp: seek_to_def same_source_def)

lemma seek_to_End:
  assumes "inv r"
  shows "\<exists>r'. seek_to R (End 0) r = Some (Ok (of_nat (length (content r))), r') \<and> same_source r r'"
  using seek_End [OF assms] by (auto simp: seek_to_def same_source_def)

end

section \<open>Readers\<close>

text \<open>\<open>std::io::Cursor<Vec<u8>>\<close>.\<close>

record cursor =
  cur_data :: bytes
  cur_pos :: u64

definition cursor_new :: "bytes \<Rightarrow> cursor" where
  "cursor_new data = \<lparr>cur_data = data, cur_pos = 0\<rparr>"

definition cursor_read :: "cursor \<Rightarrow> usize \<Rightarrow> (io_error + bytes) \<times> cursor" where
  "cursor_read c n =
     (let bs = take n (drop (unat (cur_pos c)) (cur_data c)) in
      (Inr bs, c\<lparr>cur_pos := cur_pos c + of_nat (length bs)\<rparr>))"

definition cursor_seek :: "cursor \<Rightarrow> SeekFrom \<Rightarrow> (io_error + u64) \<times> cursor" where
  "cursor_seek c p =
     (let target = (case p of
          Start n \<Rightarrow> uint n
        | End d \<Rightarrow> int (length (cur_data c)) + sint d
        | Current d \<Rightarrow> uint (cur_pos c) + sint d) in
      if 0 \<le> target \<and> target < 2 ^ 64
        then (Inr (word_of_int target), c\<lparr>cur_pos := word_of_int target\<rparr>)
        else (Inl (IoError InvalidInput ''invalid seek to a negative or overflowing position''), c))"

definition cursor_reader :: "cursor reader" where
  "cursor_reader = \<lparr>rd_read = cursor_read, rd_seek = cursor_seek\<rparr>"

abbreviation cursor_inv :: "cursor \<Rightarrow> bool" where
  "cursor_inv c \<equiv> length (cur_data c) \<le> isize_MAX"

interpretation cursor: byte_reader cursor_reader cur_data "\<lambda>c. unat (cur_pos c)" "\<lambda>_. 0" cursor_inv
proof unfold_locales
  fix c n bs c'
  assume inv: "cursor_inv c" and rd: "rd_read cursor_reader c n = (Inr bs, c')"
  then have bs: "bs = take n (drop (unat (cur_pos c)) (cur_data c))"
    and c': "c' = c\<lparr>cur_pos := cur_pos c + of_nat (length bs)\<rparr>"
    by (auto simp: cursor_reader_def cursor_read_def Let_def)
  have "unat (cur_pos c) + length bs < 2 ^ 64"
    using inv bs unsigned_less [of "cur_pos c", where 'a = nat] by (cases "unat (cur_pos c) \<le> length (cur_data c)") auto
  then have "unat (cur_pos c + of_nat (length bs)) = unat (cur_pos c) + length bs"
    by (simp add: unat_word_ariths unat_of_nat)
  with inv bs c' show "cursor_inv c' \<and> cur_data c' = cur_data c \<and> (0::nat) \<le> 0 \<and> length bs \<le> n \<and>
      bs = take (length bs) (drop (unat (cur_pos c)) (cur_data c)) \<and>
      unat (cur_pos c') = unat (cur_pos c) + length bs \<and>
      (bs = [] \<longrightarrow> n = 0 \<or> length (cur_data c) \<le> unat (cur_pos c))"
    by (auto simp: min_def)
next
  fix c p
  show "\<exists>c'. rd_seek cursor_reader c (Start p) = (Inr p, c') \<and> cursor_inv c' \<and>
      cur_data c' = cur_data c \<and> unat (cur_pos c') = unat p" if "cursor_inv c"
    using that uint_lt2p [of p] by (simp add: cursor_reader_def cursor_seek_def)
next
  fix c assume "cursor_inv c"
  then show "\<exists>c'. rd_seek cursor_reader c (End 0) = (Inr (of_nat (length (cur_data c))), c') \<and>
      cursor_inv c' \<and> cur_data c' = cur_data c \<and> unat (cur_pos c') = length (cur_data c)"
    by (simp add: cursor_reader_def cursor_seek_def unat_of_nat)
qed (auto simp: cursor_reader_def cursor_read_def Let_def)

text \<open>The test reader \<open>InterruptOnce\<close>: one interruption, then the end.\<close>

fun interrupt_once :: "bool \<Rightarrow> usize \<Rightarrow> (io_error + bytes) \<times> bool" where
  "interrupt_once b n =
     (if b then (Inr [], b) else (Inl (IoError Interrupted ''operation interrupted''), True))"

interpretation interrupt_once: byte_stream interrupt_once "\<lambda>_. []" "\<lambda>_. 0" "\<lambda>b. if b then 0 else 1" "\<lambda>_. True"
  by unfold_locales (auto split: if_splits)

text \<open>The test reader \<open>AlwaysError\<close>, which breaks the contract.\<close>

definition always_error :: "unit \<Rightarrow> usize \<Rightarrow> (io_error + bytes) \<times> unit" where
  "always_error u n = (Inl (IoError OtherKind ''boom''), u)"

section \<open>Properties\<close>

text \<open>
  Reading what is available from an in-memory container returns, counts the bytes that exist
  between the position and the end, up to the length asked for, delivers exactly those, and fills
  the rest of the buffer with zeros.  \<open>read_exact\<close> delivers all of them or reports a premature end.
\<close>

lemma available_bytes_of_cursor:
  assumes "length (cur_data c) \<le> isize_MAX" and "len \<le> isize_MAX"
  defines "bs \<equiv> take len (drop (unat (cur_pos c)) (cur_data c))"
  shows "(\<exists>c'. read_available cursor_read len c = Some (Ok (length bs, bs @ replicate (len - length bs) 0), c') \<and>
       cur_data c' = cur_data c) \<and>
     (\<exists>c'. read_fill cursor_read len c =
        Some (if length bs = len then Ok bs else Err (Io eof_error), c') \<and> cur_data c' = cur_data c)"
proof -
  have rd: "rd_read cursor_reader = cursor_read" by (simp add: cursor_reader_def)
  have full: "(length bs = len) = (unat (cur_pos c) + len \<le> length (cur_data c) \<or> len = 0)"
    by (auto simp: bs_def)
  show ?thesis
    using cursor.read_available_spec [OF assms(1,2)] cursor.read_fill_spec [OF assms(1,2)]
    unfolding cursor.available_def cursor.same_source_def rd full [unfolded bs_def] bs_def by blast
qed

lemma available_bytes_of_cursor_witness:
  "(\<exists>c'. read_available cursor_read 4 \<lparr>cur_data = [1, 2, 3], cur_pos = 1\<rparr> = Some (Ok (2, [2, 3] @ replicate 2 0), c')) \<and>
   (\<exists>c'. read_fill cursor_read 4 \<lparr>cur_data = [1, 2, 3], cur_pos = 1\<rparr> = Some (Err (Io eof_error), c'))"
  using available_bytes_of_cursor [of "\<lparr>cur_data = [1, 2, 3], cur_pos = 1\<rparr>" 4]
  by (simp add: numeral_2_eq_2) blast

text \<open>
  A reader that is interrupted and delivers single bytes at will: the schedule says what each of its
  next reads does, and behind the schedule it reads as the cursor.
\<close>

fun flaky_read :: "bool list \<times> cursor \<Rightarrow> usize \<Rightarrow> (io_error + bytes) \<times> (bool list \<times> cursor)" where
  "flaky_read (True # sched, c) n = (Inl (IoError Interrupted ''operation interrupted''), (sched, c))"
| "flaky_read (False # sched, c) n = (let (x, c') = cursor_read c (min 1 n) in (x, (sched, c')))"
| "flaky_read ([], c) n = (let (x, c') = cursor_read c n in (x, ([], c')))"

lemma cursor_read_laws:
  assumes "cursor_inv c" and "n \<le> isize_MAX" and "cursor_read c n = (Inr bs, c')"
  shows "cursor_inv c' \<and> cur_data c' = cur_data c \<and> length bs \<le> n \<and> bs = take (length bs) (drop (unat (cur_pos c)) (cur_data c)) \<and>
     unat (cur_pos c') = unat (cur_pos c) + length bs \<and> (bs = [] \<longrightarrow> n = 0 \<or> length (cur_data c) \<le> unat (cur_pos c))"
  using cursor.read_Inr [of c n bs c'] assms by (simp add: cursor_reader_def)

interpretation flaky: byte_stream flaky_read "\<lambda>(s, c). cur_data c" "\<lambda>(s, c). unat (cur_pos c)" "\<lambda>(s, c). length s" "\<lambda>(s, c). cursor_inv c"
proof unfold_locales
  fix r n bs r'
  assume inv: "case r of (s, c) \<Rightarrow> cursor_inv c" and n: "n \<le> isize_MAX" and rd: "flaky_read r n = (Inr bs, r')"
  from rd obtain k c c' where "k = n \<or> k = min 1 n" "snd r = c" "snd r' = c'" "cursor_read c k = (Inr bs, c')"
    "length (fst r') \<le> length (fst r)"
    by (cases "(r, n)" rule: flaky_read.cases) (auto split: prod.splits, blast+)
  moreover from this have "k \<le> isize_MAX" "k \<le> n" "k = 0 \<longleftrightarrow> n = 0" using n by auto
  ultimately show "(case r' of (s, c) \<Rightarrow> cursor_inv c) \<and> (case r' of (s, c) \<Rightarrow> cur_data c) = (case r of (s, c) \<Rightarrow> cur_data c) \<and>
     (case r' of (s, c) \<Rightarrow> length s) \<le> (case r of (s, c) \<Rightarrow> length s) \<and> length bs \<le> n \<and>
     bs = take (length bs) (drop (case r of (s, c) \<Rightarrow> unat (cur_pos c)) (case r of (s, c) \<Rightarrow> cur_data c)) \<and>
     (case r' of (s, c) \<Rightarrow> unat (cur_pos c)) = (case r of (s, c) \<Rightarrow> unat (cur_pos c)) + length bs \<and>
     (bs = [] \<longrightarrow> n = 0 \<or> length (case r of (s, c) \<Rightarrow> cur_data c) \<le> (case r of (s, c) \<Rightarrow> unat (cur_pos c)))"
    using cursor_read_laws [of c k bs c'] inv by (cases r; cases r') auto
next
  fix r n e r'
  assume "case r of (s, c) \<Rightarrow> cursor_inv c" and "flaky_read r n = (Inl e, r')"
  then show "io_kind e = Interrupted \<and> (case r' of (s, c) \<Rightarrow> cursor_inv c) \<and>
     (case r' of (s, c) \<Rightarrow> cur_data c) = (case r of (s, c) \<Rightarrow> cur_data c) \<and>
     (case r' of (s, c) \<Rightarrow> unat (cur_pos c)) = (case r of (s, c) \<Rightarrow> unat (cur_pos c)) \<and>
     (case r' of (s, c) \<Rightarrow> length s) < (case r of (s, c) \<Rightarrow> length s)"
    by (cases "(r, n)" rule: flaky_read.cases) (auto simp: cursor_read_def Let_def split: prod.splits)
qed

text \<open>
  C33.  Interruptions and short reads do not lose bytes.  Over every reader that keeps the contract of
  \<open>std::io::Read\<close>, however often it is interrupted and however few bytes a read delivers, both helpers
  return as long as the interruptions run out: \<open>read_available\<close> delivers exactly the bytes between the
  position and the end, up to the length asked for, counts them and fills the rest of the buffer with
  zeros; \<open>read_fill\<close> delivers them when they fill the buffer and otherwise reports a premature end; and
  the reader stands behind the bytes that were delivered.
\<close>

theorem interrupted_reads_are_retried:
  assumes "byte_stream rd content pos retries ready" and "ready r" and "len \<le> isize_MAX"
  defines "bs \<equiv> take len (drop (pos r) (content r))"
  shows "(\<exists>r'. read_available rd len r = Some (Ok (length bs, bs @ replicate (len - length bs) 0), r') \<and>
       content r' = content r \<and> pos r' = pos r + length bs) \<and>
     (\<exists>r'. read_fill rd len r = Some (if length bs = len then Ok bs else Err (Io eof_error), r') \<and>
       content r' = content r \<and> pos r' = pos r + length bs)"
  using byte_stream.read_available_moves [OF assms(1-3)] byte_stream.read_fill_moves [OF assms(1-3)]
  unfolding bs_def byte_stream.available_def [OF assms(1)] byte_stream.same_source_def [OF assms(1)] by blast

theorem interrupted_reads_are_retried_witness:
  "(\<exists>r'. read_available flaky_read 4 ([True, False, True, True], \<lparr>cur_data = [1, 2, 3], cur_pos = 1\<rparr>) =
     Some (Ok (2, [2, 3, 0, 0]), r')) \<and>
   (\<exists>r'. read_fill flaky_read 2 ([True, False, True, True], \<lparr>cur_data = [1, 2, 3], cur_pos = 1\<rparr>) = Some (Ok [2, 3], r'))"
  using interrupted_reads_are_retried [OF flaky.byte_stream_axioms, of "([True, False, True, True], \<lparr>cur_data = [1, 2, 3], cur_pos = 1\<rparr>)" 4]
    interrupted_reads_are_retried [OF flaky.byte_stream_axioms, of "([True, False, True, True], \<lparr>cur_data = [1, 2, 3], cur_pos = 1\<rparr>)" 2]
  by (simp add: numeral_2_eq_2) blast

text \<open>The test reader \<open>InterruptOnce\<close> is such a reader, without bytes.\<close>

lemma interrupt_once_is_retried: "len \<le> isize_MAX \<Longrightarrow> \<exists>b. read_available interrupt_once len False = Some (Ok (0, replicate len 0), b)"
  using interrupt_once.read_available_spec [where r = False and len = len] by (auto simp: interrupt_once.available_def)

text \<open>Any other error ends the loop and is passed on as an I/O error, as the test reader \<open>AlwaysError\<close> shows.\<close>

lemma hard_error_is_reported:
  assumes "rd r len = (Inl e, r')" and "io_kind e \<noteq> Interrupted" and "0 < len"
  shows "read_available rd len r = Some (Err (Io e), r') \<and> read_fill rd len r = Some (Err (Io e), r')"
  using assms by (simp add: read_available_def read_fill_def fill_loop.simps [of rd len "[]" r])

lemma always_error_is_reported:
  "read_available always_error 4 () = Some (Err (Io (IoError OtherKind ''boom'')), ())"
  using hard_error_is_reported [of always_error "()" 4 "IoError OtherKind ''boom''" "()"]
  by (simp add: always_error_def)

end
