(* ===== verification/Volume.thy ===== *)
theory Volume
  imports Crypto Header2 Reader
begin

text \<open>
  \<^verbatim>\<open>core/src/volume.rs\<close>, first part: unlocking a container.  The state of a run is a \<open>world\<close>: the
  clock and the state of the reader.  The crypto crates \<open>C\<close>, the JSON crates \<open>J\<close> and the reader
  \<open>R\<close> are parameters.
\<close>

section \<open>Data\<close>

record 'r world = clock +
  rd_state :: 'r

text \<open>A program over the reader alone.\<close>

definition with_reader :: "('r, 'e, 'a) prog \<Rightarrow> ('r world, 'e, 'a) prog" where
  "with_reader m = (\<lambda>w. case m (rd_state w) of
      None \<Rightarrow> None
    | Some (x, r) \<Rightarrow> Some (x, w\<lparr>rd_state := r\<rparr>))"

definition the_reader :: "('r world, 'e, 'r) prog" where
  "the_reader = (\<lambda>w. Some (Ok (rd_state w), w))"

record VolumeInfo =
  info_version :: u16
  info_cipher_name :: string
  info_cipher_mode :: string
  info_key_bytes :: u32
  info_sector_size :: usize

record 'r DecryptedPayload =
  dp_reader :: 'r
  dp_master_key :: bytes
  dp_cipher_mode :: string
  dp_payload_offset :: u64
  dp_sector_size :: usize
  dp_iv_tweak :: u128
  dp_total_size :: u64
  dp_position :: u64
  dp_info :: VolumeInfo

definition split_encryption :: "string \<Rightarrow> string \<times> string" where
  "split_encryption enc =
     (case split_once (CHR ''-'') enc of
        Some (name, mode) \<Rightarrow> (name, mode)
      | None \<Rightarrow> (enc, []))"

section \<open>The deadline\<close>

record UnlockDeadline =
  started :: instant
  total :: duration

definition UnlockDeadline_new :: "duration \<Rightarrow> ('x clock_scheme, LuksError, UnlockDeadline) prog" where
  "UnlockDeadline_new budget = bindM instant_now (\<lambda>n. ret \<lparr>started = n, total = budget\<rparr>)"

definition remaining :: "UnlockDeadline \<Rightarrow> usize \<Rightarrow> ('x clock_scheme, LuksError, duration) prog" where
  "remaining d tried =
     bindM (elapsed (started d)) (\<lambda>e.
     let left = (if e \<le> total d then Some (total d - e) else None) in
     liftR (ok_or (map_option (\<lambda>l. min l DERIVATION_BUDGET)
                     (case left of Some l \<Rightarrow> if l = 0 then None else Some l | None \<Rightarrow> None))
              (UnlockBudgetExceeded tried (as_secs (total d)))))"

section \<open>LUKS1\<close>

text \<open>The loop over the active keyslots, paired with their index.\<close>

fun recover_loop1 ::
  "crypto_api \<Rightarrow> 'r reader \<Rightarrow> Luks1Header \<Rightarrow> bytes \<Rightarrow> usize \<Rightarrow> UnlockDeadline \<Rightarrow>
   (usize \<times> Keyslot) list \<Rightarrow> ('r world, LuksError, bytes) prog" where
  "recover_loop1 C R h passphrase kb dl [] = fail AuthenticationFailed"
| "recover_loop1 C R h passphrase kb dl ((tried, slot) # slots) =
     bindM (remaining dl tried) (\<lambda>left1.
     bindM (derive_key_within C (hash_spec h) passphrase (salt slot) (iterations slot) kb left1) (\<lambda>slot_key.
     bindM (liftR (material_len kb (unat (stripes slot)))) (\<lambda>mlen.
     bindM (liftR (vec_zeroed mlen)) (\<lambda>_.
     bindM (liftR (chk_mul (ucast (key_material_offset slot)) SECTOR)) (\<lambda>off.
     bindM (with_reader (seek_to R (Start off))) (\<lambda>_.
     bindM (with_reader (read_available (rd_read R) mlen)) (\<lambda>(n, material).
     if n < mlen then recover_loop1 C R h passphrase kb dl slots
     else
     bindM (liftR (xts_decrypt_area C (cipher_mode h) slot_key material 512 0)) (\<lambda>plain.
     bindM (liftR (merge C (hash_spec h) plain kb (unat (stripes slot)))) (\<lambda>candidate.
     bindM (remaining dl tried) (\<lambda>left2.
     bindM (derive_key_within C (hash_spec h) candidate (mk_digest_salt h) (mk_digest_iter h)
              MK_DIGEST_LEN left2) (\<lambda>dig.
     if dig = mk_digest h then ret candidate
     else recover_loop1 C R h passphrase kb dl slots)))))))))))"

definition recover_master_key1 ::
  "crypto_api \<Rightarrow> 'r reader \<Rightarrow> Luks1Header \<Rightarrow> bytes \<Rightarrow> usize \<Rightarrow> UnlockDeadline \<Rightarrow>
   ('r world, LuksError, bytes) prog" where
  "recover_master_key1 C R h passphrase kb dl =
     recover_loop1 C R h passphrase kb dl (List.enumerate 0 (active_keyslots h))"

definition unlock1_inner ::
  "crypto_api \<Rightarrow> 'r reader \<Rightarrow> bytes \<Rightarrow> UnlockDeadline \<Rightarrow>
   ('r world, LuksError, 'r DecryptedPayload) prog" where
  "unlock1_inner C R passphrase dl =
     bindM (liftR (vec_zeroed LUKS1_PHDR_LEN)) (\<lambda>_.
     bindM (with_reader (seek_to R (Start 0))) (\<lambda>_.
     bindM (with_reader (read_fill (rd_read R) LUKS1_PHDR_LEN)) (\<lambda>hdr_buf.
     bindM (liftR (Header1.parse hdr_buf)) (\<lambda>h.
     if active_keyslots h = [] then fail NoActiveKeyslot
     else
     bindM (recover_master_key1 C R h passphrase (unat (key_bytes h)) dl) (\<lambda>mk.
     bindM (with_reader (seek_to R (End 0))) (\<lambda>total_size.
     bindM (liftR (payload_byte_offset h)) (\<lambda>poff.
     bindM the_reader (\<lambda>r.
     ret \<lparr>dp_reader = r, dp_master_key = mk, dp_cipher_mode = cipher_mode h,
          dp_payload_offset = poff, dp_sector_size = unat SECTOR, dp_iv_tweak = 0,
          dp_total_size = total_size, dp_position = 0,
          dp_info = \<lparr>info_version = 1, info_cipher_name = cipher_name h,
            info_cipher_mode = cipher_mode h, info_key_bytes = key_bytes h,
            info_sector_size = unat SECTOR\<rparr>\<rparr>))))))))"

definition unlock1_with_passphrase_within ::
  "crypto_api \<Rightarrow> 'r reader \<Rightarrow> bytes \<Rightarrow> duration \<Rightarrow> ('r world, LuksError, 'r DecryptedPayload) prog" where
  "unlock1_with_passphrase_within C R passphrase budget =
     bindM (UnlockDeadline_new budget) (unlock1_inner C R passphrase)"

definition unlock1_with_passphrase ::
  "crypto_api \<Rightarrow> 'r reader \<Rightarrow> bytes \<Rightarrow> ('r world, LuksError, 'r DecryptedPayload) prog" where
  "unlock1_with_passphrase C R passphrase =
     bindM (UnlockDeadline_new UNLOCK_BUDGET) (unlock1_inner C R passphrase)"

section \<open>LUKS2\<close>

text \<open>The match on the KDF of a keyslot, with the allowance that its argument computes.\<close>

definition derive_slot_key ::
  "crypto_api \<Rightarrow> bytes \<Rightarrow> Luks2Keyslot \<Rightarrow> duration \<Rightarrow> ('x clock_scheme, LuksError, bytes) prog" where
  "derive_slot_key C passphrase slot left =
     (case kdf slot of
        Argon2 knd t m c slt \<Rightarrow>
          derive_key_argon2_within C
            \<lparr>kind = knd, time = t, memory = m, cpus = c, argon_salt = slt\<rparr> passphrase (key_size slot) left
      | Pbkdf2 h iters slt \<Rightarrow> derive_key_within C h passphrase slt iters (key_size slot) left)"

text \<open>The loop over the digests: the first that refers to the keyslot and matches accepts.\<close>

fun check_digests ::
  "crypto_api \<Rightarrow> UnlockDeadline \<Rightarrow> usize \<Rightarrow> string \<Rightarrow> bytes \<Rightarrow> Luks2Digest list \<Rightarrow>
   ('x clock_scheme, LuksError, bool) prog" where
  "check_digests C dl tried sid candidate [] = ret False"
| "check_digests C dl tried sid candidate (dig # digs) =
     (if digest_kind dig = ''pbkdf2'' \<and> list_ex (\<lambda>k. k = sid) (digest_keyslots dig) then
        bindM (remaining dl tried) (\<lambda>left.
        bindM (derive_key_within C (digest_hash dig) candidate (digest_salt dig) (digest_iterations dig)
                 (length (digest_value dig)) left) (\<lambda>d.
        if d = digest_value dig then ret True
        else check_digests C dl tried sid candidate digs))
      else check_digests C dl tried sid candidate digs)"

fun recover_loop2 ::
  "crypto_api \<Rightarrow> 'r reader \<Rightarrow> Luks2Header \<Rightarrow> bytes \<Rightarrow> UnlockDeadline \<Rightarrow>
   (usize \<times> Luks2Keyslot) list \<Rightarrow> ('r world, LuksError, bytes) prog" where
  "recover_loop2 C R h passphrase dl [] = fail AuthenticationFailed"
| "recover_loop2 C R h passphrase dl ((tried, slot) # slots) =
     bindM (remaining dl tried) (\<lambda>left.
     bindM (derive_slot_key C passphrase slot left) (\<lambda>slot_key.
     let area_mode = snd (split_encryption (area_encryption slot)) in
     bindM (liftR (material_len (key_size slot) (unat (af_stripes slot)))) (\<lambda>mlen.
     bindM (liftR (vec_zeroed mlen)) (\<lambda>_.
     bindM (with_reader (seek_to R (Start (area_offset slot)))) (\<lambda>_.
     bindM (with_reader (read_available (rd_read R) mlen)) (\<lambda>(n, material).
     if n < mlen then recover_loop2 C R h passphrase dl slots
     else
     bindM (liftR (xts_decrypt_area C area_mode slot_key material 512 0)) (\<lambda>plain.
     bindM (liftR (merge C (af_hash slot) plain (key_size slot) (unat (af_stripes slot)))) (\<lambda>candidate.
     bindM (check_digests C dl tried (slot_id slot) candidate (digests h)) (\<lambda>ok.
     if ok then ret candidate
     else recover_loop2 C R h passphrase dl slots)))))))))"

definition recover_master_key2 ::
  "crypto_api \<Rightarrow> 'r reader \<Rightarrow> Luks2Header \<Rightarrow> bytes \<Rightarrow> UnlockDeadline \<Rightarrow>
   ('r world, LuksError, bytes) prog" where
  "recover_master_key2 C R h passphrase dl =
     recover_loop2 C R h passphrase dl (List.enumerate 0 (keyslots2 h))"

definition unlock2_inner ::
  "crypto_api \<Rightarrow> 'n json_api \<Rightarrow> 'r reader \<Rightarrow> bytes \<Rightarrow> UnlockDeadline \<Rightarrow>
   ('r world, LuksError, 'r DecryptedPayload) prog" where
  "unlock2_inner C J R passphrase dl =
     bindM (liftR (vec_zeroed LUKS2_BIN_HDR_LEN)) (\<lambda>_.
     bindM (with_reader (seek_to R (Start 0))) (\<lambda>_.
     bindM (with_reader (read_fill (rd_read R) LUKS2_BIN_HDR_LEN)) (\<lambda>bin.
     bindM (liftR (be_u64 bin 8)) (\<lambda>hs.
     let hsize = unat (max hs (of_nat LUKS2_BIN_HDR_LEN)) in
     bindM (liftR (vec_zeroed hsize)) (\<lambda>_.
     bindM (with_reader (seek_to R (Start 0))) (\<lambda>_.
     bindM (with_reader (read_available (rd_read R) hsize)) (\<lambda>(n, full).
     bindM (liftR (parse2 J full)) (\<lambda>h.
     bindM (liftR (ok_or (crypt_segment h) NoActiveKeyslot)) (\<lambda>seg.
     if keyslots2 h = [] then fail NoActiveKeyslot
     else
     bindM (recover_master_key2 C R h passphrase dl) (\<lambda>mk.
     bindM (with_reader (seek_to R (End 0))) (\<lambda>total_size.
     let (cname, cmode) = split_encryption (encryption seg) in
     bindM the_reader (\<lambda>r.
     ret \<lparr>dp_reader = r, dp_master_key = mk, dp_cipher_mode = cmode,
          dp_payload_offset = segment_offset seg, dp_sector_size = max (segment_sector_size seg) 512,
          dp_iv_tweak = iv_tweak seg, dp_total_size = total_size, dp_position = 0,
          dp_info = \<lparr>info_version = 2, info_cipher_name = cname,
            info_cipher_mode = cmode, info_key_bytes = of_nat (length mk),
            info_sector_size = max (segment_sector_size seg) 512\<rparr>\<rparr>))))))))))))"

definition unlock2_with_passphrase_within ::
  "crypto_api \<Rightarrow> 'n json_api \<Rightarrow> 'r reader \<Rightarrow> bytes \<Rightarrow> duration \<Rightarrow>
   ('r world, LuksError, 'r DecryptedPayload) prog" where
  "unlock2_with_passphrase_within C J R passphrase budget =
     bindM (UnlockDeadline_new budget) (unlock2_inner C J R passphrase)"

definition unlock2_with_passphrase ::
  "crypto_api \<Rightarrow> 'n json_api \<Rightarrow> 'r reader \<Rightarrow> bytes \<Rightarrow> ('r world, LuksError, 'r DecryptedPayload) prog" where
  "unlock2_with_passphrase C J R passphrase =
     bindM (UnlockDeadline_new UNLOCK_BUDGET) (unlock2_inner C J R passphrase)"

section \<open>Version dispatch\<close>

definition unlock_with_passphrase_within ::
  "crypto_api \<Rightarrow> 'n json_api \<Rightarrow> 'r reader \<Rightarrow> bytes \<Rightarrow> duration \<Rightarrow>
   ('r world, LuksError, 'r DecryptedPayload) prog" where
  "unlock_with_passphrase_within C J R passphrase budget =
     bindM (with_reader (seek_to R (Start 0))) (\<lambda>_.
     bindM (with_reader (read_fill (rd_read R) 8)) (\<lambda>ver.
     bindM (with_reader (seek_to R (Start 0))) (\<lambda>_.
     bindM (liftR (be_u16 ver 6)) (\<lambda>v.
     if v = 1 then unlock1_with_passphrase_within C R passphrase budget
     else if v = 2 then unlock2_with_passphrase_within C J R passphrase budget
     else if starts_with ver LUKS_MAGIC then fail (UnsupportedVersion v)
     else bindM (liftR (bytes_n 6 ver 0)) (\<lambda>found. fail (NotLuks found))))))"

definition unlock_with_passphrase ::
  "crypto_api \<Rightarrow> 'n json_api \<Rightarrow> 'r reader \<Rightarrow> bytes \<Rightarrow> ('r world, LuksError, 'r DecryptedPayload) prog" where
  "unlock_with_passphrase C J R passphrase =
     unlock_with_passphrase_within C J R passphrase UNLOCK_BUDGET"

end
