(* ===== verification/Payload.thy ===== *)
theory Payload
  imports Volume
begin

text \<open>
  \<^verbatim>\<open>core/src/volume.rs\<close>, second part: \<open>DecryptedPayload\<close>, the plaintext view of an unlocked
  container, with its positioned read and its implementations of \<open>Read\<close> and \<open>Seek\<close>.  The payload
  over any reader that keeps the contract \<open>byte_reader\<close> keeps the contract itself, with the
  plaintext as its content.
\<close>

section \<open>Operations\<close>

definition info :: "'r DecryptedPayload \<Rightarrow> VolumeInfo" where
  "info p = dp_info p"

definition master_key :: "'r DecryptedPayload \<Rightarrow> bytes" where
  "master_key p = dp_master_key p"

definition payload_size :: "'r DecryptedPayload \<Rightarrow> u64" where
  "payload_size p = sat_sub (dp_total_size p) (dp_payload_offset p)"

text \<open>A program over \<open>self.reader\<close>.\<close>

definition on_reader :: "('r, 'e, 'a) prog \<Rightarrow> ('r DecryptedPayload, 'e, 'a) prog" where
  "on_reader m = (\<lambda>p. case m (dp_reader p) of
      None \<Rightarrow> None
    | Some (x, r) \<Rightarrow> Some (x, p\<lparr>dp_reader := r\<rparr>))"

text \<open>
  One pass of the loop of \<open>read_at\<close>: the buffer and \<open>done\<close> after it.  The argument \<open>p\<close> is \<open>self\<close> at
  the start of the pass; of its fields only the reader changes.
\<close>

definition read_pass ::
  "crypto_api \<Rightarrow> 'r reader \<Rightarrow> 'r DecryptedPayload \<Rightarrow> u64 \<Rightarrow> bytes \<Rightarrow> usize \<Rightarrow>
   ('r DecryptedPayload, LuksError, bytes \<times> usize) prog" where
  "read_pass C R p offset buf dn =
     (let ss = of_nat (dp_sector_size p) :: u64;
          step = of_nat (max (dp_sector_size p div 512) 1) :: u128
      in
      bindM (liftR (chk_add offset (of_nat dn))) (\<lambda>pos.
      if ss = 0 then liftR (Panic ''attempt to divide by zero'')
      else
      let unit = pos div ss;
          within = unat (pos mod ss)
      in
      bindM (liftR (chk_mul unit ss)) (\<lambda>rel.
      bindM (liftR (chk_add (dp_payload_offset p) rel)) (\<lambda>physical.
      bindM (liftR (vec_zeroed (dp_sector_size p))) (\<lambda>_.
      bindM (on_reader (seek_to R (Start physical))) (\<lambda>_.
      bindM (on_reader (read_available (rd_read R) (dp_sector_size p))) (\<lambda>(_, ct).
      bindM (liftR (chk_mul (ucast unit) step)) (\<lambda>t.
      bindM (liftR (chk_add (dp_iv_tweak p) t)) (\<lambda>tweak.
      bindM (liftR (xts_decrypt_area C (dp_cipher_mode p) (dp_master_key p) ct (dp_sector_size p) tweak)) (\<lambda>plain.
      bindM (liftR (usize_sub (dp_sector_size p) within)) (\<lambda>rest.
      let tk = min rest (length buf - dn) in
      bindM (liftR (slice_index plain within (within + tk))) (\<lambda>bs.
      bindM (liftR (copy_into buf dn (dn + tk) bs)) (\<lambda>buf'.
      ret (buf', dn + tk))))))))))))))"

text \<open>
  The loop.  The buffer is returned with the outcome; on an error the source leaves the bytes
  copied so far in the caller's buffer, and no caller in the workspace looks at it.
\<close>

partial_function (option) read_at_loop ::
  "crypto_api \<Rightarrow> 'r reader \<Rightarrow> u64 \<Rightarrow> bytes \<Rightarrow> usize \<Rightarrow> 'r DecryptedPayload \<Rightarrow>
   (bytes res \<times> 'r DecryptedPayload) option" where
  "read_at_loop C R offset buf dn p =
     (if dn < length buf then
        (case read_pass C R p offset buf dn p of
           None \<Rightarrow> None
         | Some (Ok (buf', dn'), p') \<Rightarrow> read_at_loop C R offset buf' dn' p'
         | Some (Err e, p') \<Rightarrow> Some (Err e, p')
         | Some (Panic q, p') \<Rightarrow> Some (Panic q, p'))
      else Some (Ok buf, p))"

definition read_at ::
  "crypto_api \<Rightarrow> 'r reader \<Rightarrow> u64 \<Rightarrow> bytes \<Rightarrow> ('r DecryptedPayload, LuksError, bytes) prog" where
  "read_at C R offset buf = read_at_loop C R offset buf 0"

text \<open>\<open>std::io::Error::other(e.to_string())\<close>; \<open>dbg\<close> is the \<open>Debug\<close> format of strings.\<close>

definition other_error :: "(string \<Rightarrow> string) \<Rightarrow> LuksError \<Rightarrow> io_error" where
  "other_error dbg e = IoError OtherKind (to_string dbg e)"

definition map_errM :: "('e \<Rightarrow> 'f) \<Rightarrow> ('s, 'e, 'a) prog \<Rightarrow> ('s, 'f, 'a) prog" where
  "map_errM f m = (\<lambda>s. case m s of
      None \<Rightarrow> None
    | Some (Ok x, s') \<Rightarrow> Some (Ok x, s')
    | Some (Err e, s') \<Rightarrow> Some (Err (f e), s')
    | Some (Panic q, s') \<Rightarrow> Some (Panic q, s'))"

text \<open>\<open>Read::read\<close>: the count, and the buffer with its first bytes replaced.\<close>

definition read ::
  "crypto_api \<Rightarrow> (string \<Rightarrow> string) \<Rightarrow> 'r reader \<Rightarrow> bytes \<Rightarrow>
   ('r DecryptedPayload, io_error, usize \<times> bytes) prog" where
  "read C dbg R buf =
     (\<lambda>p.
      let size = payload_size p in
      if size \<le> dp_position p then Some (Ok (0, buf), p)
      else
      bindM (liftR (chk_sub size (dp_position p))) (\<lambda>left.
      let n = unat (min (of_nat (length buf)) left) in
      bindM (liftR (slice_index buf 0 n)) (\<lambda>front.
      bindM (map_errM (other_error dbg) (read_at C R (dp_position p) front)) (\<lambda>front'.
      bindM (liftR (chk_add (dp_position p) (of_nat n))) (\<lambda>pos'.
      \<lambda>p'. Some (Ok (n, front' @ drop n buf), p'\<lparr>dp_position := pos'\<rparr>))))) p)"

text \<open>
  \<open>Seek::seek\<close>.  The sum is computed in \<open>i128\<close>, which holds every sum of a \<open>u64\<close> and an \<open>i64\<close>, and
  cut to its low 64 bits by \<open>as u64\<close>.
\<close>

definition seek :: "SeekFrom \<Rightarrow> ('r DecryptedPayload, io_error, u64) prog" where
  "seek pos =
     (\<lambda>p.
      let size = payload_size p;
          new = (case pos of
              Start d \<Rightarrow> uint d
            | End d \<Rightarrow> uint size + sint d
            | Current d \<Rightarrow> uint (dp_position p) + sint d)
      in
      if new < 0 then Some (Err (IoError InvalidInput ''seek before start''), p)
      else let pos' = word_of_int new in Some (Ok pos', p\<lparr>dp_position := pos'\<rparr>))"

text \<open>
  The payload as a reader.  A call that panics or does not return has no value; the theorems below
  show that this does not happen over a reader that keeps its contract.
\<close>

definition payload_reader :: "crypto_api \<Rightarrow> (string \<Rightarrow> string) \<Rightarrow> 'r reader \<Rightarrow> 'r DecryptedPayload reader" where
  "payload_reader C dbg R =
     \<lparr>rd_read = (\<lambda>p n. case read C dbg R (replicate n 0) p of
          Some (Ok (k, buf), p') \<Rightarrow> (Inr (take k buf), p')
        | Some (Err e, p') \<Rightarrow> (Inl e, p')
        | _ \<Rightarrow> (Inl (IoError OtherKind ''no result''), p)),
      rd_seek = (\<lambda>p q. case seek q p of
          Some (Ok n, p') \<Rightarrow> (Inr n, p')
        | Some (Err e, p') \<Rightarrow> (Inl e, p')
        | _ \<Rightarrow> (Inl (IoError OtherKind ''no result''), p))\<rparr>"

section \<open>The plaintext\<close>

text \<open>
  What the payload of a container \<open>img\<close> decrypts to.  A data unit that reaches past the end of the
  container is completed with zero bytes before it is decrypted.
\<close>

definition unit_cipher :: "'r DecryptedPayload \<Rightarrow> bytes \<Rightarrow> nat \<Rightarrow> bytes" where
  "unit_cipher p img u =
     (let bs = take (dp_sector_size p) (drop (unat (dp_payload_offset p) + u * dp_sector_size p) img)
      in bs @ replicate (dp_sector_size p - length bs) 0)"

definition unit_plain :: "crypto_api \<Rightarrow> 'r DecryptedPayload \<Rightarrow> bytes \<Rightarrow> nat \<Rightarrow> bytes" where
  "unit_plain C p img u =
     (case xts_cipher (dp_master_key p) of
        None \<Rightarrow> []
      | Some (A, k1, k2) \<Rightarrow>
          decrypt_sector C A k1 k2
            (to_le_bytes 16 (of_nat (unat (dp_iv_tweak p) + u * unit_step (dp_sector_size p)) :: u128))
            (unit_cipher p img u))"

definition plain_byte :: "crypto_api \<Rightarrow> 'r DecryptedPayload \<Rightarrow> bytes \<Rightarrow> nat \<Rightarrow> u8" where
  "plain_byte C p img i = unit_plain C p img (i div dp_sector_size p) ! (i mod dp_sector_size p)"

definition plaintext :: "crypto_api \<Rightarrow> 'r DecryptedPayload \<Rightarrow> bytes \<Rightarrow> bytes" where
  "plaintext C p img = map (plain_byte C p img) [0..<unat (payload_size p)]"

text \<open>
  The geometry and the key of a payload whose cipher is supported.  The bound on the tweak holds
  for every header, see the theory of the unlocking code.
\<close>

definition payload_ok :: "'r DecryptedPayload \<Rightarrow> bool" where
  "payload_ok p \<longleftrightarrow>
     dp_cipher_mode p = ''xts-plain64'' \<and> xts_cipher (dp_master_key p) \<noteq> None \<and>
     512 \<le> dp_sector_size p \<and> dp_sector_size p \<le> isize_MAX \<and> unat (dp_iv_tweak p) \<le> u64_MAX"

text \<open>The geometry alone, and the reads whose units all begin in the 64-bit range.\<close>

definition geometry_ok :: "'r DecryptedPayload \<Rightarrow> bool" where
  "geometry_ok p \<longleftrightarrow> 512 \<le> dp_sector_size p \<and> dp_sector_size p \<le> isize_MAX \<and> unat (dp_iv_tweak p) \<le> u64_MAX"

definition range_ok :: "'r DecryptedPayload \<Rightarrow> nat \<Rightarrow> nat \<Rightarrow> bool" where
  "range_ok p offset len \<longleftrightarrow> offset + len \<le> 2 ^ 64 \<and>
     unat (dp_payload_offset p) + (offset + len - 1) div dp_sector_size p * dp_sector_size p < 2 ^ 64"

lemma range_okI:
  assumes "unat (dp_payload_offset p) + offset + len \<le> u64_MAX"
  shows "range_ok p offset len"
proof -
  define x where "x = (offset + len - 1) div dp_sector_size p * dp_sector_size p"
  have "x \<le> offset + len - 1" unfolding x_def by simp
  with assms show ?thesis unfolding range_ok_def x_def [symmetric] by simp
qed

lemma range_ok_reader [simp]: "range_ok (p\<lparr>dp_reader := r\<rparr>) offset len = range_ok p offset len"
  by (simp add: range_ok_def)

text \<open>Two payloads that differ only in the state of the reader and in the position.\<close>

definition same_view :: "'r DecryptedPayload \<Rightarrow> 'r DecryptedPayload \<Rightarrow> bool" where
  "same_view p p' \<longleftrightarrow> (\<exists>r q. p' = p\<lparr>dp_reader := r, dp_position := q\<rparr>)"

lemma unit_view [simp]:
  "unit_cipher (p\<lparr>dp_reader := r\<rparr>) img u = unit_cipher p img u"
  "unit_cipher (p\<lparr>dp_position := q\<rparr>) img u = unit_cipher p img u"
  "unit_plain C (p\<lparr>dp_reader := r\<rparr>) img u = unit_plain C p img u"
  "unit_plain C (p\<lparr>dp_position := q\<rparr>) img u = unit_plain C p img u"
  by (simp_all add: unit_cipher_def unit_plain_def split: option.split)

lemma view_simps [simp]:
  "payload_ok (p\<lparr>dp_reader := r\<rparr>) = payload_ok p"
  "payload_ok (p\<lparr>dp_position := q\<rparr>) = payload_ok p"
  "payload_size (p\<lparr>dp_reader := r\<rparr>) = payload_size p"
  "payload_size (p\<lparr>dp_position := q\<rparr>) = payload_size p"
  "plain_byte C (p\<lparr>dp_reader := r\<rparr>) = plain_byte C p"
  "plain_byte C (p\<lparr>dp_position := q\<rparr>) = plain_byte C p"
  by (simp_all add: payload_ok_def payload_size_def plain_byte_def [abs_def])

section \<open>Arithmetic of a pass\<close>

lemma unit_words:
  assumes n: "512 \<le> n" "n \<le> isize_MAX"
  shows "(of_nat n :: u64) \<noteq> 0"
    and "unat (pos div (of_nat n :: u64)) = unat pos div n"
    and "unat (pos mod (of_nat n :: u64)) = unat pos mod n"
    and "chk_mul (pos div of_nat n) (of_nat n) = (Ok (pos div of_nat n * of_nat n) :: u64 res)"
    and "unat (pos div of_nat n * of_nat n) = unat pos div n * n"
proof -
  have un: "unat (of_nat n :: u64) = n" using n by (simp add: unat_of_nat)
  then show nz: "(of_nat n :: u64) \<noteq> 0" using n by auto
  show d: "unat (pos div (of_nat n :: u64)) = unat pos div n" by (simp add: unat_div_distrib un)
  show "unat (pos mod (of_nat n :: u64)) = unat pos mod n" by (simp add: unat_mod_distrib un)
  have "unat pos < 2 ^ 64" using unsigned_less [of pos, where 'a = nat] by simp
  then have lt: "unat pos div n * n < 2 ^ 64"
    by (rule le_less_trans [rotated]) simp
  then show "chk_mul (pos div of_nat n) (of_nat n) = (Ok (pos div of_nat n * of_nat n) :: u64 res)"
    by (intro chk_mul_Ok) (simp add: d un)
  from lt show "unat (pos div of_nat n * of_nat n) = unat pos div n * n"
    by (simp add: unat_mult_lem [THEN iffD1] d un)
qed

lemma unit_step_bounds: "512 \<le> n \<Longrightarrow> 0 < unit_step n \<and> unit_step n \<le> n"
  by (auto simp: unit_step_def)

lemma unit_tweaks:
  assumes n: "512 \<le> n" "n \<le> isize_MAX" and iv: "unat (iv :: u128) \<le> u64_MAX"
  shows "\<exists>t. chk_mul (ucast (pos div (of_nat n :: u64))) (of_nat (max (n div 512) 1)) = (Ok t :: u128 res) \<and>
      (\<exists>w. chk_add iv t = (Ok w :: u128 res) \<and> unat w = unat iv + unat pos div n * unit_step n \<and>
        tweaks_fit n n (unat w))"
proof -
  let ?u = "pos div (of_nat n :: u64)" and ?st = "of_nat (unit_step n) :: u128"
  have st: "unit_step n \<le> n" "unat ?st = unit_step n"
    using n unit_step_bounds [of n] by (simp_all add: unat_of_nat)
  have u: "unat (ucast ?u :: u128) = unat pos div n"
    using unit_words(2) [OF n, of pos] unsigned_less [of ?u, where 'a = nat]
    by (simp add: unsigned_ucast_eq take_bit_nat_eq_self)
  have "unat pos div n * unit_step n \<le> unat pos div n * n" using st by simp
  also have "\<dots> \<le> unat pos" by simp
  finally have us: "unat pos div n * unit_step n < 2 ^ 64"
    using unsigned_less [of pos, where 'a = nat] by simp
  have mul: "unat (ucast ?u * ?st) = unat pos div n * unit_step n"
    "chk_mul (ucast ?u) ?st = (Ok (ucast ?u * ?st) :: u128 res)"
    using us by (simp_all add: u st unat_mult_lem [THEN iffD1] chk_mul_def)
  have add: "unat (iv + ucast ?u * ?st) = unat iv + unat pos div n * unit_step n"
    "chk_add iv (ucast ?u * ?st) = (Ok (iv + ucast ?u * ?st) :: u128 res)"
    using us iv by (simp_all add: mul unat_add_lem [THEN iffD1] chk_add_def)
  have "n * unit_step n \<le> isize_MAX * isize_MAX" using n st by (intro mult_le_mono) simp_all
  then have "tweaks_fit n n (unat (iv + ucast ?u * ?st))"
    using us iv n by (simp add: tweaks_fit_def add)
  then show ?thesis
    using mul add unfolding unit_step_def by blast
qed

lemma payload_in_range: "unat (dp_payload_offset p) + unat (payload_size p) \<le> u64_MAX"
  using unsigned_less [of "dp_total_size p", where 'a = nat] unsigned_less [of "dp_payload_offset p", where 'a = nat]
  by (simp add: payload_size_def unat_sat_sub)

lemma on_reader_run:
  "m (dp_reader p) = Some (x, r) \<Longrightarrow> on_reader m p = Some (x, p\<lparr>dp_reader := r\<rparr>)"
  by (simp add: on_reader_def)

lemma length_unit_cipher [simp]: "length (unit_cipher p img u) = dp_sector_size p"
  by (simp add: unit_cipher_def Let_def)

lemma length_unit_plain:
  "crypto_ok C \<Longrightarrow> xts_cipher (dp_master_key p) \<noteq> None \<Longrightarrow> length (unit_plain C p img u) = dp_sector_size p"
  by (auto simp: unit_plain_def crypto_okD split: option.split)

text \<open>A stretch of the plaintext that stays inside one data unit.\<close>

lemma unit_slice:
  assumes "0 < dp_sector_size p" and "i mod dp_sector_size p + k \<le> dp_sector_size p"
    and "length (unit_plain C p img (i div dp_sector_size p)) = dp_sector_size p"
  shows "take k (drop (i mod dp_sector_size p) (unit_plain C p img (i div dp_sector_size p))) =
    map (plain_byte C p img) [i..<i + k]"
proof (rule nth_equalityI)
  show "length (take k (drop (i mod dp_sector_size p) (unit_plain C p img (i div dp_sector_size p)))) =
      length (map (plain_byte C p img) [i..<i + k])"
    using assms by simp
next
  fix j assume "j < length (take k (drop (i mod dp_sector_size p) (unit_plain C p img (i div dp_sector_size p))))"
  then have j: "j < k" by simp
  let ?n = "dp_sector_size p"
  have "i + j = i div ?n * ?n + (i mod ?n + j)" by simp
  moreover have "i mod ?n + j < ?n" using j assms(2) by simp
  ultimately have "(i + j) div ?n = i div ?n" "(i + j) mod ?n = i mod ?n + j"
    by (metis add.right_neutral add.commute div_less div_mult_self1 assms(1) not_gr0 mult.commute,
        metis mod_less mod_mult_self3)
  with j assms show "take k (drop (i mod ?n) (unit_plain C p img (i div ?n))) ! j =
      map (plain_byte C p img) [i..<i + k] ! j"
    by (simp add: plain_byte_def)
qed

section \<open>The payload over a reader that keeps its contract\<close>

context byte_reader
begin

lemma read_unit_bytes:
  assumes "inv r" and "dp_reader p = r" and "dp_sector_size p \<le> isize_MAX"
    and "unat physical = unat (dp_payload_offset p) + u * dp_sector_size p"
  shows "\<exists>r1 r2 k. seek_to R (Start physical) r = Some (Ok physical, r1) \<and>
      read_available (rd_read R) (dp_sector_size p) r1 = Some (Ok (k, unit_cipher p (content r) u), r2) \<and>
      same_source r r2"
proof -
  obtain r1 where r1: "seek_to R (Start physical) r = Some (Ok physical, r1)" "same_source r r1"
    "pos r1 = unat physical"
    using seek_to_Start [OF assms(1), of physical] by blast
  then have "inv r1" "content r1 = content r" by (auto simp: same_source_def)
  with read_available_spec [OF this(1) assms(3)] r1 assms(4) show ?thesis
    by (auto simp: same_source_def available_def unit_cipher_def Let_def)
qed

text \<open>One pass up to the decryption of the unit.\<close>

lemma read_pass_start:
  fixes p :: "'r DecryptedPayload" and offset :: u64 and dn :: nat
  defines "n \<equiv> dp_sector_size p" and "i \<equiv> unat offset + dn"
  assumes g: "geometry_ok p" and inv: "inv (dp_reader p)" and dn: "dn < length buf"
    and bound: "range_ok p (unat offset) (length buf)"
  shows "\<exists>r w. same_source (dp_reader p) r \<and> unat w = unat (dp_iv_tweak p) + i div n * unit_step n \<and> tweaks_fit n n (unat w) \<and>
     read_pass C R p offset buf dn p =
       bindM (liftR (xts_decrypt_area C (dp_cipher_mode p) (dp_master_key p)
                (unit_cipher p (content (dp_reader p)) (i div n)) n w)) (\<lambda>plain.
       bindM (liftR (usize_sub n (i mod n))) (\<lambda>rest.
       let tk = min rest (length buf - dn) in
       bindM (liftR (slice_index plain (i mod n) (i mod n + tk))) (\<lambda>bs.
       bindM (liftR (copy_into buf dn (dn + tk) bs)) (\<lambda>buf'.
       ret (buf', dn + tk))))) (p\<lparr>dp_reader := r\<rparr>)"
proof -
  let ?at = "offset + of_nat dn"
  have n: "512 \<le> n" "n \<le> isize_MAX" and iv: "unat (dp_iv_tweak p) \<le> u64_MAX"
    using g by (simp_all add: geometry_ok_def n_def)
  have i: "i < 2 ^ 64" using bound dn by (simp add: range_ok_def i_def)
  then have "unat (of_nat dn :: u64) = dn" by (simp add: unat_of_nat i_def)
  then have at: "unat ?at = i" "chk_add offset (of_nat dn) = (Ok ?at :: u64 res)"
    using i by (simp_all add: unat_add_lem [THEN iffD1] chk_add_def i_def)
  note uw = unit_words(1) [OF n] unit_words(2-5) [OF n, of ?at, unfolded at(1)]
  let ?rel = "?at div of_nat n * of_nat n"
  have "i div n * n \<le> (unat offset + length buf - 1) div n * n"
    using dn by (intro mult_le_mono1 div_le_mono) (simp add: i_def)
  then have "unat (dp_payload_offset p) + unat ?rel < 2 ^ 64"
    using bound unfolding uw(5) range_ok_def n_def [symmetric] by linarith
  then have phys: "unat (dp_payload_offset p + ?rel) = unat (dp_payload_offset p) + i div n * n"
    "chk_add (dp_payload_offset p) ?rel = (Ok (dp_payload_offset p + ?rel) :: u64 res)"
    using uw(5) by (simp_all add: unat_add_lem [THEN iffD1] chk_add_def)
  obtain r1 r2 k where rd: "seek_to R (Start (dp_payload_offset p + ?rel)) (dp_reader p) =
        Some (Ok (dp_payload_offset p + ?rel), r1)"
      "read_available (rd_read R) n r1 = Some (Ok (k, unit_cipher p (content (dp_reader p)) (i div n)), r2)"
      "same_source (dp_reader p) r2"
    using read_unit_bytes [OF inv refl, of "dp_payload_offset p + ?rel" "i div n"] n(2) phys(1) by (auto simp: n_def)
  obtain t w where tw: "chk_mul (ucast (?at div of_nat n)) (of_nat (max (n div 512) 1)) = (Ok t :: u128 res)"
      "chk_add (dp_iv_tweak p) t = (Ok w :: u128 res)" "unat w = unat (dp_iv_tweak p) + i div n * unit_step n"
      "tweaks_fit n n (unat w)"
    using unit_tweaks [OF n iv, of ?at] unfolding at(1) by blast
  show ?thesis
    using at uw phys rd tw n
    by (intro exI [of _ r2] exI [of _ w]) (simp add: read_pass_def Let_def on_reader_def chk_simps n_def [symmetric])
qed

lemma read_pass_spec:
  assumes C: "crypto_ok C" and p: "payload_ok p" and inv: "inv (dp_reader p)" and dn: "dn < length buf"
    and bound: "range_ok p (unat offset) (length buf)"
  shows "\<exists>bs r. read_pass C R p offset buf dn p =
      Some (Ok (take dn buf @ bs @ drop (dn + length bs) buf, dn + length bs), p\<lparr>dp_reader := r\<rparr>) \<and>
      same_source (dp_reader p) r \<and> 0 < length bs \<and> dn + length bs \<le> length buf \<and>
      bs = map (plain_byte C p (content (dp_reader p))) [unat offset + dn..<unat offset + dn + length bs]"
proof -
  let ?n = "dp_sector_size p" and ?img = "content (dp_reader p)" and ?i = "unat offset + dn"
  let ?u = "?i div ?n" and ?w = "?i mod ?n"
  have g: "geometry_ok p" and n: "512 \<le> ?n" and key: "xts_cipher (dp_master_key p) \<noteq> None"
    and mode: "dp_cipher_mode p = ''xts-plain64''"
    using p by (auto simp: payload_ok_def geometry_ok_def)
  note start = read_pass_start [OF g inv dn bound, of C]
  obtain r w where pass: "same_source (dp_reader p) r" "unat w = unat (dp_iv_tweak p) + ?u * unit_step ?n"
    "tweaks_fit ?n ?n (unat w)" "read_pass C R p offset buf dn p =
       bindM (liftR (xts_decrypt_area C (dp_cipher_mode p) (dp_master_key p) (unit_cipher p ?img ?u) ?n w)) (\<lambda>plain.
       bindM (liftR (usize_sub ?n ?w)) (\<lambda>rest.
       let tk = min rest (length buf - dn) in
       bindM (liftR (slice_index plain ?w (?w + tk))) (\<lambda>bs.
       bindM (liftR (copy_into buf dn (dn + tk) bs)) (\<lambda>buf'. ret (buf', dn + tk))))) (p\<lparr>dp_reader := r\<rparr>)"
    using start by blast
  have plain: "xts_decrypt_area C (dp_cipher_mode p) (dp_master_key p) (unit_cipher p ?img ?u) ?n w =
      Ok (unit_plain C p ?img ?u)"
    using pass(2,3) n key mode
    by (auto simp: xts_decrypt_area_value units_ref_single unit_plain_def split: option.split)
  define tk where "tk = min (?n - ?w) (length buf - dn)"
  define bs where "bs = take tk (drop ?w (unit_plain C p ?img ?u))"
  have w: "?w < ?n" using n by simp
  then have tk: "0 < tk" "?w + tk \<le> ?n" "dn + tk \<le> length buf" using dn by (auto simp: tk_def)
  have len: "length (unit_plain C p ?img ?u) = ?n" using C key by (rule length_unit_plain)
  have bs: "length bs = tk" using tk len by (simp add: bs_def)
  have "bs = map (plain_byte C p ?img) [?i..<?i + tk]"
    unfolding bs_def using n tk len by (intro unit_slice) simp_all
  moreover have "read_pass C R p offset buf dn p =
      Some (Ok (take dn buf @ bs @ drop (dn + tk) buf, dn + tk), p\<lparr>dp_reader := r\<rparr>)"
    using pass(4) plain w tk bs n len
    by (simp add: Let_def chk_simps tk_def [symmetric] bs_def [symmetric])
  ultimately show ?thesis
    using pass(1) tk bs by (intro exI [of _ bs] exI [of _ r] conjI) simp_all
qed

text \<open>A cipher mode that is not supported is refused by the first pass.\<close>

lemma read_at_refused:
  assumes "geometry_ok p" and "inv (dp_reader p)" and "buf \<noteq> []" and "range_ok p (unat offset) (length buf)"
    and "dp_cipher_mode p \<noteq> ''xts-plain64''"
  shows "\<exists>r. read_at C R offset buf p = Some (Err (Unsupported ''cipher mode'' (dp_cipher_mode p)), p\<lparr>dp_reader := r\<rparr>)"
proof -
  have "xts_decrypt_area C (dp_cipher_mode p) k b m w = Err (Unsupported ''cipher mode'' (dp_cipher_mode p))" for k b m w
    using assms(5) by (simp add: xts_decrypt_area_def)
  then obtain r where "read_pass C R p offset buf 0 p =
      Some (Err (Unsupported ''cipher mode'' (dp_cipher_mode p)), p\<lparr>dp_reader := r\<rparr>)"
    using read_pass_start [OF assms(1,2) _ assms(4), of 0 C] assms(3) by auto
  then show ?thesis
    using assms(3) by (auto simp: read_at_def read_at_loop.simps [of C R offset buf 0 p])
qed

lemma read_at_loop_spec:
  assumes "crypto_ok C" and "payload_ok p" and "inv (dp_reader p)" and "dn \<le> length buf"
    and "range_ok p (unat offset) (length buf)"
  shows "\<exists>r. read_at_loop C R offset buf dn p =
      Some (Ok (take dn buf @
        map (plain_byte C p (content (dp_reader p))) [unat offset + dn..<unat offset + length buf]),
        p\<lparr>dp_reader := r\<rparr>) \<and> same_source (dp_reader p) r"
  using assms
proof (induction "length buf - dn" arbitrary: buf dn p rule: less_induct)
  case less
  let ?img = "content (dp_reader p)" and ?off = "unat offset"
  show ?case
  proof (cases "dn < length buf")
    case False
    then show ?thesis
      using less.prems by (subst read_at_loop.simps) (auto simp: same_source_def intro!: exI [of _ "dp_reader p"])
  next
    case True
    obtain bs r where bs: "read_pass C R p offset buf dn p =
        Some (Ok (take dn buf @ bs @ drop (dn + length bs) buf, dn + length bs), p\<lparr>dp_reader := r\<rparr>)"
      "same_source (dp_reader p) r" "0 < length bs" "dn + length bs \<le> length buf"
      "bs = map (plain_byte C p ?img) [?off + dn..<?off + dn + length bs]"
      using read_pass_spec [OF less.prems(1-3) True less.prems(5)] by blast
    let ?buf = "take dn buf @ bs @ drop (dn + length bs) buf" and ?dn = "dn + length bs"
      and ?p = "p\<lparr>dp_reader := r\<rparr>"
    have len: "length ?buf = length buf" using bs(4) by simp
    have dec: "length ?buf - ?dn < length buf - dn" unfolding len using bs(3) True by linarith
    have src: "inv r" "content r = ?img" using bs(2) by (simp_all add: same_source_def)
    have "\<exists>r'. read_at_loop C R offset ?buf ?dn ?p =
        Some (Ok (take ?dn ?buf @ map (plain_byte C ?p (content (dp_reader ?p))) [?off + ?dn..<?off + length ?buf]),
          ?p\<lparr>dp_reader := r'\<rparr>) \<and> same_source (dp_reader ?p) r'"
      using less.prems bs(4) len src by (intro less.hyps [OF dec]) simp_all
    then obtain r' where r': "read_at_loop C R offset ?buf ?dn ?p =
        Some (Ok (take ?dn ?buf @ map (plain_byte C p ?img) [?off + ?dn..<?off + length buf]), p\<lparr>dp_reader := r'\<rparr>)"
      "same_source (dp_reader p) r'"
      using len src by (auto simp: same_source_def)
    have "take ?dn ?buf = take dn buf @ bs" using True by simp
    moreover have "bs @ map (plain_byte C p ?img) [?off + ?dn..<?off + length buf] =
        map (plain_byte C p ?img) [?off + dn..<?off + length buf]"
    proof -
      have "[?off + dn..<?off + length buf] = [?off + dn..<?off + ?dn] @ [?off + ?dn..<?off + length buf]"
        using bs(4) upt_add_eq_append [of "?off + dn" "?off + ?dn" "length buf - ?dn"] by simp
      then show ?thesis by (subst bs(5)) (simp add: add.assoc)
    qed
    ultimately show ?thesis
      using r' True bs(1) by (subst read_at_loop.simps) auto
  qed
qed

lemma read_at_in_range:
  assumes "crypto_ok C" and "payload_ok p" and "inv (dp_reader p)" and "range_ok p (unat offset) (length buf)"
  shows "\<exists>r. read_at C R offset buf p =
      Some (Ok (map (plain_byte C p (content (dp_reader p))) [unat offset..<unat offset + length buf]),
        p\<lparr>dp_reader := r\<rparr>) \<and> same_source (dp_reader p) r"
  using read_at_loop_spec [OF assms(1-3) _ assms(4), of 0] by (simp add: read_at_def)

lemmas read_at_spec = read_at_in_range [OF _ _ _ range_okI]

lemma read_spec:
  fixes p :: "'r DecryptedPayload" and buf :: bytes
  defines "k \<equiv> min (length buf) (unat (payload_size p) - unat (dp_position p))"
  assumes "crypto_ok C" and "payload_ok p" and "inv (dp_reader p)" and len: "length buf \<le> isize_MAX"
  shows "\<exists>r. read C dbg R buf p =
      Some (Ok (k, map (plain_byte C p (content (dp_reader p))) [unat (dp_position p)..<unat (dp_position p) + k] @ drop k buf),
        p\<lparr>dp_reader := r, dp_position := dp_position p + of_nat k\<rparr>) \<and> same_source (dp_reader p) r"
proof (cases "payload_size p \<le> dp_position p")
  case True
  then have "k = 0" by (simp add: k_def word_le_nat_alt)
  with True assms(4) show ?thesis
    by (auto simp: read_def Let_def same_source_def intro!: exI [of _ "dp_reader p"])
next
  case False
  let ?size = "payload_size p" and ?q = "dp_position p"
  have lt: "unat ?q < unat ?size" using False by (simp add: word_le_nat_alt)
  have sub: "unat (?size - ?q) = unat ?size - unat ?q" "chk_sub ?size ?q = (Ok (?size - ?q) :: (u64, io_error) outcome)"
    using lt by (simp_all add: unat_sub_if_size word_le_nat_alt chk_sub_def)
  have "unat (of_nat (length buf) :: u64) = length buf" using len by (simp add: unat_of_nat)
  then have n: "unat (min (of_nat (length buf)) (?size - ?q)) = k"
    by (simp add: k_def min_def word_le_nat_alt sub)
  have size: "unat (dp_payload_offset p) + unat ?size \<le> u64_MAX" by (rule payload_in_range)
  have k: "k \<le> length buf" "unat ?q + k \<le> unat ?size" using lt by (auto simp: k_def)
  then obtain r where r: "read_at C R ?q (take k buf) p =
      Some (Ok (map (plain_byte C p (content (dp_reader p))) [unat ?q..<unat ?q + k]), p\<lparr>dp_reader := r\<rparr>)"
    "same_source (dp_reader p) r"
    using read_at_spec [OF assms(2-4), of ?q "take k buf"] size by auto
  have "unat (of_nat k :: u64) = k" using k len by (simp add: unat_of_nat)
  then have "chk_add ?q (of_nat k) = (Ok (?q + of_nat k) :: (u64, io_error) outcome)"
    using k size by (simp add: chk_add_def)
  then show ?thesis
    using False sub n k r by (auto simp: read_def Let_def chk_simps map_errM_def)
qed

lemma seek_spec:
  "seek q p = (let new = (case q of
        Start d \<Rightarrow> uint d | End d \<Rightarrow> uint (payload_size p) + sint d | Current d \<Rightarrow> uint (dp_position p) + sint d)
     in Some (if new < 0 then (Err (IoError InvalidInput ''seek before start''), p)
              else (Ok (word_of_int new), p\<lparr>dp_position := word_of_int new\<rparr>)))"
  by (simp add: seek_def Let_def)

lemma length_plaintext [simp]: "length (plaintext C p img) = unat (payload_size p)"
  by (simp add: plaintext_def)

lemma plaintext_slice:
  assumes "i + k \<le> unat (payload_size p)"
  shows "map (plain_byte C p img) [i..<i + k] = take k (drop i (plaintext C p img))"
  using assms by (simp add: plaintext_def drop_map take_map drop_upt take_upt)

text \<open>The view of the payload as a sequence of bytes with a position.\<close>

definition view_ok :: "crypto_api \<Rightarrow> 'r DecryptedPayload \<Rightarrow> bool" where
  "view_ok C p \<longleftrightarrow> crypto_ok C \<and> payload_ok p \<and> inv (dp_reader p)"

definition view :: "crypto_api \<Rightarrow> 'r DecryptedPayload \<Rightarrow> bytes" where
  "view C p = plaintext C p (content (dp_reader p))"

lemma payload_read:
  assumes "view_ok C p" and "n \<le> isize_MAX"
  defines "bs \<equiv> take n (drop (unat (dp_position p)) (view C p))"
  shows "\<exists>r. rd_read (payload_reader C dbg R) p n =
      (Inr bs, p\<lparr>dp_reader := r, dp_position := dp_position p + of_nat (length bs)\<rparr>) \<and> same_source (dp_reader p) r"
proof -
  let ?k = "min n (unat (payload_size p) - unat (dp_position p))"
  have len: "length bs = ?k" by (simp add: bs_def view_def min_def)
  obtain r where "read C dbg R (replicate n 0) p =
      Some (Ok (?k, map (plain_byte C p (content (dp_reader p))) [unat (dp_position p)..<unat (dp_position p) + ?k] @
        drop ?k (replicate n 0)), p\<lparr>dp_reader := r, dp_position := dp_position p + of_nat ?k\<rparr>)"
    "same_source (dp_reader p) r"
    using read_spec [of C p "replicate n 0" dbg] assms by (auto simp: view_ok_def)
  moreover have "map (plain_byte C p (content (dp_reader p))) [unat (dp_position p)..<unat (dp_position p) + ?k] = bs"
  proof (cases "unat (dp_position p) \<le> unat (payload_size p)")
    case True
    then have "map (plain_byte C p (content (dp_reader p))) [unat (dp_position p)..<unat (dp_position p) + ?k] =
        take ?k (drop (unat (dp_position p)) (view C p))"
      unfolding view_def by (intro plaintext_slice) simp
    also have "\<dots> = bs" by (auto simp: bs_def view_def min_def)
    finally show ?thesis .
  qed (simp add: bs_def view_def)
  ultimately show ?thesis using len by (auto simp: payload_reader_def)
qed

lemma payload_byte_reader:
  "byte_reader (payload_reader C dbg R) (view C) (\<lambda>p. unat (dp_position p)) (\<lambda>_. 0) (view_ok C)"
proof unfold_locales
  fix p n bs p'
  assume ok: "view_ok C p" and n: "n \<le> isize_MAX"
    and rd: "rd_read (payload_reader C dbg R) p n = (Inr bs, p')"
  obtain r where bs: "bs = take n (drop (unat (dp_position p)) (view C p))"
    and p': "p' = p\<lparr>dp_reader := r, dp_position := dp_position p + of_nat (length bs)\<rparr>"
    and r: "same_source (dp_reader p) r"
    using payload_read [OF ok n, of dbg] rd by auto
  have len: "length (view C p) < 2 ^ 64"
    using unsigned_less [of "payload_size p", where 'a = nat] by (simp add: view_def)
  have "unat (dp_position p) + length bs < 2 ^ 64"
    using len unsigned_less [of "dp_position p", where 'a = nat] bs
    by (cases "unat (dp_position p) \<le> length (view C p)") auto
  then have "unat (dp_position p + of_nat (length bs)) = unat (dp_position p) + length bs"
    by (simp add: unat_word_ariths unat_of_nat)
  moreover have "view_ok C p'" "view C p' = view C p"
    using ok p' r by (simp_all add: view_ok_def view_def plaintext_def same_source_def)
  ultimately show "view_ok C p' \<and> view C p' = view C p \<and> (0::nat) \<le> 0 \<and> length bs \<le> n \<and>
      bs = take (length bs) (drop (unat (dp_position p)) (view C p)) \<and>
      unat (dp_position p') = unat (dp_position p) + length bs \<and>
      (bs = [] \<longrightarrow> n = 0 \<or> length (view C p) \<le> unat (dp_position p))"
    using bs p' by (auto simp: min_def)
next
  fix p n e p'
  assume ok: "view_ok C p" and n: "n \<le> isize_MAX"
    and rd: "rd_read (payload_reader C dbg R) p n = (Inl e, p')"
  with payload_read [OF ok n, of dbg]
  show "io_kind e = Interrupted \<and> view_ok C p' \<and> view C p' = view C p \<and>
      unat (dp_position p') = unat (dp_position p) \<and> (0::nat) < 0" by auto
next
  fix p q assume "view_ok C p"
  then show "\<exists>p'. rd_seek (payload_reader C dbg R) p (Start q) = (Inr q, p') \<and> view_ok C p' \<and>
      view C p' = view C p \<and> unat (dp_position p') = unat q"
    by (simp add: payload_reader_def seek_spec Let_def view_ok_def view_def plaintext_def)
next
  fix p assume "view_ok C p"
  then show "\<exists>p'. rd_seek (payload_reader C dbg R) p (End 0) = (Inr (of_nat (length (view C p))), p') \<and>
      view_ok C p' \<and> view C p' = view C p \<and> unat (dp_position p') = length (view C p)"
    by (simp add: payload_reader_def seek_spec Let_def view_ok_def view_def plaintext_def)
next
  fix p show "length (view C p) \<le> u64_MAX"
    using unsigned_less [of "payload_size p", where 'a = nat] by (simp add: view_def)
qed

text \<open>
  Whatever the arguments and whatever the outcome, a call changes nothing but the state of the
  reader and the position.
\<close>

definition view_step :: "'r DecryptedPayload \<Rightarrow> 'r DecryptedPayload \<Rightarrow> bool" where
  "view_step p p' \<longleftrightarrow> (inv (dp_reader p) \<longrightarrow> same_view p p' \<and> same_source (dp_reader p) (dp_reader p'))"

lemma same_view_refl [simp]: "same_view p p"
  unfolding same_view_def by (intro exI [of _ "dp_reader p"] exI [of _ "dp_position p"]) simp

lemma same_view_trans: "same_view p q \<Longrightarrow> same_view q t \<Longrightarrow> same_view p t"
  unfolding same_view_def by fastforce

lemma same_view_reader [simp]: "same_view p (p\<lparr>dp_reader := r\<rparr>)"
  unfolding same_view_def by (intro exI [of _ r] exI [of _ "dp_position p"]) simp

lemma view_step_preorder: "preorder_on_states view_step"
  unfolding preorder_on_states_def view_step_def same_source_def using same_view_trans by fastforce

lemma view_step_reader:
  assumes "\<And>r x r'. inv r \<Longrightarrow> m r = Some (x, r') \<Longrightarrow> same_source r r'"
  shows "keeps view_step (on_reader m)"
  using assms by (fastforce simp: keeps_def on_reader_def view_step_def split: option.splits)

lemma view_step_seek: "keeps view_step (on_reader (seek_to R (Start q)))"
proof (rule view_step_reader)
  fix r x r' assume "inv r" "seek_to R (Start q) r = Some (x, r')"
  with seek_to_Start [of r q] show "same_source r r'" by auto
qed

lemma view_step_available:
  assumes "n \<le> isize_MAX"
  shows "keeps view_step (on_reader (read_available (rd_read R) n))"
proof (rule view_step_reader)
  fix r x r' assume "inv r" "read_available (rd_read R) n r = Some (x, r')"
  with read_available_spec [of r n] assms show "same_source r r'" by auto
qed

lemma read_pass_frame: "keeps view_step (read_pass C R p offset buf dn)"
  unfolding read_pass_def Let_def
  by (rule view_step_preorder view_step_seek view_step_available keeps_rules
      | simp add: vec_zeroed_def split: if_splits; fail)+

lemma view_step_trans: "view_step p q \<Longrightarrow> view_step q t \<Longrightarrow> view_step p t"
  using view_step_preorder unfolding preorder_on_states_def by blast

lemma view_step_refl [simp]: "view_step p p"
  using view_step_preorder unfolding preorder_on_states_def by blast

lemma read_at_loop_frame:
  assumes "read_at_loop C R offset buf dn p = Some xp"
  shows "view_step p (snd xp)"
proof -
  have "R' = R \<longrightarrow> view_step p (snd xp)" if "read_at_loop C R' offset buf dn p = Some xp" for R'
  proof (rule read_at_loop.raw_induct [OF _ that, where P = "\<lambda>C R' offset buf dn p xp. R' = R \<longrightarrow> view_step p (snd xp)"],
      intro impI)
    fix loop C R' offset buf dn p xp
    assume IH: "\<And>C R' offset buf dn p xp. loop C R' offset buf dn p = Some xp \<Longrightarrow> R' = R \<longrightarrow> view_step p (snd xp)"
      and eq: "(if dn < length buf then
          case read_pass C R' p offset buf dn p of None \<Rightarrow> None
          | Some (Ok (buf', dn'), p') \<Rightarrow> loop C R' offset buf' dn' p'
          | Some (Err e, p') \<Rightarrow> Some (Err e, p')
          | Some (Panic q, p') \<Rightarrow> Some (Panic q, p')
        else Some (Ok buf, p)) = Some xp" and R': "R' = R"
    show "view_step p (snd xp)"
    proof (cases "dn < length buf")
      case True
      then obtain y q where pass: "read_pass C R p offset buf dn p = Some (y, q)"
        using eq R' by (cases "read_pass C R p offset buf dn p") auto
      have step: "view_step p q" by (rule keepsD [OF read_pass_frame pass])
      show ?thesis
      proof (cases y)
        case (Ok z)
        obtain buf' dn' where z: "z = (buf', dn')" by (cases z)
        have "loop C R offset buf' dn' q = Some xp"
          using eq R' True pass Ok z by simp
        then have "view_step q (snd xp)" using IH by blast
        with step show ?thesis by (rule view_step_trans)
      qed (use eq R' True pass step in auto)
    qed (use eq in auto)
  qed
  with assms show ?thesis by simp
qed

lemma read_at_frame: "keeps view_step (read_at C R offset buf)"
  unfolding keeps_def read_at_def using read_at_loop_frame by fastforce

lemma view_step_position: "view_step p q \<Longrightarrow> view_step p (q\<lparr>dp_position := k\<rparr>)"
  by (fastforce simp: view_step_def same_view_def same_source_def)

lemma read_frame:
  assumes "read C dbg R buf p = Some (x, p')"
  shows "view_step p p'"
proof -
  have "view_step p q" if "map_errM f (read_at C R offset b) p = Some (y, q)" for f offset b y q
    using that keepsD [OF read_at_frame [of C offset b], of p]
    by (auto simp: map_errM_def split: option.splits outcome.splits)
  then show ?thesis
    using assms
    by (auto simp: read_def Let_def bindM_run intro!: view_step_position split: if_splits outcome.splits option.splits)
qed

lemma seek_frame: "seek q p = Some (x, p') \<Longrightarrow> view_step p p'"
  by (auto simp: seek_def Let_def view_step_position split: if_splits)

end

section \<open>Runs\<close>

text \<open>A call on the payload: positioned read, read or seek, with any outcome.\<close>

inductive payload_step :: "crypto_api \<Rightarrow> 'r reader \<Rightarrow> 'r DecryptedPayload \<Rightarrow> 'r DecryptedPayload \<Rightarrow> bool"
  for C :: crypto_api and R :: "'r reader" where
  step_read_at: "read_at C R offset buf p = Some (x, p') \<Longrightarrow> payload_step C R p p'"
| step_read: "read C dbg R buf p = Some (x, p') \<Longrightarrow> payload_step C R p p'"
| step_seek: "seek q p = Some (x, p') \<Longrightarrow> payload_step C R p p'"

inductive payload_run :: "crypto_api \<Rightarrow> 'r reader \<Rightarrow> 'r DecryptedPayload \<Rightarrow> 'r DecryptedPayload \<Rightarrow> bool"
  for C :: crypto_api and R :: "'r reader" where
  run_start: "payload_run C R p p"
| run_step: "payload_run C R p q \<Longrightarrow> payload_step C R q t \<Longrightarrow> payload_run C R p t"

inductive_cases payload_stepE: "payload_step C R p p'"

context byte_reader
begin

lemma payload_step_frame: "payload_step C R p p' \<Longrightarrow> view_step p p'"
  by (erule payload_stepE) (blast intro: read_frame seek_frame keepsD [OF read_at_frame])+

lemma payload_run_frame: "payload_run C R p p' \<Longrightarrow> view_step p p'"
  by (induction rule: payload_run.induct) (auto intro: view_step_trans payload_step_frame)

lemma payload_run_view:
  assumes "payload_run C R p p'" and "view_ok C p"
  shows "view_ok C p' \<and> view C p' = view C p"
  using payload_run_frame [OF assms(1)] assms(2)
  by (auto simp: view_step_def same_view_def same_source_def view_ok_def view_def plaintext_def)

end

interpretation payload: byte_reader "payload_reader C dbg cursor_reader" "cursor.view C"
    "\<lambda>p. unat (dp_position p)" "\<lambda>_. 0" "cursor.view_ok C" for C dbg
  by (rule cursor.payload_byte_reader)

section \<open>Properties\<close>

definition sample_payload :: "bytes \<Rightarrow> cursor DecryptedPayload" where
  "sample_payload data =
     \<lparr>dp_reader = cursor_new data, dp_master_key = replicate 64 1, dp_cipher_mode = ''xts-plain64'',
      dp_payload_offset = 0, dp_sector_size = 512, dp_iv_tweak = 0, dp_total_size = of_nat (length data),
      dp_position = 0,
      dp_info = \<lparr>info_version = 1, info_cipher_name = ''aes'', info_cipher_mode = ''xts-plain64'',
        info_key_bytes = 64, info_sector_size = 512\<rparr>\<rparr>"

lemma sample_payload_ok:
  "payload_ok (sample_payload data)" "cur_data (dp_reader (sample_payload data)) = data"
  "dp_payload_offset (sample_payload data) = 0" "dp_position (sample_payload data) = 0" "dp_sector_size (sample_payload data) = 512"
  by (simp_all add: payload_ok_def sample_payload_def xts_cipher_def cursor_new_def)

text \<open>
  C7.  Random access: for a supported cipher, a positioned read returns for every byte of the buffer
  the byte of the decrypted payload at that position, across any number of data units, leaves the
  container and the rest of the payload object untouched, and always terminates without an error or
  a panic, as long as the positions stay in the 64-bit range.
\<close>

theorem read_at_returns_plaintext:
  assumes "crypto_ok C" and "payload_ok p" and "length (cur_data (dp_reader p)) \<le> isize_MAX"
    and "unat (dp_payload_offset p) + unat offset + length buf \<le> u64_MAX"
  shows "\<exists>c. read_at C cursor_reader offset buf p =
      Some (Ok (map (plain_byte C p (cur_data (dp_reader p))) [unat offset..<unat offset + length buf]),
        p\<lparr>dp_reader := c\<rparr>) \<and> cur_data c = cur_data (dp_reader p)"
  using cursor.read_at_spec [OF assms] by (auto simp: cursor.same_source_def)

theorem read_at_returns_plaintext_witness:
  "\<exists>c. read_at sample_crypto cursor_reader 500 (replicate 100 0) (sample_payload (replicate 1024 3)) =
     Some (Ok (map (plain_byte sample_crypto (sample_payload (replicate 1024 3)) (replicate 1024 3)) [500..<600]),
       sample_payload (replicate 1024 3)\<lparr>dp_reader := c\<rparr>)"
  using read_at_returns_plaintext [of sample_crypto "sample_payload (replicate 1024 3)" 500 "replicate 100 0"]
  by (auto simp: sample_payload_ok)

text \<open>
  C19.  In every state that positioned reads, reads and seeks can reach, whatever their arguments and
  outcomes, the key, the geometry and the bytes of the container are the ones at the start.
\<close>

theorem runs_keep_the_payload:
  assumes "payload_run C cursor_reader p p'" and "length (cur_data (dp_reader p)) \<le> isize_MAX"
  shows "\<exists>c q. p' = p\<lparr>dp_reader := c, dp_position := q\<rparr> \<and> cur_data c = cur_data (dp_reader p)"
  using cursor.payload_run_frame [OF assms(1)] assms(2)
  by (auto simp: cursor.view_step_def same_view_def cursor.same_source_def)

lemma sample_run:
  "payload_run C cursor_reader (sample_payload data) (sample_payload data\<lparr>dp_position := 7\<rparr>)"
  by (rule run_step [OF run_start step_seek [where q = "Start 7"]]) (simp add: seek_def)

theorem runs_keep_the_payload_witness:
  "payload_run sample_crypto cursor_reader (sample_payload [1]) (sample_payload [1]\<lparr>dp_position := 7\<rparr>) \<and>
   (\<exists>c q. sample_payload [1]\<lparr>dp_position := 7\<rparr> = sample_payload [1]\<lparr>dp_reader := c, dp_position := q\<rparr> \<and> cur_data c = [1])"
  using runs_keep_the_payload [OF sample_run [of sample_crypto "[1]"]] sample_run [of sample_crypto "[1]"]
  by (simp add: sample_payload_ok)

text \<open>
  C27.  In every such state the next \<open>Read::read\<close> delivers exactly the next bytes of the plaintext: as
  many as the buffer holds and the payload has left (none past its end), leaves the rest of the
  buffer alone and advances the position by their number.
\<close>

theorem read_delivers_next_bytes:
  assumes "payload_run C cursor_reader p p'" and "crypto_ok C" and "payload_ok p"
    and "length (cur_data (dp_reader p)) \<le> isize_MAX" and "length buf \<le> isize_MAX"
  defines "bs \<equiv> take (length buf) (drop (unat (dp_position p')) (plaintext C p (cur_data (dp_reader p))))"
  shows "\<exists>c. read C dbg cursor_reader buf p' =
     Some (Ok (length bs, bs @ drop (length bs) buf),
       p'\<lparr>dp_reader := c, dp_position := dp_position p' + of_nat (length bs)\<rparr>)"
proof -
  obtain c0 q where p': "p' = p\<lparr>dp_reader := c0, dp_position := q\<rparr>" "cur_data c0 = cur_data (dp_reader p)"
    using cursor.payload_run_frame [OF assms(1)] assms(4)
    by (auto simp: cursor.view_step_def same_view_def cursor.same_source_def)
  let ?k = "min (length buf) (unat (payload_size p) - unat q)"
  have len: "length bs = ?k" by (simp add: bs_def p' min.commute)
  have "map (plain_byte C p (cur_data (dp_reader p))) [unat q..<unat q + ?k] = bs"
  proof (cases "unat q \<le> unat (payload_size p)")
    case True
    then have "map (plain_byte C p (cur_data (dp_reader p))) [unat q..<unat q + ?k] =
        take ?k (drop (unat q) (plaintext C p (cur_data (dp_reader p))))"
      by (intro cursor.plaintext_slice) simp
    also have "\<dots> = bs" by (auto simp: bs_def p' min_def)
    finally show ?thesis .
  qed (simp add: bs_def p')
  then show ?thesis
    using cursor.read_spec [of C p' buf dbg] assms(2-5) len by (auto simp: p')
qed

theorem read_delivers_next_bytes_witness:
  "let bs = take 4 (drop 7 (plaintext sample_crypto (sample_payload (replicate 512 3)) (replicate 512 3))) in
   \<exists>q. read sample_crypto (\<lambda>t. t) cursor_reader (replicate 4 0) (sample_payload (replicate 512 3)\<lparr>dp_position := 7\<rparr>) =
     Some (Ok (length bs, bs @ drop (length bs) (replicate 4 0)), q)"
  using read_delivers_next_bytes [OF sample_run sample_crypto_ok(1) sample_payload_ok(1),
      of "replicate 512 3" "replicate 4 0" "\<lambda>t. t"]
  by (simp add: sample_payload_ok Let_def) blast

text \<open>
  Seeking computes the target in unbounded arithmetic from the start, the end of the payload or
  the position; a negative target is refused and leaves the position, every other target becomes
  the position modulo 2 to the 64.
\<close>

lemma seek_classified:
  "seek q p =
     (let target = (case q of
          Start d \<Rightarrow> uint d
        | End d \<Rightarrow> uint (payload_size p) + sint d
        | Current d \<Rightarrow> uint (dp_position p) + sint d)
      in if target < 0 then Some (Err (IoError InvalidInput ''seek before start''), p)
         else Some (Ok (word_of_int target), p\<lparr>dp_position := word_of_int target\<rparr>))"
  by (simp add: seek_def Let_def)

text \<open>
  C39.  A seek past the 64-bit range is not refused: whenever the offset leads from the end of the payload or from
  the position to 2 to the 64 or beyond, the call succeeds, and what it returns and stores is the target less
  2 to the 64, a position before the one it started from.
\<close>

theorem seek_wraps_around:
  assumes "q = End d \<and> base = payload_size p \<or> q = Current d \<and> base = dp_position p"
    and "2 ^ 64 \<le> uint base + sint d"
  shows "\<exists>pos'. seek q p = Some (Ok pos', p\<lparr>dp_position := pos'\<rparr>) \<and> uint pos' = uint base + sint d - 2 ^ 64 \<and> pos' < base"
proof -
  let ?t = "uint base + sint d"
  have lt: "sint d < 2 ^ 63" using sint_lt [of d] by simp
  have "uint base < 2 ^ 64" using uint_lt2p [of base] by simp
  with lt have "?t - 2 ^ 64 < 2 ^ 64" by simp
  then have "(?t - 2 ^ 64) mod 2 ^ 64 = ?t - 2 ^ 64" using assms(2) by (intro mod_pos_pos_trivial) linarith+
  then have "?t mod 2 ^ 64 = ?t - 2 ^ 64" unfolding minus_mod_self2 .
  then have "uint (word_of_int ?t :: u64) = ?t - 2 ^ 64"
    using uint_word_of_int [of ?t, where 'a = 64] by (simp del: of_int_add)
  moreover from this lt have "(word_of_int ?t :: u64) < base" by (simp add: word_less_def)
  moreover have "seek q p = Some (Ok (word_of_int ?t), p\<lparr>dp_position := word_of_int ?t\<rparr>)"
    using assms by (auto simp: seek_def Let_def)
  ultimately show ?thesis by blast
qed

theorem seek_wraps_around_witness:
  "\<exists>pos'. seek (Current 5) (sample_payload [1]\<lparr>dp_position := 0xFFFFFFFFFFFFFFFE\<rparr>) =
     Some (Ok pos', sample_payload [1]\<lparr>dp_position := pos'\<rparr>) \<and> uint pos' = 3"
  using seek_wraps_around [of "Current 5" 5 "0xFFFFFFFFFFFFFFFE" "sample_payload [1]\<lparr>dp_position := 0xFFFFFFFFFFFFFFFE\<rparr>"] by simp blast

text \<open>
  C38.  Bytes past the end of the container do not read back as zero: a data unit behind the end is
  read as the decryption of zero bytes under its tweak.
\<close>

theorem past_the_end_is_decrypted:
  assumes "crypto_ok C" and "payload_ok p" and "xts_cipher (dp_master_key p) = Some (A, k1, k2)"
    and "length (cur_data (dp_reader p)) \<le> unat (dp_payload_offset p) + u * dp_sector_size p"
    and "unat (dp_payload_offset p) + u * dp_sector_size p + dp_sector_size p \<le> isize_MAX"
  shows "\<exists>c. read_at C cursor_reader (of_nat (u * dp_sector_size p)) (replicate (dp_sector_size p) 0) p =
     Some (Ok (decrypt_sector C A k1 k2
         (to_le_bytes 16 (of_nat (unat (dp_iv_tweak p) + u * unit_step (dp_sector_size p)) :: u128))
         (replicate (dp_sector_size p) 0)), p\<lparr>dp_reader := c\<rparr>)"
proof -
  let ?n = "dp_sector_size p" and ?img = "cur_data (dp_reader p)"
  have n: "0 < ?n" using assms(2) by (simp add: payload_ok_def)
  have off: "unat (of_nat (u * ?n) :: u64) = u * ?n" using assms(5) by (simp add: unat_of_nat del: of_nat_mult)
  have "unit_plain C p ?img u = decrypt_sector C A k1 k2
      (to_le_bytes 16 (of_nat (unat (dp_iv_tweak p) + u * unit_step ?n) :: u128)) (replicate ?n 0)"
    using assms(3,4) by (simp add: unit_plain_def unit_cipher_def)
  moreover have "map (plain_byte C p ?img) [u * ?n..<u * ?n + ?n] = unit_plain C p ?img u"
    using unit_slice [of p "u * ?n" ?n C ?img] n length_unit_plain [OF assms(1), of p ?img u] assms(3) by simp
  ultimately show ?thesis
    using cursor.read_at_spec [OF assms(1,2), of "of_nat (u * ?n)" "replicate ?n 0"] assms(4,5)
    by (auto simp: off simp del: of_nat_mult of_nat_add)
qed

theorem past_the_end_is_decrypted_witness:
  "\<exists>c. read_at sample_crypto cursor_reader (of_nat (1 * 512)) (replicate 512 0) (sample_payload (replicate 512 3)) =
     Some (Ok (replicate 512 (-1)), sample_payload (replicate 512 3)\<lparr>dp_reader := c\<rparr>)"
  using past_the_end_is_decrypted [OF sample_crypto_ok(1) sample_payload_ok(1) [of "replicate 512 3"],
      of Aes256 "replicate 32 1" "replicate 32 1" 1]
  by (simp add: sample_payload_ok sample_payload_def xts_cipher_def sample_crypto_def cursor_new_def)

text \<open>
  C18.  The payload is a reader in its own right.  After any seek, to a position, from the end or from
  the current position, it stands at the target (modulo 2 to the 64), or, when the target is negative, the seek is
  refused and it stands where it was; and reading what is available from there, as the unlocking code
  would for a container inside the container, delivers exactly the plaintext from that position on,
  zero-filled behind its end, and leaves the position behind the bytes delivered.
\<close>

theorem payload_is_a_reader:
  fixes p :: "cursor DecryptedPayload"
  assumes "crypto_ok C" and "payload_ok p" and "length (cur_data (dp_reader p)) \<le> isize_MAX" and "len \<le> isize_MAX"
  shows "let target = (case q of Start d \<Rightarrow> uint d | End d \<Rightarrow> uint (payload_size p) + sint d | Current d \<Rightarrow> uint (dp_position p) + sint d);
         here = (if target < 0 then unat (dp_position p) else nat (target mod 2 ^ 64));
         bs = take len (drop here (plaintext C p (cur_data (dp_reader p))))
     in \<exists>p'. seek q p = Some (if target < 0 then Err (IoError InvalidInput ''seek before start'') else Ok (of_nat here), p') \<and>
       unat (dp_position p') = here \<and>
       (\<exists>p''. read_available (rd_read (payload_reader C dbg cursor_reader)) len p' =
          Some (Ok (length bs, bs @ replicate (len - length bs) 0), p'') \<and> unat (dp_position p'') = here + length bs)"
proof -
  define target where "target = (case q of Start d \<Rightarrow> uint d | End d \<Rightarrow> uint (payload_size p) + sint d | Current d \<Rightarrow> uint (dp_position p) + sint d)"
  define here where "here = (if target < 0 then unat (dp_position p) else nat (target mod 2 ^ 64))"
  define p' where "p' = (if target < 0 then p else p\<lparr>dp_position := word_of_int target\<rparr>)"
  have nat: "nat (target mod 2 ^ 64) = unat (word_of_int target :: u64)" by (simp add: unat_eq_nat_uint uint_word_of_int)
  have run: "seek q p = Some (if target < 0 then Err (IoError InvalidInput ''seek before start'') else Ok (of_nat here), p')"
    unfolding here_def nat by (simp add: seek_def target_def [symmetric] p'_def Let_def)
  have pos: "unat (dp_position p') = here" unfolding here_def nat by (simp add: p'_def)
  have ok: "cursor.view_ok C p'" and view: "cursor.view C p' = plaintext C p (cur_data (dp_reader p))"
    using assms(1-3) by (auto simp: p'_def cursor.view_ok_def cursor.view_def plaintext_def)
  define bs where "bs = take len (drop here (plaintext C p (cur_data (dp_reader p))))"
  have "payload.available C p' len = bs" by (simp add: payload.available_def view pos bs_def)
  then obtain p'' where "read_available (rd_read (payload_reader C dbg cursor_reader)) len p' =
      Some (Ok (length bs, bs @ replicate (len - length bs) 0), p'')" "unat (dp_position p'') = here + length bs"
    using payload.read_available_moves [OF ok assms(4), of dbg] pos by auto
  with run pos show ?thesis
    unfolding Let_def target_def [symmetric] here_def [symmetric] bs_def [symmetric] by (intro exI conjI)
qed

theorem payload_is_a_reader_witness:
  "let bs = take 8 (drop 500 (plaintext sample_crypto (sample_payload (replicate 512 3)) (replicate 512 3))) in
   \<exists>p'. seek (Start 500) (sample_payload (replicate 512 3)) = Some (Ok 500, p') \<and>
     (\<exists>p''. read_available (rd_read (payload_reader sample_crypto (\<lambda>t. t) cursor_reader)) 8 p' =
        Some (Ok (length bs, bs @ replicate (8 - length bs) 0), p''))"
  using payload_is_a_reader [OF sample_crypto_ok(1) sample_payload_ok(1), of "replicate 512 3" 8 "Start 500" "\<lambda>t. t"]
  by (simp add: sample_payload_ok Let_def) blast

end
