(* ===== verification/Unlock.thy ===== *)
theory Unlock
  imports Payload
begin

text \<open>
  What the unlocking code of the theory \<open>Volume\<close> computes.  Over a reader that keeps its contract,
  trying the keyslots amounts to the pure functions \<open>open_slot1\<close> and \<open>open_slot2\<close> of the bytes of
  the container; the loops return the result of the first keyslot that opens.
\<close>

section \<open>Specification\<close>

text \<open>The key that an area of key material holds under a slot key; \<open>None\<close> if it is cut short.\<close>

definition area_candidate ::
  "crypto_api \<Rightarrow> string \<Rightarrow> string \<Rightarrow> bytes \<Rightarrow> nat \<Rightarrow> nat \<Rightarrow> bytes \<Rightarrow> nat \<Rightarrow> bytes option" where
  "area_candidate C mode hspec key kb n img off =
     (case material_len kb n of
        Ok len \<Rightarrow>
          let material = take len (drop off img) in
          if length material < len then None
          else (case xts_decrypt_area C mode key material 512 0 of
                  Ok plain \<Rightarrow> (case merge C hspec plain kb n of Ok mk \<Rightarrow> Some mk | _ \<Rightarrow> None)
                | _ \<Rightarrow> None)
      | _ \<Rightarrow> None)"

text \<open>The parameters of an area that the code supports.\<close>

definition area_ok :: "string \<Rightarrow> string \<Rightarrow> bytes \<Rightarrow> nat \<Rightarrow> bool" where
  "area_ok mode hspec key n \<longleftrightarrow>
     mode = ''xts-plain64'' \<and> xts_cipher key \<noteq> None \<and> hash_of_name hspec \<noteq> None \<and> n \<le> MAX_STRIPES"

text \<open>A LUKS1 keyslot: the master key, if the passphrase opens the slot and the digest agrees.\<close>

definition open_slot1 :: "crypto_api \<Rightarrow> Luks1Header \<Rightarrow> bytes \<Rightarrow> bytes \<Rightarrow> Keyslot \<Rightarrow> bytes option" where
  "open_slot1 C h img passphrase slot =
     (case hash_of_name (hash_spec h) of
        None \<Rightarrow> None
      | Some D \<Rightarrow>
          let kb = unat (key_bytes h);
              key = pbkdf2_hmac C D passphrase (salt slot) (max (iterations slot) 1) kb
          in (case area_candidate C (cipher_mode h) (hash_spec h) key kb (unat (stripes slot)) img
                     (unat (key_material_offset slot) * 512) of
                None \<Rightarrow> None
              | Some mk \<Rightarrow>
                  if pbkdf2_hmac C D mk (mk_digest_salt h) (max (mk_digest_iter h) 1) 20 = mk_digest h
                  then Some mk else None))"

text \<open>A LUKS2 keyslot, with the digests that refer to it.\<close>

definition kdf_key :: "crypto_api \<Rightarrow> Luks2Kdf \<Rightarrow> bytes \<Rightarrow> nat \<Rightarrow> bytes option" where
  "kdf_key C k passphrase n =
     (case k of
        Argon2 knd t m c slt \<Rightarrow>
          (case argon2_of_name knd of
             None \<Rightarrow> None
           | Some A \<Rightarrow>
               (case argon2_run C A \<lparr>kind = knd, time = t, memory = m, cpus = c, argon_salt = slt\<rparr>
                       passphrase n t (replicate n 0) of
                  Ok key \<Rightarrow> Some key | _ \<Rightarrow> None))
      | Pbkdf2 h iters slt \<Rightarrow>
          map_option (\<lambda>D. pbkdf2_hmac C D passphrase slt (max iters 1) n) (hash_of_name h))"

definition digest_accepts :: "crypto_api \<Rightarrow> string \<Rightarrow> bytes \<Rightarrow> Luks2Digest \<Rightarrow> bool" where
  "digest_accepts C sid mk d \<longleftrightarrow>
     digest_kind d = ''pbkdf2'' \<and> sid \<in> set (digest_keyslots d) \<and>
     (case hash_of_name (digest_hash d) of
        None \<Rightarrow> False
      | Some D \<Rightarrow>
          pbkdf2_hmac C D mk (digest_salt d) (max (digest_iterations d) 1) (length (digest_value d)) = digest_value d)"

definition open_slot2 :: "crypto_api \<Rightarrow> Luks2Header \<Rightarrow> bytes \<Rightarrow> bytes \<Rightarrow> Luks2Keyslot \<Rightarrow> bytes option" where
  "open_slot2 C h img passphrase slot =
     (case kdf_key C (kdf slot) passphrase (key_size slot) of
        None \<Rightarrow> None
      | Some key \<Rightarrow>
          (case area_candidate C (snd (split_encryption (area_encryption slot))) (af_hash slot) key
                  (key_size slot) (unat (af_stripes slot)) img (unat (area_offset slot)) of
             None \<Rightarrow> None
           | Some mk \<Rightarrow> if list_ex (digest_accepts C (slot_id slot) mk) (digests h) then Some mk else None))"

text \<open>The first keyslot that opens.\<close>

fun first_open :: "('k \<Rightarrow> bytes option) \<Rightarrow> 'k list \<Rightarrow> bytes option" where
  "first_open f [] = None"
| "first_open f (k # ks) = (case f k of Some mk \<Rightarrow> Some mk | None \<Rightarrow> first_open f ks)"

lemma first_open_Some: "first_open f ks = Some mk \<Longrightarrow> \<exists>k \<in> set ks. f k = Some mk"
  by (induction ks) (auto split: option.splits)

lemma first_open_None: "first_open f ks = None \<longleftrightarrow> (\<forall>k \<in> set ks. f k = None)"
  by (induction ks) (auto split: option.splits)

section \<open>The deadline\<close>

lemma remaining_value:
  "remaining d tried s =
     (let e = reading s (tick s) - started d in
      Some (if e < total d then Ok (min (total d - e) DERIVATION_BUDGET)
            else Err (UnlockBudgetExceeded tried (as_secs (total d))), s\<lparr>tick := Suc (tick s)\<rparr>))"
  by (simp add: remaining_def Let_def bindM_run)

text \<open>A clock that stands still, and a deadline taken from it that leaves time.\<close>

definition idle :: "UnlockDeadline \<Rightarrow> 'x clock_scheme \<Rightarrow> bool" where
  "idle dl s \<longleftrightarrow> 0 < total dl \<and> (\<forall>n. reading s n = started dl)"

lemma remaining_cases:
  obtains left where "remaining d tried s = Some (Ok left, s\<lparr>tick := Suc (tick s)\<rparr>)"
  | "remaining d tried s =
      Some (Err (UnlockBudgetExceeded tried (as_secs (total d))), s\<lparr>tick := Suc (tick s)\<rparr>)" "\<not> idle d s"
proof (cases "reading s (tick s) - started d < total d")
  case True
  then show ?thesis by (intro that(1)) (simp add: remaining_value Let_def)
next
  case False
  then show ?thesis by (intro that(2)) (auto simp: remaining_value idle_def Let_def)
qed

section \<open>Derivations\<close>

lemma derive_key_cases:
  obtains (Key) D s' where "hash_of_name h = Some D" "n \<le> MAX_KEY_BYTES"
      "derive_key_within C h pw slt iters n budget s = Some (Ok (pbkdf2_hmac C D pw slt (max iters 1) n), s')"
      "clock_ahead s s'"
  | (Refused) e s' where "derive_key_within C h pw slt iters n budget s = Some (Err e, s')"
      "e \<noteq> AuthenticationFailed" "clock_ahead s s'"
      "\<not> ((\<exists>dl. idle dl s) \<and> n \<le> MAX_KEY_BYTES \<and> hash_of_name h \<noteq> None)"
proof -
  have z: "pbkdf2_projection 0 i = 0" for i by (simp add: pbkdf2_projection_def sat_mul_u128_def nanos_clamped_def)
  have idle: "calibration_time s = 0" if "idle dl s" for dl
    using that by (auto simp: idle_def calibration_time_def)
  show ?thesis
  proof (cases "MAX_KEY_BYTES < n \<or> hash_of_name h = None")
    case True
    obtain x s' where run: "derive_key_within C h pw slt iters n budget s = Some (x, s')" "clock_ahead s s'"
      using derive_key_returns [of C h pw slt iters n budget s] by blast
    with True obtain e where "x = Err e" "e \<noteq> AuthenticationFailed"
      by (auto simp: derive_key_value split: if_splits)
    with run True show ?thesis by (intro Refused [of e s']) auto
  next
    case False
    then obtain D where D: "hash_of_name h = Some D" "n \<le> MAX_KEY_BYTES" by auto
    show ?thesis
    proof (cases "CALIBRATION_ITERS < max iters 1 \<and> budget < pbkdf2_projection (calibration_time s) (max iters 1)")
      case True
      then have "\<not> (\<exists>dl. idle dl s)" using idle z by auto
      with True D show ?thesis by (intro Refused) (auto simp: derive_key_value Let_def)
    next
      case False
      obtain x s' where run: "derive_key_within C h pw slt iters n budget s = Some (x, s')" "clock_ahead s s'"
        using derive_key_returns [of C h pw slt iters n budget s] by blast
      with False D have "x = Ok (pbkdf2_hmac C D pw slt (max iters 1) n)"
        by (auto simp: derive_key_value Let_def split: if_splits)
      with run D show ?thesis by (intro Key [of D s']) simp_all
    qed
  qed
qed

text \<open>A KDF whose parameters the code and the crates accept.\<close>

definition kdf_ready :: "crypto_api \<Rightarrow> Luks2Kdf \<Rightarrow> bytes \<Rightarrow> nat \<Rightarrow> bool" where
  "kdf_ready C k passphrase n \<longleftrightarrow> n \<le> MAX_KEY_BYTES \<and> kdf_key C k passphrase n \<noteq> None \<and>
     (case k of
        Argon2 knd t m c slt \<Rightarrow> m \<le> MAX_ARGON2_MEMORY_KIB \<and>
          (1 < t \<longrightarrow> kdf_key C (Argon2 knd 1 m c slt) passphrase n \<noteq> None)
      | Pbkdf2 h iters slt \<Rightarrow> True)"

lemma argon2_run_cases:
  obtains key where "argon2_run C A p pw n t out = Ok key"
  | e where "argon2_run C A p pw n t out = Err e" "e \<noteq> AuthenticationFailed"
  by (cases "argon2_params C (memory p) t (cpus p) n";
      cases "argon2_hash C A (memory p) t (cpus p) pw (argon_salt p) (length out)")
    (auto simp: argon2_run_def intro: that)

lemma derive_argon2_cases:
  fixes p :: Argon2Params
  defines "k \<equiv> Argon2 (kind p) (time p) (memory p) (cpus p) (argon_salt p)"
  obtains (Key) key s' where "kdf_key C k pw n = Some key" "n \<le> MAX_KEY_BYTES"
      "derive_key_argon2_within C p pw n budget s = Some (Ok key, s')" "clock_ahead s s'"
  | (Refused) e s' where "derive_key_argon2_within C p pw n budget s = Some (Err e, s')"
      "e \<noteq> AuthenticationFailed" "clock_ahead s s'" "\<not> ((\<exists>dl. idle dl s) \<and> kdf_ready C k pw n)"
proof -
  have p: "\<lparr>kind = kind p, time = t, memory = memory p, cpus = cpus p, argon_salt = argon_salt p\<rparr> = p\<lparr>time := t\<rparr>" for t
    by simp
  have run_time: "argon2_run C A (p\<lparr>time := t'\<rparr>) pw n t out = argon2_run C A p pw n t out" for A t t' out
    by (simp add: argon2_run_def split: option.split)
  have z: "argon2_projection 0 i = 0" for i by (simp add: argon2_projection_def sat_mul_u128_def nanos_clamped_def)
  have idle: "argon2_projection (calibration_time s) i = 0" if "idle dl s" for dl i
    using that z by (auto simp: idle_def calibration_time_def)
  have key: "kdf_key C (Argon2 (kind p) t (memory p) (cpus p) (argon_salt p)) pw n = Some y \<longleftrightarrow>
      (\<exists>A. argon2_of_name (kind p) = Some A \<and> argon2_run C A p pw n t (replicate n 0) = Ok y)" for t y
    unfolding kdf_key_def by (auto simp: p run_time split: option.splits outcome.splits)
  obtain x s' where run: "derive_key_argon2_within C p pw n budget s = Some (x, s')" "clock_ahead s s'" "\<not> is_Panic x"
    using derive_argon2_returns [of C p pw n budget s] by blast
  show ?thesis
  proof (cases x)
    case (Ok y)
    with run derive_argon2_Ok [of C p pw n budget s y s'] show ?thesis
      by (intro Key [of y s']) (simp_all add: k_def key)
  next
    case (Err e)
    have "e \<noteq> AuthenticationFailed"
      using run(1) Err unfolding derive_argon2_value Let_def
      by (auto simp: argon2_run_def split: option.splits if_splits outcome.splits sum.splits)
    moreover have "\<not> ((\<exists>dl. idle dl s) \<and> kdf_ready C k pw n)"
    proof
      assume "(\<exists>dl. idle dl s) \<and> kdf_ready C k pw n"
      then obtain dl y where "idle dl s" "kdf_key C k pw n = Some y" "n \<le> MAX_KEY_BYTES"
        "memory p \<le> MAX_ARGON2_MEMORY_KIB"
        "1 < time p \<longrightarrow> (\<exists>y'. kdf_key C (Argon2 (kind p) 1 (memory p) (cpus p) (argon_salt p)) pw n = Some y')"
        by (auto simp: kdf_ready_def k_def)
      with run(1) Err show False
        unfolding derive_argon2_value k_def key Let_def by (auto simp: idle split: if_splits)
    qed
    ultimately show ?thesis using run Err by (intro Refused [of e s']) simp_all
  next
    case (Panic q)
    with run show ?thesis by simp
  qed
qed

lemma derive_slot_key_cases:
  obtains (Key) key s' where "kdf_key C (kdf slot) pw (key_size slot) = Some key" "key_size slot \<le> MAX_KEY_BYTES"
      "derive_slot_key C pw slot left s = Some (Ok key, s')" "clock_ahead s s'"
  | (Refused) e s' where "derive_slot_key C pw slot left s = Some (Err e, s')"
      "e \<noteq> AuthenticationFailed" "clock_ahead s s'"
      "\<not> ((\<exists>dl. idle dl s) \<and> kdf_ready C (kdf slot) pw (key_size slot))"
proof (cases "kdf slot")
  case (Argon2 knd t m c slt)
  then show ?thesis
    using that derive_argon2_cases [of C "\<lparr>kind = knd, time = t, memory = m, cpus = c, argon_salt = slt\<rparr>"
        pw "key_size slot" left s thesis]
    by (simp add: derive_slot_key_def)
next
  case (Pbkdf2 h iters slt)
  show ?thesis
  proof (cases rule: derive_key_cases [of h "key_size slot" C pw slt iters left s, case_names Key' Refused'])
    case (Key' D s')
    then show ?thesis using Pbkdf2 by (intro Key [of _ s']) (auto simp: derive_slot_key_def kdf_key_def)
  next
    case (Refused' e s')
    then show ?thesis using Pbkdf2
      by (intro Refused [of e s']) (auto simp: derive_slot_key_def kdf_key_def kdf_ready_def)
  qed
qed

section \<open>Areas of key material\<close>

lemma xts_area_cases:
  assumes "tweaks_fit unit_size (length buffer) (unat base)"
  obtains plain where "xts_decrypt_area C mode key buffer unit_size base = Ok plain"
      "mode = ''xts-plain64''" "xts_cipher key \<noteq> None"
  | e where "xts_decrypt_area C mode key buffer unit_size base = Err e" "e \<noteq> AuthenticationFailed"
      "mode \<noteq> ''xts-plain64'' \<or> xts_cipher key = None"
proof (cases "mode = ''xts-plain64'' \<and> xts_cipher key \<noteq> None")
  case True
  then obtain plain where "xts_decrypt_area C mode key buffer unit_size base = Ok plain"
    using assms by (auto simp: xts_decrypt_area_value)
  with True show ?thesis by (intro that(1) [of plain]) auto
next
  case False
  then obtain e where "xts_decrypt_area C mode key buffer unit_size base = Err e" "e \<noteq> AuthenticationFailed"
    using assms by (cases "mode = ''xts-plain64''"; cases "xts_cipher key") (auto simp: xts_decrypt_area_value)
  with False show ?thesis by (intro that(2) [of e]) blast+
qed

lemma merge_cases:
  assumes "crypto_ok C" and "area_fits n k"
  obtains mk where "merge C h material n k = Ok mk" "length mk = n" "hash_of_name h \<noteq> None"
  | e where "merge C h material n k = Err e" "e \<noteq> AuthenticationFailed" "hash_of_name h = None \<or> MAX_STRIPES < k"
proof (cases "MAX_STRIPES < k")
  case False
  show ?thesis
  proof (cases "hash_of_name h")
    case (Some D)
    obtain mk where "af_merge C D material n k = Ok mk" "length mk = n"
      using af_merge_total [OF assms(1), of n k D material] area_fits_total [OF assms(2)] by blast
    with False Some show ?thesis by (intro that(1) [of mk]) (simp_all add: merge_by_name)
  qed (use False that(2) in \<open>auto simp: merge_by_name\<close>)
qed (auto simp: merge_by_name intro: that(2))

lemma material_len_cases:
  assumes "n \<le> MAX_KEY_BYTES"
  obtains len where "material_len n k = Ok len" "len \<le> 2 ^ 30" "k \<le> MAX_STRIPES" "area_fits n k"
  | e where "material_len n k = Err e" "e \<noteq> AuthenticationFailed" "MAX_STRIPES < k"
proof (cases "MAX_STRIPES < k")
  case True
  then show ?thesis by (intro that(2)) (auto simp: material_len_def)
next
  case False
  have n: "n \<le> 1024" using assms by (simp add: MAX_KEY_BYTES_def)
  have "k * n \<le> 2 ^ 20 * 1024" using False n by (intro mult_le_mono) (simp_all add: MAX_STRIPES_def)
  then have "area_fits n k" using n by (simp add: area_fits_def)
  moreover obtain len where "material_len n k = Ok len" "len \<le> 2 ^ 30"
    using material_len_total(2) [OF n, of k] False by auto
  ultimately show ?thesis using False by (intro that(1) [of len]) simp_all
qed

lemma with_reader_run:
  "m (rd_state w) = Some (x, r) \<Longrightarrow> with_reader m w = Some (x, w\<lparr>rd_state := r\<rparr>)"
  by (simp add: with_reader_def)

text \<open>The part that both loops share, up to the candidate key, with what follows as \<open>skip\<close> and \<open>go\<close>.\<close>

definition area_prog ::
  "crypto_api \<Rightarrow> 'r reader \<Rightarrow> string \<Rightarrow> string \<Rightarrow> bytes \<Rightarrow> nat \<Rightarrow> nat \<Rightarrow> u64 \<Rightarrow>
   ('r world, LuksError, bytes) prog \<Rightarrow> (bytes \<Rightarrow> ('r world, LuksError, bytes) prog) \<Rightarrow>
   ('r world, LuksError, bytes) prog" where
  "area_prog C R mode hspec key kb k off skip go =
     bindM (liftR (material_len kb k)) (\<lambda>mlen.
     bindM (liftR (vec_zeroed mlen)) (\<lambda>_.
     bindM (with_reader (seek_to R (Start off))) (\<lambda>_.
     bindM (with_reader (read_available (rd_read R) mlen)) (\<lambda>(n, material).
     if n < mlen then skip
     else
     bindM (liftR (xts_decrypt_area C mode key material 512 0)) (\<lambda>plain.
     bindM (liftR (merge C hspec plain kb k)) go)))))"

context byte_reader
begin

definition world_step :: "'r world \<Rightarrow> 'r world \<Rightarrow> bool" where
  "world_step w w' \<longleftrightarrow> same_source (rd_state w) (rd_state w') \<and> reading w' = reading w"

lemma world_step_clock: "inv (rd_state w) \<Longrightarrow> clock_ahead w w' \<Longrightarrow> world_step w w'"
  by (auto simp: world_step_def clock_ahead_def same_source_def)

lemma world_step_trans: "world_step w w' \<Longrightarrow> world_step w' w'' \<Longrightarrow> world_step w w''"
  by (auto simp: world_step_def same_source_def)

lemma world_stepD:
  "world_step w w' \<Longrightarrow> inv (rd_state w')" "world_step w w' \<Longrightarrow> content (rd_state w') = content (rd_state w)"
  "world_step w w' \<Longrightarrow> idle dl w' = idle dl w"
  by (auto simp: world_step_def same_source_def idle_def)

text \<open>Reading the key material of an area.\<close>

lemma area_prog_run:
  fixes w :: "'r world" and off :: u64 and len :: nat
  defines "mat \<equiv> take len (drop (unat off) (content (rd_state w)))"
  assumes inv: "inv (rd_state w)" and len: "material_len kb k = Ok len" "len \<le> isize_MAX"
  shows "\<exists>w'. world_step w w' \<and> area_prog C R mode hspec key kb k off skip go w =
      (if length mat < len then skip w'
       else bindM (liftR (xts_decrypt_area C mode key mat 512 0)) (\<lambda>plain.
            bindM (liftR (merge C hspec plain kb k)) go) w')"
proof -
  obtain r1 where r1: "seek_to R (Start off) (rd_state w) = Some (Ok off, r1)" "same_source (rd_state w) r1"
    "pos r1 = unat off"
    using seek_to_Start [OF inv, of off] by blast
  have src: "inv r1" "content r1 = content (rd_state w)" using r1 by (auto simp: same_source_def)
  have "available r1 len = mat" using r1 src by (simp add: available_def mat_def)
  then obtain r2 where r2: "read_available (rd_read R) len r1 =
      Some (Ok (length mat, mat @ replicate (len - length mat) 0), r2)" "same_source r1 r2"
    using read_available_spec [OF src(1) len(2)] by auto
  have "world_step w (w\<lparr>rd_state := r2\<rparr>)" using r1 r2 by (auto simp: world_step_def same_source_def)
  moreover have "area_prog C R mode hspec key kb k off skip go w =
      (if length mat < len then skip (w\<lparr>rd_state := r2\<rparr>)
       else bindM (liftR (xts_decrypt_area C mode key mat 512 0)) (\<lambda>plain.
            bindM (liftR (merge C hspec plain kb k)) go) (w\<lparr>rd_state := r2\<rparr>))"
    using len r1 r2 by (simp add: area_prog_def vec_zeroed_Ok with_reader_run)
  ultimately show ?thesis by blast
qed

text \<open>
  The result \<open>run\<close> of a pass over a keyslot that was entered in \<open>w\<close>: a refusal, which a ready keyslot
  excludes; the rest of the loop, \<open>skip\<close>, if the slot does not open; or the key of an open slot.
\<close>

definition slot_result ::
  "bool \<Rightarrow> 'r world \<Rightarrow> (bytes res \<times> 'r world) option \<Rightarrow> ('r world, LuksError, bytes) prog \<Rightarrow> bytes option \<Rightarrow> bool" where
  "slot_result ready w run skip op \<longleftrightarrow> (\<exists>w'. world_step w w' \<and>
     ((\<exists>e. run = Some (Err e, w') \<and> e \<noteq> AuthenticationFailed \<and> \<not> ready) \<or>
      (run = skip w' \<and> op = None) \<or> (\<exists>mk. run = Some (Ok mk, w') \<and> op = Some mk)))"

lemma slot_failed: "world_step w w' \<Longrightarrow> e \<noteq> AuthenticationFailed \<Longrightarrow> \<not> ready \<Longrightarrow> slot_result ready w (Some (Err e, w')) skip op"
  by (auto simp: slot_result_def)

lemma slot_decided:
  "world_step w w' \<Longrightarrow> slot_result ready w (if good then Some (Ok mk, w') else skip w') skip (if good then Some mk else None)"
  by (auto simp: slot_result_def)

lemma slot_later: "world_step w w1 \<Longrightarrow> slot_result ready w1 run skip op \<Longrightarrow> slot_result ready w run skip op"
  unfolding slot_result_def using world_step_trans by blast

lemma area_result:
  fixes w :: "'r world"
  assumes C: "crypto_ok C" and inv: "inv (rd_state w)" and kb: "kb \<le> MAX_KEY_BYTES"
    and ready: "ready \<Longrightarrow> area_ok mode hspec key k"
    and go: "\<And>mk w'. world_step w w' \<Longrightarrow> slot_result ready w' (go mk w') skip (check mk)"
  shows "slot_result ready w (area_prog C R mode hspec key kb k off skip go w) skip
     (Option.bind (area_candidate C mode hspec key kb k (content (rd_state w)) (unat off)) check)"
proof (cases rule: material_len_cases [OF kb, of k, case_names Ok Err])
  case (Err e)
  have "world_step w w" using inv by (intro world_step_clock) simp_all
  moreover have "\<not> ready" using Err(3) ready by (auto simp: area_ok_def)
  ultimately show ?thesis using Err by (auto simp: area_prog_def intro: slot_failed)
next
  case (Ok len)
  define mat where "mat = take len (drop (unat off) (content (rd_state w)))"
  obtain w' where w': "world_step w w'" "area_prog C R mode hspec key kb k off skip go w =
      (if length mat < len then skip w'
       else bindM (liftR (xts_decrypt_area C mode key mat 512 0)) (\<lambda>plain.
            bindM (liftR (merge C hspec plain kb k)) go) w')"
    using area_prog_run [OF inv Ok(1), of C mode hspec key off skip go] Ok(2) by (auto simp: mat_def)
  have cand: "area_candidate C mode hspec key kb k (content (rd_state w)) (unat off) =
      (if length mat < len then None
       else case xts_decrypt_area C mode key mat 512 0 of
              Ok plain \<Rightarrow> (case merge C hspec plain kb k of Ok mk \<Rightarrow> Some mk | _ \<Rightarrow> None)
            | _ \<Rightarrow> None)"
    unfolding mat_def by (simp add: area_candidate_def Ok(1) Let_def)
  have fit: "tweaks_fit 512 (length mat) (unat (0 :: u128))"
    using Ok(2) by (simp add: tweaks_fit_def unit_step_def mat_def)
  show ?thesis
  proof (cases "length mat < len")
    case True
    with w' slot_decided [OF w'(1), of ready False] show ?thesis by (simp add: cand)
  next
    case False
    show ?thesis
    proof (cases rule: xts_area_cases [OF fit, of C mode key, case_names Plain Bad])
      case (Bad e)
      then have "\<not> ready" using ready by (auto simp: area_ok_def)
      with False w' Bad(1,2) show ?thesis by (simp add: slot_failed)
    next
      case (Plain plain)
      show ?thesis
      proof (cases rule: merge_cases [OF C Ok(4), of hspec plain, case_names Key Bad])
        case (Bad e)
        then have "\<not> ready" using ready by (auto simp: area_ok_def)
        with False w' Plain(1) Bad(1,2) show ?thesis by (simp add: slot_failed)
      next
        case (Key mk)
        with False w' Plain(1) slot_later [OF w'(1) go [OF w'(1)]] show ?thesis by (simp add: cand)
      qed
    qed
  qed
qed

end

section \<open>LUKS1\<close>

text \<open>The parameters of a LUKS1 container that the code supports.\<close>

definition supported1 :: "Luks1Header \<Rightarrow> bool" where
  "supported1 h \<longleftrightarrow> cipher_mode h = ''xts-plain64'' \<and> hash_of_name (hash_spec h) \<noteq> None \<and>
     (key_bytes h = 32 \<or> key_bytes h = 64) \<and>
     list_all (\<lambda>s. unat (stripes s) \<le> MAX_STRIPES) (active_keyslots h)"

text \<open>
  An answer \<open>x\<close> agrees with a specified answer.  On a calm run (the clock stands still and every
  parameter is supported) they are equal; otherwise the code may also refuse, but it never claims
  \<open>AuthenticationFailed\<close> wrongly and never panics.
\<close>

fun agrees :: "bool \<Rightarrow> 'a res \<Rightarrow> 'a res \<Rightarrow> bool" where
  "agrees calm spec (Ok v) = (spec = Ok v)"
| "agrees calm spec (Err e) = (spec = Err e \<or> \<not> calm \<and> e \<noteq> AuthenticationFailed)"
| "agrees calm spec (Panic q) = False"

context byte_reader
begin

text \<open>A derivation behind a check of the deadline.\<close>

lemma timed_derive:
  assumes inv: "inv (rd_state w)"
  obtains (Key) D w' where "hash_of_name h = Some D" "n \<le> MAX_KEY_BYTES" "world_step w w'"
      "bindM (remaining dl t) (\<lambda>left. bindM (derive_key_within C h pw slt iters n left) go) w =
         go (pbkdf2_hmac C D pw slt (max iters 1) n) w'"
  | (Fail) e w' where "world_step w w'" "e \<noteq> AuthenticationFailed"
      "bindM (remaining dl t) (\<lambda>left. bindM (derive_key_within C h pw slt iters n left) go) w = Some (Err e, w')"
      "\<not> (idle dl w \<and> n \<le> MAX_KEY_BYTES \<and> hash_of_name h \<noteq> None)"
proof (cases rule: remaining_cases [of dl t w, case_names Left Late])
  case Late
  with inv show ?thesis by (intro Fail) (auto intro: world_step_clock)
next
  case (Left left)
  let ?w1 = "w\<lparr>tick := Suc (tick w)\<rparr>"
  have s1: "world_step w ?w1" using inv by (intro world_step_clock) simp_all
  have step: "world_step w w2" if "clock_ahead ?w1 w2" for w2
    using s1 world_step_clock [OF world_stepD(1) [OF s1] that] by (rule world_step_trans)
  show ?thesis
  proof (cases rule: derive_key_cases [of h n C pw slt iters left ?w1, case_names Key' Refused])
    case (Key' D w2)
    with Left step show ?thesis by (intro Key [of D w2]) simp_all
  next
    case (Refused e w2)
    with Left step world_stepD(3) [OF s1, of dl] show ?thesis by (intro Fail [of w2 e]) auto
  qed
qed

lemma timed_slot_key:
  assumes inv: "inv (rd_state w)"
  obtains (Key) key w' where "kdf_key C (kdf slot) pw (key_size slot) = Some key"
      "key_size slot \<le> MAX_KEY_BYTES" "world_step w w'"
      "bindM (remaining dl t) (\<lambda>left. bindM (derive_slot_key C pw slot left) go) w = go key w'"
  | (Fail) e w' where "world_step w w'" "e \<noteq> AuthenticationFailed"
      "bindM (remaining dl t) (\<lambda>left. bindM (derive_slot_key C pw slot left) go) w = Some (Err e, w')"
      "\<not> (idle dl w \<and> kdf_ready C (kdf slot) pw (key_size slot))"
proof (cases rule: remaining_cases [of dl t w, case_names Left Late])
  case Late
  with inv show ?thesis by (intro Fail) (auto intro: world_step_clock)
next
  case (Left left)
  let ?w1 = "w\<lparr>tick := Suc (tick w)\<rparr>"
  have s1: "world_step w ?w1" using inv by (intro world_step_clock) simp_all
  have step: "world_step w w2" if "clock_ahead ?w1 w2" for w2
    using s1 world_step_clock [OF world_stepD(1) [OF s1] that] by (rule world_step_trans)
  show ?thesis
  proof (cases rule: derive_slot_key_cases [of C slot pw left ?w1, case_names Key' Refused])
    case (Key' key w2)
    with Left step show ?thesis by (intro Key [of key w2]) simp_all
  next
    case (Refused e w2)
    with Left step world_stepD(3) [OF s1, of dl] show ?thesis by (intro Fail [of w2 e]) auto
  qed
qed

lemma timed_result:
  fixes w :: "'r world"
  assumes inv: "inv (rd_state w)" and ready: "ready \<Longrightarrow> idle dl w \<and> n \<le> MAX_KEY_BYTES \<and> hash_of_name h \<noteq> None"
    and go: "\<And>D w'. hash_of_name h = Some D \<Longrightarrow> n \<le> MAX_KEY_BYTES \<Longrightarrow> world_step w w' \<Longrightarrow>
      slot_result ready w' (go (pbkdf2_hmac C D pw slt (max iters 1) n) w') skip op"
  shows "slot_result ready w (bindM (remaining dl t) (\<lambda>left. bindM (derive_key_within C h pw slt iters n left) go) w) skip op"
  by (cases rule: timed_derive [OF inv, of h n dl t C pw slt iters go])
    (use go ready in \<open>auto intro: slot_later slot_failed\<close>)

text \<open>
  A loop over keyslots whose every pass has a result of this kind returns the key of the first slot
  that opens.
\<close>

lemma keyslot_loop:
  fixes w :: "'r world" and loop :: "(usize \<times> 'k) list \<Rightarrow> ('r world, LuksError, bytes) prog"
  assumes nil: "\<And>w. loop [] w = Some (Err AuthenticationFailed, w)"
    and pass: "\<And>t k ks w. inv (rd_state w) \<Longrightarrow>
      slot_result (idle dl w \<and> ready k) w (loop ((t, k) # ks) w) (loop ks) (op (content (rd_state w)) k)"
    and inv: "inv (rd_state w)"
  shows "\<exists>x w'. loop ks w = Some (x, w') \<and> world_step w w' \<and>
     agrees (idle dl w \<and> list_all ready (map snd ks))
       (ok_or (first_open (op (content (rd_state w))) (map snd ks)) AuthenticationFailed) x"
  using inv
proof (induction ks arbitrary: w)
  case Nil
  then show ?case using nil world_step_clock [of w w] by auto
next
  case (Cons tk ks)
  obtain t k where tk: "tk = (t, k)" by (cases tk)
  obtain w1 where w1: "world_step w w1"
    "(\<exists>e. loop (tk # ks) w = Some (Err e, w1) \<and> e \<noteq> AuthenticationFailed \<and> \<not> (idle dl w \<and> ready k)) \<or>
     (loop (tk # ks) w = loop ks w1 \<and> op (content (rd_state w)) k = None) \<or>
     (\<exists>mk. loop (tk # ks) w = Some (Ok mk, w1) \<and> op (content (rd_state w)) k = Some mk)"
    using pass [OF Cons.prems, of k t ks] unfolding slot_result_def tk by blast
  obtain x w2 where w2: "loop ks w1 = Some (x, w2)" "world_step w1 w2"
    "agrees (idle dl w \<and> list_all ready (map snd ks))
       (ok_or (first_open (op (content (rd_state w))) (map snd ks)) AuthenticationFailed) x"
    using Cons.IH [OF world_stepD(1) [OF w1(1)]] world_stepD(2,3) [OF w1(1)] by auto
  have weaker: "agrees (idle dl w \<and> list_all ready (map snd (tk # ks))) spec x"
    if "agrees (idle dl w \<and> list_all ready (map snd ks)) spec x" for spec
    using that by (cases x) auto
  from w1 w2 weaker [OF w2(3)] world_step_trans [OF w1(1) w2(2)] show ?case
    by (elim disjE exE conjE) (auto simp: tk)
qed

text \<open>One pass over a LUKS1 keyslot.\<close>

definition ready1 :: "Luks1Header \<Rightarrow> Keyslot \<Rightarrow> bool" where
  "ready1 h slot \<longleftrightarrow> cipher_mode h = ''xts-plain64'' \<and> hash_of_name (hash_spec h) \<noteq> None \<and>
     (key_bytes h = 32 \<or> key_bytes h = 64) \<and> unat (stripes slot) \<le> MAX_STRIPES"

lemma verify1_result:
  fixes w :: "'r world"
  assumes "inv (rd_state w)" and "hash_of_name (hash_spec h) = Some D" and "ready \<Longrightarrow> idle dl w"
  shows "slot_result ready w (bindM (remaining dl t) (\<lambda>left.
      bindM (derive_key_within C (hash_spec h) mk (mk_digest_salt h) (mk_digest_iter h) MK_DIGEST_LEN left)
        (\<lambda>dig. if dig = mk_digest h then ret mk else skip)) w) skip
     (if pbkdf2_hmac C D mk (mk_digest_salt h) (max (mk_digest_iter h) 1) 20 = mk_digest h then Some mk else None)"
proof (rule timed_result [OF assms(1)])
  fix D' w' assume "hash_of_name (hash_spec h) = Some D'" "world_step w w'"
  moreover have "world_step w' w'" using world_stepD(1) [OF calculation(2)] by (intro world_step_clock) simp_all
  ultimately show "slot_result ready w' ((if pbkdf2_hmac C D' mk (mk_digest_salt h) (max (mk_digest_iter h) 1) MK_DIGEST_LEN = mk_digest h
      then ret mk else skip) w') skip
      (if pbkdf2_hmac C D mk (mk_digest_salt h) (max (mk_digest_iter h) 1) 20 = mk_digest h then Some mk else None)"
    using slot_decided [of w' w'] assms(2) by (simp add: MK_DIGEST_LEN_def if_distrib [of "\<lambda>m. m w'"] cong: if_cong)
qed (use assms(2,3) in \<open>auto simp: MK_DIGEST_LEN_def MAX_KEY_BYTES_def\<close>)

lemma recover_loop1_pass:
  fixes w :: "'r world"
  assumes C: "crypto_ok C" and inv: "inv (rd_state w)"
  shows "slot_result (idle dl w \<and> ready1 h slot) w (recover_loop1 C R h pw (unat (key_bytes h)) dl ((t, slot) # slots) w)
     (recover_loop1 C R h pw (unat (key_bytes h)) dl slots) (open_slot1 C h (content (rd_state w)) pw slot)"
proof -
  let ?kb = "unat (key_bytes h)" and ?off = "ucast (key_material_offset slot) * 512 :: u64"
  let ?skip = "recover_loop1 C R h pw ?kb dl slots" and ?ready = "idle dl w \<and> ready1 h slot"
  let ?go = "\<lambda>candidate. bindM (remaining dl t) (\<lambda>left2.
     bindM (derive_key_within C (hash_spec h) candidate (mk_digest_salt h) (mk_digest_iter h) MK_DIGEST_LEN left2)
       (\<lambda>dig. if dig = mk_digest h then ret candidate else ?skip))"
  let ?area = "\<lambda>key. area_prog C R (cipher_mode h) (hash_spec h) key ?kb (unat (stripes slot)) ?off ?skip ?go"
  have "slot_result ?ready w (bindM (remaining dl t) (\<lambda>left.
        bindM (derive_key_within C (hash_spec h) pw (salt slot) (iterations slot) ?kb left) ?area) w) ?skip
      (open_slot1 C h (content (rd_state w)) pw slot)"
  proof (rule timed_result [OF inv])
    fix D w2 assume D: "hash_of_name (hash_spec h) = Some D" "?kb \<le> MAX_KEY_BYTES" and w2: "world_step w w2"
    let ?key = "pbkdf2_hmac C D pw (salt slot) (max (iterations slot) 1) ?kb"
    let ?check = "\<lambda>mk. if pbkdf2_hmac C D mk (mk_digest_salt h) (max (mk_digest_iter h) 1) 20 = mk_digest h then Some mk else None"
    have op: "open_slot1 C h (content (rd_state w)) pw slot = Option.bind (area_candidate C (cipher_mode h) (hash_spec h) ?key ?kb
        (unat (stripes slot)) (content (rd_state w2)) (unat ?off)) ?check"
      using D world_stepD(2) [OF w2]
      by (simp add: open_slot1_def Let_def sector_product split: option.split)
    show "slot_result ?ready w2 (?area ?key w2) ?skip (open_slot1 C h (content (rd_state w)) pw slot)"
      unfolding op
    proof (rule area_result [OF C world_stepD(1) [OF w2] D(2)])
      show "area_ok (cipher_mode h) (hash_spec h) ?key (unat (stripes slot))" if ?ready
        using that C by (auto simp: ready1_def area_ok_def crypto_okD xts_cipher_def)
      show "slot_result ?ready w3 (?go mk w3) ?skip (?check mk)" if "world_step w2 w3" for mk w3
        using that w2 D(1) world_stepD(3) [OF w2] by (intro verify1_result) (auto simp: world_stepD)
    qed
  qed (auto simp: ready1_def MAX_KEY_BYTES_def)
  then show ?thesis by (simp add: area_prog_def sector_product)
qed

lemma recover_master_key1_spec:
  fixes w :: "'r world"
  assumes "crypto_ok C" and "inv (rd_state w)"
  shows "\<exists>x w'. recover_master_key1 C R h pw (unat (key_bytes h)) dl w = Some (x, w') \<and> world_step w w' \<and>
     agrees (idle dl w \<and> supported1 h)
       (ok_or (first_open (open_slot1 C h (content (rd_state w)) pw) (active_keyslots h)) AuthenticationFailed) x"
proof -
  have ready: "supported1 h \<Longrightarrow> list_all (ready1 h) (active_keyslots h)"
    by (auto simp: supported1_def ready1_def list_all_iff)
  obtain x w' where "recover_loop1 C R h pw (unat (key_bytes h)) dl (List.enumerate 0 (active_keyslots h)) w = Some (x, w')"
    "world_step w w'" "agrees (idle dl w \<and> list_all (ready1 h) (active_keyslots h))
       (ok_or (first_open (open_slot1 C h (content (rd_state w)) pw) (active_keyslots h)) AuthenticationFailed) x"
    using keyslot_loop [of "recover_loop1 C R h pw (unat (key_bytes h)) dl" dl "ready1 h" "\<lambda>img. open_slot1 C h img pw",
        OF _ recover_loop1_pass [OF assms(1)] assms(2), of "List.enumerate 0 (active_keyslots h)"] by auto
  with ready show ?thesis by (cases x) (auto simp: recover_master_key1_def)
qed

end

section \<open>LUKS2\<close>

definition digest_ready :: "string \<Rightarrow> Luks2Digest \<Rightarrow> bool" where
  "digest_ready sid d \<longleftrightarrow>
     (digest_kind d = ''pbkdf2'' \<and> sid \<in> set (digest_keyslots d) \<longrightarrow>
      length (digest_value d) \<le> MAX_KEY_BYTES \<and> hash_of_name (digest_hash d) \<noteq> None)"

definition slot2_ready :: "crypto_api \<Rightarrow> Luks2Header \<Rightarrow> bytes \<Rightarrow> Luks2Keyslot \<Rightarrow> bool" where
  "slot2_ready C h pw slot \<longleftrightarrow>
     kdf_ready C (kdf slot) pw (key_size slot) \<and> (key_size slot = 32 \<or> key_size slot = 64) \<and>
     snd (split_encryption (area_encryption slot)) = ''xts-plain64'' \<and> hash_of_name (af_hash slot) \<noteq> None \<and>
     unat (af_stripes slot) \<le> MAX_STRIPES \<and> list_all (digest_ready (slot_id slot)) (digests h)"

text \<open>The parameters of a LUKS2 container that the code supports.\<close>

definition supported2 :: "crypto_api \<Rightarrow> Luks2Header \<Rightarrow> bytes \<Rightarrow> bool" where
  "supported2 C h pw \<longleftrightarrow> list_all (slot2_ready C h pw) (keyslots2 h)"

lemma length_kdf_key: "crypto_ok C \<Longrightarrow> kdf_key C k pw n = Some key \<Longrightarrow> length key = n"
  by (auto simp: kdf_key_def crypto_okD dest: argon2_run_Ok_length split: Luks2Kdf.splits option.splits outcome.splits)

context byte_reader
begin

lemma check_digests_spec:
  fixes w :: "'r world"
  assumes "inv (rd_state w)"
  shows "\<exists>x w'. check_digests C dl t sid mk ds w = Some (x, w') \<and> world_step w w' \<and>
     agrees (idle dl w \<and> list_all (digest_ready sid) ds) (Ok (list_ex (digest_accepts C sid mk) ds)) x"
  using assms
proof (induction ds arbitrary: w)
  case Nil
  then show ?case using world_step_clock [of w w] by auto
next
  case (Cons d ds)
  show ?case
  proof (cases "digest_kind d = ''pbkdf2'' \<and> sid \<in> set (digest_keyslots d)")
    case False
    then have "check_digests C dl t sid mk (d # ds) w = check_digests C dl t sid mk ds w"
      "\<not> digest_accepts C sid mk d" "digest_ready sid d"
      by (auto simp: digest_accepts_def digest_ready_def list_ex_iff)
    then show ?thesis using Cons.IH [OF Cons.prems] by (simp del: check_digests.simps)
  next
    case True
    let ?go = "\<lambda>v. if v = digest_value d then ret True else check_digests C dl t sid mk ds"
    have eq: "check_digests C dl t sid mk (d # ds) w = bindM (remaining dl t) (\<lambda>left.
        bindM (derive_key_within C (digest_hash d) mk (digest_salt d) (digest_iterations d)
          (length (digest_value d)) left) ?go) w"
      using True by (simp add: list_ex_iff)
    show ?thesis
    proof (cases rule: timed_derive [OF Cons.prems, of "digest_hash d" "length (digest_value d)" dl t C mk
          "digest_salt d" "digest_iterations d" ?go, case_names Key Fail])
      case (Fail e w')
      then show ?thesis using eq True by (auto simp: digest_ready_def)
    next
      case (Key D w')
      let ?v = "pbkdf2_hmac C D mk (digest_salt d) (max (digest_iterations d) 1) (length (digest_value d))"
      have acc: "digest_accepts C sid mk d = (?v = digest_value d)" "digest_ready sid d"
        using True Key(1,2) by (simp_all add: digest_accepts_def digest_ready_def)
      show ?thesis
      proof (cases "?v = digest_value d")
        case True
        with Key(3,4) eq acc show ?thesis by auto
      next
        case False
        obtain x w'' where "check_digests C dl t sid mk ds w' = Some (x, w'')" "world_step w' w''"
          "agrees (idle dl w' \<and> list_all (digest_ready sid) ds) (Ok (list_ex (digest_accepts C sid mk) ds)) x"
          using Cons.IH [OF world_stepD(1) [OF Key(3)]] by blast
        with Key(3,4) eq acc False world_stepD(3) [OF Key(3), of dl] show ?thesis
          by (auto intro: world_step_trans)
      qed
    qed
  qed
qed

lemma verify2_result:
  fixes w :: "'r world"
  assumes inv: "inv (rd_state w)" and ready: "ready \<Longrightarrow> idle dl w \<and> list_all (digest_ready sid) ds"
  shows "slot_result ready w (bindM (check_digests C dl t sid mk ds) (\<lambda>ok. if ok then ret mk else skip) w) skip
     (if list_ex (digest_accepts C sid mk) ds then Some mk else None)"
proof -
  obtain x w' where ck: "check_digests C dl t sid mk ds w = Some (x, w')" "world_step w w'"
    "agrees (idle dl w \<and> list_all (digest_ready sid) ds) (Ok (list_ex (digest_accepts C sid mk) ds)) x"
    using check_digests_spec [OF inv] by blast
  show ?thesis
  proof (cases x)
    case (Ok b)
    with ck slot_decided [OF ck(2), of ready "list_ex (digest_accepts C sid mk) ds" mk skip] show ?thesis
      by (simp add: if_distrib [of "\<lambda>m. m w'"] cong: if_cong)
  next
    case (Err e)
    with ck ready show ?thesis by (auto intro: slot_failed)
  qed (use ck(3) in simp)
qed

lemma recover_loop2_pass:
  fixes w :: "'r world"
  assumes C: "crypto_ok C" and inv: "inv (rd_state w)"
  shows "slot_result (idle dl w \<and> slot2_ready C h pw slot) w (recover_loop2 C R h pw dl ((t, slot) # slots) w)
     (recover_loop2 C R h pw dl slots) (open_slot2 C h (content (rd_state w)) pw slot)"
proof -
  let ?mode = "snd (split_encryption (area_encryption slot))" and ?skip = "recover_loop2 C R h pw dl slots"
  let ?ready = "idle dl w \<and> slot2_ready C h pw slot" and ?op = "open_slot2 C h (content (rd_state w)) pw slot"
  let ?go = "\<lambda>candidate. bindM (check_digests C dl t (slot_id slot) candidate (digests h)) (\<lambda>ok.
     if ok then ret candidate else ?skip)"
  let ?area = "\<lambda>key. area_prog C R ?mode (af_hash slot) key (key_size slot) (unat (af_stripes slot)) (area_offset slot) ?skip ?go"
  have loop: "recover_loop2 C R h pw dl ((t, slot) # slots) w =
      bindM (remaining dl t) (\<lambda>left. bindM (derive_slot_key C pw slot left) ?area) w"
    by (simp add: area_prog_def Let_def)
  show ?thesis
  proof (cases rule: timed_slot_key [OF inv, of C slot pw dl t ?area, case_names Key Fail])
    case (Fail e w')
    with loop show ?thesis by (auto simp: slot2_ready_def intro: slot_failed)
  next
    case (Key key w2)
    have op: "?op = Option.bind (area_candidate C ?mode (af_hash slot) key (key_size slot) (unat (af_stripes slot))
        (content (rd_state w2)) (unat (area_offset slot)))
        (\<lambda>mk. if list_ex (digest_accepts C (slot_id slot) mk) (digests h) then Some mk else None)"
      using Key(1) world_stepD(2) [OF Key(3)] by (simp add: open_slot2_def split: option.split)
    have "slot_result ?ready w2 (?area key w2) ?skip ?op"
      unfolding op
    proof (rule area_result [OF C world_stepD(1) [OF Key(3)] Key(2)])
      show "area_ok ?mode (af_hash slot) key (unat (af_stripes slot))" if ?ready
        using that length_kdf_key [OF C Key(1)] by (auto simp: slot2_ready_def area_ok_def xts_cipher_def)
      show "slot_result ?ready w3 (?go mk w3) ?skip (if list_ex (digest_accepts C (slot_id slot) mk) (digests h) then Some mk else None)"
        if "world_step w2 w3" for mk w3
        using that world_stepD(3) [OF Key(3)] by (intro verify2_result) (auto simp: world_stepD slot2_ready_def)
    qed
    with loop Key(3,4) show ?thesis by (auto intro: slot_later)
  qed
qed

lemma recover_master_key2_spec:
  fixes w :: "'r world"
  assumes "crypto_ok C" and "inv (rd_state w)"
  shows "\<exists>x w'. recover_master_key2 C R h pw dl w = Some (x, w') \<and> world_step w w' \<and>
     agrees (idle dl w \<and> supported2 C h pw)
       (ok_or (first_open (open_slot2 C h (content (rd_state w)) pw) (keyslots2 h)) AuthenticationFailed) x"
  using keyslot_loop [of "recover_loop2 C R h pw dl" dl "slot2_ready C h pw" "\<lambda>img. open_slot2 C h img pw",
      OF _ recover_loop2_pass [OF assms(1)] assms(2), of "List.enumerate 0 (keyslots2 h)"]
  by (auto simp: recover_master_key2_def supported2_def)

end

end
