(* ===== verification/Entry.thy ===== *)
theory Entry
  imports Unlock
begin

text \<open>
  The entry points of the unlocking code against their specification: pure functions of the bytes
  of the container and the passphrase.
\<close>

section \<open>Specification\<close>

definition payload1 :: "Luks1Header \<Rightarrow> bytes \<Rightarrow> u64 \<Rightarrow> 'r \<Rightarrow> 'r DecryptedPayload" where
  "payload1 h mk sz r =
     \<lparr>dp_reader = r, dp_master_key = mk, dp_cipher_mode = cipher_mode h,
      dp_payload_offset = ucast (payload_offset h) * 512, dp_sector_size = 512, dp_iv_tweak = 0,
      dp_total_size = sz, dp_position = 0,
      dp_info = \<lparr>info_version = 1, info_cipher_name = cipher_name h, info_cipher_mode = cipher_mode h,
        info_key_bytes = key_bytes h, info_sector_size = 512\<rparr>\<rparr>"

definition payload2 :: "Luks2Segment \<Rightarrow> bytes \<Rightarrow> u64 \<Rightarrow> 'r \<Rightarrow> 'r DecryptedPayload" where
  "payload2 g mk sz r =
     \<lparr>dp_reader = r, dp_master_key = mk, dp_cipher_mode = snd (split_encryption (encryption g)),
      dp_payload_offset = segment_offset g, dp_sector_size = max (segment_sector_size g) 512,
      dp_iv_tweak = iv_tweak g, dp_total_size = sz, dp_position = 0,
      dp_info = \<lparr>info_version = 2, info_cipher_name = fst (split_encryption (encryption g)),
        info_cipher_mode = snd (split_encryption (encryption g)), info_key_bytes = of_nat (length mk),
        info_sector_size = max (segment_sector_size g) 512\<rparr>\<rparr>"

text \<open>A payload without its reader.\<close>

definition forget :: "'r DecryptedPayload \<Rightarrow> unit DecryptedPayload" where
  "forget p =
     \<lparr>dp_reader = (), dp_master_key = dp_master_key p, dp_cipher_mode = dp_cipher_mode p,
      dp_payload_offset = dp_payload_offset p, dp_sector_size = dp_sector_size p,
      dp_iv_tweak = dp_iv_tweak p, dp_total_size = dp_total_size p, dp_position = dp_position p,
      dp_info = dp_info p\<rparr>"

definition unlock1_spec :: "crypto_api \<Rightarrow> bytes \<Rightarrow> bytes \<Rightarrow> unit DecryptedPayload res" where
  "unlock1_spec C img pw =
     (if length img < 592 then Err (Io eof_error)
      else
      bindR (Header1.parse (take 592 img)) (\<lambda>h.
      if active_keyslots h = [] then Err NoActiveKeyslot
      else
      bindR (ok_or (first_open (open_slot1 C h img pw) (active_keyslots h)) AuthenticationFailed) (\<lambda>mk.
      Ok (payload1 h mk (of_nat (length img)) ()))))"

text \<open>The size of the LUKS2 header area, and its bytes, completed with zeros.\<close>

definition hdr_size_of :: "bytes \<Rightarrow> nat" where
  "hdr_size_of img = max (unat (from_be_bytes (take 8 (drop 8 img)) :: u64)) 4096"

definition hdr_area_of :: "bytes \<Rightarrow> bytes" where
  "hdr_area_of img = take (hdr_size_of img) img @ replicate (hdr_size_of img - length img) 0"

definition unlock2_spec :: "crypto_api \<Rightarrow> 'n json_api \<Rightarrow> bytes \<Rightarrow> bytes \<Rightarrow> unit DecryptedPayload res" where
  "unlock2_spec C J img pw =
     (if length img < 4096 then Err (Io eof_error)
      else
      bindR (parse2 J (hdr_area_of img)) (\<lambda>h.
      case crypt_segment h of
        None \<Rightarrow> Err NoActiveKeyslot
      | Some g \<Rightarrow>
          if keyslots2 h = [] then Err NoActiveKeyslot
          else
          bindR (ok_or (first_open (open_slot2 C h img pw) (keyslots2 h)) AuthenticationFailed) (\<lambda>mk.
          Ok (payload2 g mk (of_nat (length img)) ()))))"

definition version_of :: "bytes \<Rightarrow> u16" where
  "version_of img = from_be_bytes (take 2 (drop 6 img))"

definition unlock_spec :: "crypto_api \<Rightarrow> 'n json_api \<Rightarrow> bytes \<Rightarrow> bytes \<Rightarrow> unit DecryptedPayload res" where
  "unlock_spec C J img pw =
     (if length img < 8 then Err (Io eof_error)
      else if version_of img = 1 then unlock1_spec C img pw
      else if version_of img = 2 then unlock2_spec C J img pw
      else if take 6 img = LUKS_MAGIC then Err (UnsupportedVersion (version_of img))
      else Err (NotLuks (take 6 img)))"

text \<open>Every parameter of the container is one that the code supports.\<close>

definition image_supported1 :: "bytes \<Rightarrow> bool" where
  "image_supported1 img \<longleftrightarrow> (case Header1.parse (take 592 img) of Ok h \<Rightarrow> supported1 h | _ \<Rightarrow> True)"

definition image_supported2 :: "crypto_api \<Rightarrow> 'n json_api \<Rightarrow> bytes \<Rightarrow> bytes \<Rightarrow> bool" where
  "image_supported2 C J img pw \<longleftrightarrow> (case parse2 J (hdr_area_of img) of Ok h \<Rightarrow> supported2 C h pw | _ \<Rightarrow> True)"

definition still :: "'x clock_scheme \<Rightarrow> bool" where
  "still s \<longleftrightarrow> (\<forall>n. reading s n = reading s 0)"

lemma forget_payload [simp]: "forget (payload1 h mk n r) = payload1 h mk n ()" "forget (payload2 g mk n r) = payload2 g mk n ()"
  by (simp_all add: forget_def payload1_def payload2_def)

lemma payload_reader_field [simp]: "dp_reader (payload1 h mk n r) = r" "dp_reader (payload2 g mk n r) = r"
  by (simp_all add: payload1_def payload2_def)

lemma payload_offset_value: "payload_byte_offset h = Ok (ucast (payload_offset h) * 512)"
  by (simp add: payload_byte_offset_def sector_product)

lemma parse_no_panic: "\<not> is_Panic (Header1.parse data)"
  by (simp add: parse_value)

section \<open>LUKS1\<close>

context byte_reader
begin

lemma seek_fill:
  assumes "inv (rd_state w)" and "n \<le> isize_MAX" and "0 < n"
  shows "\<exists>w'. world_step w w' \<and>
     bindM (with_reader (seek_to R (Start 0))) (\<lambda>_. bindM (with_reader (read_fill (rd_read R) n)) go) w =
       (if length (content (rd_state w)) < n then Some (Err (Io eof_error), w')
        else go (take n (content (rd_state w))) w')"
proof -
  obtain r1 where r1: "seek_to R (Start 0) (rd_state w) = Some (Ok 0, r1)" "same_source (rd_state w) r1" "pos r1 = 0"
    using seek_to_Start [OF assms(1), of 0] by auto
  then have src: "inv r1" "content r1 = content (rd_state w)" by (auto simp: same_source_def)
  obtain r2 where r2: "read_fill (rd_read R) n r1 =
      Some (if n \<le> length (content (rd_state w)) then Ok (take n (content (rd_state w))) else Err (Io eof_error), r2)"
    "same_source r1 r2"
    using read_fill_spec [OF src(1) assms(2)] r1(3) assms(3) by (auto simp: src available_def)
  have "world_step w (w\<lparr>rd_state := r2\<rparr>)" using r1 r2 by (auto simp: world_step_def same_source_def)
  moreover have "bindM (with_reader (seek_to R (Start 0))) (\<lambda>_. bindM (with_reader (read_fill (rd_read R) n)) go) w =
      (if length (content (rd_state w)) < n then Some (Err (Io eof_error), w\<lparr>rd_state := r2\<rparr>)
       else go (take n (content (rd_state w))) (w\<lparr>rd_state := r2\<rparr>))"
    using r1(1) r2(1) by (auto simp: with_reader_run)
  ultimately show ?thesis by blast
qed

lemma finish:
  assumes "inv (rd_state w)"
  shows "\<exists>w'. world_step w w' \<and>
     bindM (with_reader (seek_to R (End 0))) (\<lambda>n. bindM the_reader (\<lambda>r. ret (f n r))) w =
       Some (Ok (f (of_nat (length (content (rd_state w)))) (rd_state w')), w')"
proof -
  obtain r where "seek_to R (End 0) (rd_state w) = Some (Ok (of_nat (length (content (rd_state w)))), r)"
    "same_source (rd_state w) r"
    using seek_to_End [OF assms] by blast
  then show ?thesis
    by (intro exI [of _ "w\<lparr>rd_state := r\<rparr>"]) (auto simp: with_reader_run world_step_def the_reader_def bindM_run)
qed

definition finish1 :: "crypto_api \<Rightarrow> bytes \<Rightarrow> UnlockDeadline \<Rightarrow> Luks1Header \<Rightarrow>
   ('r world, LuksError, 'r DecryptedPayload) prog" where
  "finish1 C pw dl h =
     (if active_keyslots h = [] then fail NoActiveKeyslot
      else bindM (recover_master_key1 C R h pw (unat (key_bytes h)) dl) (\<lambda>mk.
        bindM (with_reader (seek_to R (End 0))) (\<lambda>n. bindM the_reader (\<lambda>r. ret (payload1 h mk n r)))))"

lemma unlock1_start:
  fixes w :: "'r world"
  defines "img \<equiv> content (rd_state w)"
  assumes inv: "inv (rd_state w)"
  shows "\<exists>w'. world_step w w' \<and> unlock1_inner C R pw dl w =
     (if length img < 592 then Some (Err (Io eof_error), w')
      else bindM (liftR (Header1.parse (take 592 img))) (finish1 C pw dl) w')"
proof -
  let ?go = "\<lambda>hdr_buf. bindM (liftR (Header1.parse hdr_buf)) (finish1 C pw dl)"
  have "unlock1_inner C R pw dl =
      bindM (with_reader (seek_to R (Start 0))) (\<lambda>_. bindM (with_reader (read_fill (rd_read R) 592)) ?go)"
    by (simp add: unlock1_inner_def finish1_def [abs_def] LUKS1_PHDR_LEN_def SECTOR_def vec_zeroed_Ok
        payload_offset_value payload1_def cong: if_cong)
  with seek_fill [OF inv, of 592 ?go] show ?thesis unfolding img_def by (simp only:)
qed

lemma finish1_spec:
  fixes w :: "'r world"
  defines "img \<equiv> content (rd_state w)"
  assumes C: "crypto_ok C" and inv: "inv (rd_state w)"
  shows "\<exists>x w'. finish1 C pw dl h w = Some (x, w') \<and> world_step w w' \<and>
     agrees (idle dl w \<and> supported1 h)
       (if active_keyslots h = [] then Err NoActiveKeyslot
        else bindR (ok_or (first_open (open_slot1 C h img pw) (active_keyslots h)) AuthenticationFailed) (\<lambda>mk.
          Ok (payload1 h mk (of_nat (length img)) ())))
       (map_outcome forget id x) \<and>
     (\<forall>p. x = Ok p \<longrightarrow> dp_reader p = rd_state w')"
proof (cases "active_keyslots h = []")
  case True
  moreover have "world_step w w" using inv by (intro world_step_clock) simp_all
  ultimately show ?thesis by (auto simp: finish1_def)
next
  case act: False
  obtain x w1 where rec: "recover_master_key1 C R h pw (unat (key_bytes h)) dl w = Some (x, w1)" "world_step w w1"
    "agrees (idle dl w \<and> supported1 h) (ok_or (first_open (open_slot1 C h img pw) (active_keyslots h)) AuthenticationFailed) x"
    using recover_master_key1_spec [OF C inv, of h pw dl] by (auto simp: img_def)
  show ?thesis
  proof (cases x)
    case (Ok mk)
    obtain w2 where "world_step w1 w2"
      "bindM (with_reader (seek_to R (End 0))) (\<lambda>n. bindM the_reader (\<lambda>r. ret (payload1 h mk n r))) w1 =
        Some (Ok (payload1 h mk (of_nat (length img)) (rd_state w2)), w2)"
      using finish [OF world_stepD(1) [OF rec(2)], of "payload1 h mk"] world_stepD(2) [OF rec(2)] by (auto simp: img_def)
    with rec Ok act world_step_trans [OF rec(2)] show ?thesis by (auto simp: finish1_def outcome_simps)
  next
    case (Err e)
    with rec act show ?thesis
      by (cases "first_open (open_slot1 C h img pw) (active_keyslots h)") (auto simp: finish1_def)
  qed (use rec(3) in simp)
qed

lemma unlock1_inner_spec:
  fixes w :: "'r world"
  defines "img \<equiv> content (rd_state w)"
  assumes C: "crypto_ok C" and inv: "inv (rd_state w)"
  shows "\<exists>x w'. unlock1_inner C R pw dl w = Some (x, w') \<and> world_step w w' \<and>
     agrees (idle dl w \<and> image_supported1 img) (unlock1_spec C img pw) (map_outcome forget id x) \<and>
     (\<forall>p. x = Ok p \<longrightarrow> dp_reader p = rd_state w')"
proof -
  obtain w1 where w1: "world_step w w1" "unlock1_inner C R pw dl w =
      (if length img < 592 then Some (Err (Io eof_error), w1)
       else bindM (liftR (Header1.parse (take 592 img))) (finish1 C pw dl) w1)"
    using unlock1_start [OF inv, of C pw dl] by (auto simp: img_def)
  have src: "inv (rd_state w1)" "content (rd_state w1) = img" "idle dl w1 = idle dl w"
    using world_stepD [OF w1(1)] by (simp_all add: img_def)
  show ?thesis
  proof (cases "Header1.parse (take 592 img)")
    case (Ok h)
    with w1 finish1_spec [OF C src(1), of pw dl h] src show ?thesis
      by (auto simp: unlock1_spec_def image_supported1_def intro: world_step_trans)
  next
    case (Panic q)
    with parse_no_panic [of "take 592 img"] show ?thesis by simp
  qed (use w1 in \<open>auto simp: unlock1_spec_def\<close>)
qed

text \<open>An expired deadline refuses before the first derivation.\<close>

lemma expired1:
  fixes w :: "'r world"
  assumes "inv (rd_state w)" and "total dl = 0" and "592 \<le> length (content (rd_state w))"
    and "Header1.parse (take 592 (content (rd_state w))) = Ok h" and "active_keyslots h \<noteq> []"
  shows "\<exists>w'. unlock1_inner C R pw dl w = Some (Err (UnlockBudgetExceeded 0 0), w')"
proof -
  obtain s rest where act: "active_keyslots h = s # rest" using assms(5) by (cases "active_keyslots h") auto
  show ?thesis
    using unlock1_start [OF assms(1), of C pw dl] assms(2-4)
    by (auto simp: finish1_def recover_master_key1_def act bindM_run remaining_value as_secs_def)
qed

end

section \<open>LUKS2\<close>

lemma hdr_size_word:
  "unat (max (from_be_bytes (take 8 (drop 8 img))) (of_nat LUKS2_BIN_HDR_LEN) :: u64) = hdr_size_of img"
  by (simp add: hdr_size_of_def LUKS2_BIN_HDR_LEN_def max_def word_le_nat_alt)

context byte_reader
begin

definition finish2 :: "crypto_api \<Rightarrow> bytes \<Rightarrow> UnlockDeadline \<Rightarrow> Luks2Header \<Rightarrow>
   ('r world, LuksError, 'r DecryptedPayload) prog" where
  "finish2 C pw dl h =
     bindM (liftR (ok_or (crypt_segment h) NoActiveKeyslot)) (\<lambda>g.
     if keyslots2 h = [] then fail NoActiveKeyslot
     else bindM (recover_master_key2 C R h pw dl) (\<lambda>mk.
       bindM (with_reader (seek_to R (End 0))) (\<lambda>n. bindM the_reader (\<lambda>r. ret (payload2 g mk n r)))))"

lemma seek_available:
  assumes inv: "inv (rd_state w)" and n: "n \<le> isize_MAX"
  shows "\<exists>w' k. world_step w w' \<and>
     bindM (with_reader (seek_to R (Start 0))) (\<lambda>_. bindM (with_reader (read_available (rd_read R) n)) go) w =
       go (k, take n (content (rd_state w)) @ replicate (n - length (content (rd_state w))) 0) w'"
proof -
  obtain r1 where r1: "seek_to R (Start 0) (rd_state w) = Some (Ok 0, r1)" "same_source (rd_state w) r1" "pos r1 = 0"
    using seek_to_Start [OF inv, of 0] by auto
  then have "inv r1" "content r1 = content (rd_state w)" by (auto simp: same_source_def)
  then obtain k r2 where r2: "read_available (rd_read R) n r1 =
      Some (Ok (k, take n (content (rd_state w)) @ replicate (n - length (content (rd_state w))) 0), r2)" "same_source r1 r2"
    using read_available_spec [OF _ n, of r1] r1(3) by (auto simp: available_def)
  have "world_step w (w\<lparr>rd_state := r2\<rparr>)" using r1 r2 by (auto simp: world_step_def same_source_def)
  with r1(1) r2(1) show ?thesis
    by (intro exI [of _ "w\<lparr>rd_state := r2\<rparr>"] exI [of _ k]) (simp add: with_reader_run)
qed

lemma unlock2_start:
  fixes w :: "'r world"
  defines "img \<equiv> content (rd_state w)"
  assumes inv: "inv (rd_state w)"
  shows "\<exists>w'. world_step w w' \<and> unlock2_inner C J R pw dl w =
     (if length img < 4096 then Some (Err (Io eof_error), w')
      else if isize_MAX < hdr_size_of img then Some (Panic ''capacity overflow'', w')
      else bindM (liftR (parse2 J (hdr_area_of img))) (finish2 C pw dl) w')"
proof -
  let ?full = "\<lambda>n. bindM (with_reader (seek_to R (Start 0))) (\<lambda>_.
     bindM (with_reader (read_available (rd_read R) n)) (\<lambda>(k, full). bindM (liftR (parse2 J full)) (finish2 C pw dl)))"
  let ?go = "\<lambda>bin. bindM (liftR (be_u64 bin 8)) (\<lambda>hs.
     bindM (liftR (vec_zeroed (unat (max hs (of_nat LUKS2_BIN_HDR_LEN))))) (\<lambda>_.
     ?full (unat (max hs (of_nat LUKS2_BIN_HDR_LEN)))))"
  have eq: "unlock2_inner C J R pw dl =
      bindM (with_reader (seek_to R (Start 0))) (\<lambda>_. bindM (with_reader (read_fill (rd_read R) 4096)) ?go)"
    by (simp add: unlock2_inner_def finish2_def [abs_def] LUKS2_BIN_HDR_LEN_def vec_zeroed_Ok payload2_def Let_def
        split_beta cong: if_cong)
  obtain w1 where w1: "world_step w w1"
    "unlock2_inner C J R pw dl w =
      (if length img < 4096 then Some (Err (Io eof_error), w1) else ?go (take 4096 img) w1)"
    unfolding eq using seek_fill [OF inv, of 4096 ?go] by (auto simp: img_def)
  have src: "inv (rd_state w1)" "content (rd_state w1) = img"
    using world_stepD [OF w1(1)] by (simp_all add: img_def)
  show ?thesis
  proof (cases "length img < 4096")
    case True
    with w1 show ?thesis by auto
  next
    case False
    then have "be_u64 (take 4096 img) 8 = Ok (from_be_bytes (take 8 (drop 8 img)))"
      by (simp add: be_u64_value drop_take)
    with w1 False have run: "unlock2_inner C J R pw dl w =
        bindM (liftR (vec_zeroed (hdr_size_of img))) (\<lambda>_. ?full (hdr_size_of img)) w1"
      by (simp add: hdr_size_word)
    show ?thesis
    proof (cases "isize_MAX < hdr_size_of img")
      case True
      with run w1 False show ?thesis by (auto simp: vec_zeroed_def)
    next
      case small: False
      then obtain w2 k where "world_step w1 w2" "?full (hdr_size_of img) w1 =
          (\<lambda>(k, full). bindM (liftR (parse2 J full)) (finish2 C pw dl)) (k, hdr_area_of img) w2"
        using seek_available [OF src(1), of "hdr_size_of img" "\<lambda>(k, full). bindM (liftR (parse2 J full)) (finish2 C pw dl)"]
        unfolding hdr_area_of_def src(2) by auto
      with run small False world_step_trans [OF w1(1)] show ?thesis by (auto simp: vec_zeroed_Ok)
    qed
  qed
qed

lemma finish2_spec:
  fixes w :: "'r world"
  defines "img \<equiv> content (rd_state w)"
  assumes C: "crypto_ok C" and inv: "inv (rd_state w)"
  shows "\<exists>x w'. finish2 C pw dl h w = Some (x, w') \<and> world_step w w' \<and>
     agrees (idle dl w \<and> supported2 C h pw)
       (case crypt_segment h of
          None \<Rightarrow> Err NoActiveKeyslot
        | Some g \<Rightarrow> if keyslots2 h = [] then Err NoActiveKeyslot
            else bindR (ok_or (first_open (open_slot2 C h img pw) (keyslots2 h)) AuthenticationFailed) (\<lambda>mk.
              Ok (payload2 g mk (of_nat (length img)) ())))
       (map_outcome forget id x) \<and>
     (\<forall>p. x = Ok p \<longrightarrow> dp_reader p = rd_state w')"
proof (cases "crypt_segment h = None \<or> keyslots2 h = []")
  case True
  moreover have "world_step w w" using inv by (intro world_step_clock) simp_all
  ultimately show ?thesis by (cases "crypt_segment h") (auto simp: finish2_def)
next
  case False
  then obtain g where g: "crypt_segment h = Some g" "keyslots2 h \<noteq> []" by auto
  obtain x w1 where rec: "recover_master_key2 C R h pw dl w = Some (x, w1)" "world_step w w1"
    "agrees (idle dl w \<and> supported2 C h pw) (ok_or (first_open (open_slot2 C h img pw) (keyslots2 h)) AuthenticationFailed) x"
    using recover_master_key2_spec [OF C inv, of h pw dl] by (auto simp: img_def)
  show ?thesis
  proof (cases x)
    case (Ok mk)
    obtain w2 where "world_step w1 w2"
      "bindM (with_reader (seek_to R (End 0))) (\<lambda>n. bindM the_reader (\<lambda>r. ret (payload2 g mk n r))) w1 =
        Some (Ok (payload2 g mk (of_nat (length img)) (rd_state w2)), w2)"
      using finish [OF world_stepD(1) [OF rec(2)], of "payload2 g mk"] world_stepD(2) [OF rec(2)] by (auto simp: img_def)
    with rec Ok g world_step_trans [OF rec(2)] show ?thesis by (auto simp: finish2_def outcome_simps)
  next
    case (Err e)
    with rec g show ?thesis
      by (cases "first_open (open_slot2 C h img pw) (keyslots2 h)") (auto simp: finish2_def)
  qed (use rec(3) in simp)
qed

lemma unlock2_inner_spec:
  fixes w :: "'r world"
  defines "img \<equiv> content (rd_state w)"
  assumes C: "crypto_ok C" and inv: "inv (rd_state w)" and size: "hdr_size_of img \<le> isize_MAX"
  shows "\<exists>x w'. unlock2_inner C J R pw dl w = Some (x, w') \<and> world_step w w' \<and>
     agrees (idle dl w \<and> image_supported2 C J img pw) (unlock2_spec C J img pw) (map_outcome forget id x) \<and>
     (\<forall>p. x = Ok p \<longrightarrow> dp_reader p = rd_state w')"
proof -
  obtain w1 where w1: "world_step w w1" "unlock2_inner C J R pw dl w =
      (if length img < 4096 then Some (Err (Io eof_error), w1)
       else bindM (liftR (parse2 J (hdr_area_of img))) (finish2 C pw dl) w1)"
    using unlock2_start [OF inv, of C J pw dl] size by (auto simp: img_def)
  have src: "inv (rd_state w1)" "content (rd_state w1) = img" "idle dl w1 = idle dl w"
    using world_stepD [OF w1(1)] by (simp_all add: img_def)
  show ?thesis
  proof (cases "parse2 J (hdr_area_of img)")
    case (Ok h)
    with w1 finish2_spec [OF C src(1), of pw dl h] src show ?thesis
      by (auto simp: unlock2_spec_def image_supported2_def intro: world_step_trans)
  next
    case (Panic q)
    with parse2_no_panic [of J "hdr_area_of img"] show ?thesis by simp
  qed (use w1 in \<open>auto simp: unlock2_spec_def\<close>)
qed

lemma expired2:
  fixes w :: "'r world"
  assumes "inv (rd_state w)" and "total dl = 0" and "4096 \<le> length (content (rd_state w))"
    and "hdr_size_of (content (rd_state w)) \<le> isize_MAX"
    and "parse2 J (hdr_area_of (content (rd_state w))) = Ok h" and "crypt_segment h \<noteq> None" and "keyslots2 h \<noteq> []"
  shows "\<exists>w'. unlock2_inner C J R pw dl w = Some (Err (UnlockBudgetExceeded 0 0), w')"
proof -
  obtain s rest where ks: "keyslots2 h = s # rest" using assms(7) by (cases "keyslots2 h") auto
  show ?thesis
    using unlock2_start [OF assms(1), of C J pw dl] assms(2-6)
    by (auto simp: finish2_def recover_master_key2_def ks bindM_run remaining_value as_secs_def)
qed

end

section \<open>What a successful unlock has checked\<close>

lemma area_candidate_total:
  assumes C: "crypto_ok C" and ok: "area_ok mode hspec key n" and kb: "length key = kb"
    and room: "off + (kb * n + 511) \<le> length img"
  shows "\<exists>mk. area_candidate C mode hspec key kb n img off = Some mk"
proof -
  have key: "mode = ''xts-plain64''" "xts_cipher key \<noteq> None" "hash_of_name hspec \<noteq> None" "n \<le> MAX_STRIPES"
    using ok by (simp_all add: area_ok_def)
  then have "kb \<le> MAX_KEY_BYTES" using kb by (auto simp: xts_cipher_def MAX_KEY_BYTES_def split: if_splits)
  then obtain len where len: "material_len kb n = Ok len" "len \<le> 2 ^ 30" "area_fits kb n"
    by (rule material_len_cases [of kb n]) (use key(4) in auto)
  let ?m = "take len (drop off img)"
  have m: "length ?m = len" using material_len_Ok [OF len(1)] room by auto
  have "tweaks_fit 512 (length ?m) (unat 0)"
    unfolding m using len(2) by (auto simp: tweaks_fit_def unit_step_def)
  then obtain plain where plain: "xts_decrypt_area C mode key ?m 512 0 = Ok plain"
    by (rule xts_area_cases [of 512 ?m 0 C mode key]) (use key(1,2) in auto)
  obtain mk where "merge C hspec plain kb n = Ok mk"
    by (rule merge_cases [OF C len(3), of hspec plain]) (use key(3,4) in auto)
  with len(1) m plain show ?thesis by (auto simp: area_candidate_def Let_def)
qed

lemma area_candidate_Some:
  assumes C: "crypto_ok C" and "area_candidate C mode hspec key kb n img off = Some mk" and "length key = kb"
  shows "mode = ''xts-plain64'' \<and> (kb = 32 \<or> kb = 64) \<and> length mk = kb"
proof -
  obtain len plain where a: "material_len kb n = Ok len"
    "xts_decrypt_area C mode key (take len (drop off img)) 512 0 = Ok plain" "merge C hspec plain kb n = Ok mk"
    using assms(2) by (auto simp: area_candidate_def Let_def split: outcome.splits if_splits)
  then have key: "mode = ''xts-plain64'' \<and> (kb = 32 \<or> kb = 64)"
    using assms(3) by (auto simp: xts_decrypt_area_def Let_def split: if_splits)
  moreover have "area_fits kb n"
    by (rule material_len_cases [of kb n]) (use key a(1) in \<open>auto simp: MAX_KEY_BYTES_def\<close>)
  ultimately show ?thesis using merge_Ok_length [OF C _ a(3)] by simp
qed

lemma open_slot1_Some:
  assumes C: "crypto_ok C" and "open_slot1 C h img pw slot = Some mk"
  shows "cipher_mode h = ''xts-plain64'' \<and> (length mk = 32 \<or> length mk = 64) \<and> length mk = unat (key_bytes h) \<and>
    (\<exists>D. hash_of_name (hash_spec h) = Some D \<and>
      pbkdf2_hmac C D mk (mk_digest_salt h) (max (mk_digest_iter h) 1) 20 = mk_digest h)"
proof -
  obtain D where D: "hash_of_name (hash_spec h) = Some D"
    "pbkdf2_hmac C D mk (mk_digest_salt h) (max (mk_digest_iter h) 1) 20 = mk_digest h"
    "area_candidate C (cipher_mode h) (hash_spec h)
       (pbkdf2_hmac C D pw (salt slot) (max (iterations slot) 1) (unat (key_bytes h)))
       (unat (key_bytes h)) (unat (stripes slot)) img (unat (key_material_offset slot) * 512) = Some mk"
    using assms(2) by (auto simp: open_slot1_def Let_def split: option.splits if_splits)
  show ?thesis using area_candidate_Some [OF C D(3)] D(1,2) by (auto simp: crypto_okD [OF C])
qed

lemma open_slot2_Some:
  assumes C: "crypto_ok C" and "open_slot2 C h img pw slot = Some mk"
  shows "length mk = key_size slot \<and> (key_size slot = 32 \<or> key_size slot = 64) \<and>
    (\<exists>d \<in> set (digests h). digest_accepts C (slot_id slot) mk d)"
proof -
  obtain key where key: "kdf_key C (kdf slot) pw (key_size slot) = Some key"
    "area_candidate C (snd (split_encryption (area_encryption slot))) (af_hash slot) key (key_size slot)
       (unat (af_stripes slot)) img (unat (area_offset slot)) = Some mk"
    "list_ex (digest_accepts C (slot_id slot) mk) (digests h)"
    using assms(2) by (auto simp: open_slot2_def split: option.splits if_splits)
  then show ?thesis
    using area_candidate_Some [OF C key(2) length_kdf_key [OF C key(1)]] by (auto simp: list_ex_iff)
qed

text \<open>An empty digest accepts the candidate of every passphrase.\<close>

lemma empty_digest_opens:
  assumes C: "crypto_ok C" and ready: "slot2_ready C h pw slot"
    and "unat (area_offset slot) + (key_size slot * unat (af_stripes slot) + 511) \<le> length img"
    and "d \<in> set (digests h)" and "digest_kind d = ''pbkdf2''" and "slot_id slot \<in> set (digest_keyslots d)"
    and "digest_value d = []"
  shows "\<exists>mk. open_slot2 C h img pw slot = Some mk"
proof -
  note r = ready [unfolded slot2_ready_def]
  obtain key where key: "kdf_key C (kdf slot) pw (key_size slot) = Some key" using r by (auto simp: kdf_ready_def)
  have len: "length key = key_size slot" by (rule length_kdf_key [OF C key])
  then have "area_ok (snd (split_encryption (area_encryption slot))) (af_hash slot) key (unat (af_stripes slot))"
    using r by (auto simp: area_ok_def xts_cipher_def)
  then obtain mk where "area_candidate C (snd (split_encryption (area_encryption slot))) (af_hash slot) key
      (key_size slot) (unat (af_stripes slot)) img (unat (area_offset slot)) = Some mk"
    using area_candidate_total [OF C _ len assms(3)] by blast
  moreover have "pbkdf2_hmac C D m s n 0 = []" for D m s n using crypto_okD(2) [OF C, of D m s n 0] by simp
  then have "digest_accepts C (slot_id slot) m d" for m
    using r assms(4-7) by (auto simp: list_all_iff digest_ready_def digest_accepts_def split: option.split)
  ultimately show ?thesis using key assms(4) by (auto simp: open_slot2_def list_ex_iff)
qed

lemma unlock1_spec_Ok:
  assumes "unlock1_spec C img pw = Ok q"
  obtains h mk where "Header1.parse (take 592 img) = Ok h" "first_open (open_slot1 C h img pw) (active_keyslots h) = Some mk"
    "q = payload1 h mk (of_nat (length img)) ()"
  using assms that by (auto simp: unlock1_spec_def outcome_simps split: if_splits)

lemma unlock2_spec_Ok:
  assumes "unlock2_spec C J img pw = Ok q"
  obtains h g mk where "parse2 J (hdr_area_of img) = Ok h" "crypt_segment h = Some g"
    "first_open (open_slot2 C h img pw) (keyslots2 h) = Some mk" "q = payload2 g mk (of_nat (length img)) ()"
proof -
  obtain h where h: "parse2 J (hdr_area_of img) = Ok h"
    "(case crypt_segment h of None \<Rightarrow> Err NoActiveKeyslot
      | Some g \<Rightarrow> if keyslots2 h = [] then Err NoActiveKeyslot
          else bindR (ok_or (first_open (open_slot2 C h img pw) (keyslots2 h)) AuthenticationFailed) (\<lambda>mk.
            Ok (payload2 g mk (of_nat (length img)) ()))) = Ok q"
    using assms by (auto simp: unlock2_spec_def bindR_eq_Ok split: if_splits)
  then show thesis
    using that by (cases "crypt_segment h") (auto simp: outcome_simps split: if_splits)
qed

section \<open>The deadline and the version\<close>

lemma still_idle: "still w \<Longrightarrow> 0 < budget \<Longrightarrow> idle \<lparr>started = reading w n, total = budget\<rparr> w"
  unfolding still_def idle_def by (metis UnlockDeadline.select_convs)

text \<open>The specification of the entry point is met by the answer and the state after a run.\<close>

context byte_reader
begin

definition entry_ok :: "bool \<Rightarrow> unit DecryptedPayload res \<Rightarrow> 'r world \<Rightarrow>
   (('r DecryptedPayload, LuksError) outcome \<times> 'r world) option \<Rightarrow> bool" where
  "entry_ok calm spec w run \<longleftrightarrow>
     (\<exists>x w'. run = Some (x, w') \<and> world_step w w' \<and> agrees calm spec (map_outcome forget id x) \<and>
       (\<forall>p. x = Ok p \<longrightarrow> dp_reader p = rd_state w'))"

lemma entry_ok_step: "world_step w w1 \<Longrightarrow> entry_ok calm spec w1 run \<Longrightarrow> entry_ok calm spec w run"
  unfolding entry_ok_def using world_step_trans by blast

lemma agrees_mono: "(calm' \<Longrightarrow> calm) \<Longrightarrow> agrees calm spec x \<Longrightarrow> agrees calm' spec x"
  by (cases x) auto

lemma entry_ok_mono: "entry_ok calm spec w run \<Longrightarrow> (calm' \<Longrightarrow> calm) \<Longrightarrow> entry_ok calm' spec w run"
  unfolding entry_ok_def using agrees_mono by blast

lemma deadline_run:
  fixes w :: "'r world"
  shows "bindM (UnlockDeadline_new budget) f w =
     f \<lparr>started = reading w (tick w), total = budget\<rparr> (w\<lparr>tick := Suc (tick w)\<rparr>)"
  by (simp add: UnlockDeadline_new_def bindM_run)

lemma unlock1_within_spec:
  fixes w :: "'r world"
  defines "img \<equiv> content (rd_state w)"
  assumes "crypto_ok C" and inv: "inv (rd_state w)"
  shows "entry_ok (still w \<and> 0 < budget \<and> image_supported1 img) (unlock1_spec C img pw) w
     (unlock1_with_passphrase_within C R pw budget w)"
proof -
  let ?dl = "\<lparr>started = reading w (tick w), total = budget\<rparr>" and ?w1 = "w\<lparr>tick := Suc (tick w)\<rparr>"
  have s1: "world_step w ?w1" using inv by (intro world_step_clock) simp_all
  have "entry_ok (idle ?dl ?w1 \<and> image_supported1 img) (unlock1_spec C img pw) ?w1 (unlock1_inner C R pw ?dl ?w1)"
    using unlock1_inner_spec [OF assms(2) world_stepD(1) [OF s1], of pw ?dl] by (simp add: entry_ok_def img_def)
  then have "entry_ok (still w \<and> 0 < budget \<and> image_supported1 img) (unlock1_spec C img pw) ?w1
      (unlock1_inner C R pw ?dl ?w1)"
    by (rule entry_ok_mono) (auto simp: still_idle world_stepD(3) [OF s1])
  then show ?thesis
    using s1 by (auto simp: unlock1_with_passphrase_within_def deadline_run intro: entry_ok_step)
qed

lemma unlock2_within_spec:
  fixes w :: "'r world"
  defines "img \<equiv> content (rd_state w)"
  assumes "crypto_ok C" and inv: "inv (rd_state w)" and "hdr_size_of img \<le> isize_MAX"
  shows "entry_ok (still w \<and> 0 < budget \<and> image_supported2 C J img pw) (unlock2_spec C J img pw) w
     (unlock2_with_passphrase_within C J R pw budget w)"
proof -
  let ?dl = "\<lparr>started = reading w (tick w), total = budget\<rparr>" and ?w1 = "w\<lparr>tick := Suc (tick w)\<rparr>"
  have s1: "world_step w ?w1" using inv by (intro world_step_clock) simp_all
  have "entry_ok (idle ?dl ?w1 \<and> image_supported2 C J img pw) (unlock2_spec C J img pw) ?w1
      (unlock2_inner C J R pw ?dl ?w1)"
    using unlock2_inner_spec [OF assms(2) world_stepD(1) [OF s1], of J pw ?dl] assms(4)
    by (simp add: entry_ok_def img_def)
  then have "entry_ok (still w \<and> 0 < budget \<and> image_supported2 C J img pw) (unlock2_spec C J img pw) ?w1
      (unlock2_inner C J R pw ?dl ?w1)"
    by (rule entry_ok_mono) (auto simp: still_idle world_stepD(3) [OF s1])
  then show ?thesis
    using s1 by (auto simp: unlock2_with_passphrase_within_def deadline_run intro: entry_ok_step)
qed

lemma dispatch:
  fixes w :: "'r world"
  defines "img \<equiv> content (rd_state w)"
  assumes inv: "inv (rd_state w)"
  shows "\<exists>w'. world_step w w' \<and> unlock_with_passphrase_within C J R pw budget w =
     (if length img < 8 then Some (Err (Io eof_error), w')
      else if version_of img = 1 then unlock1_with_passphrase_within C R pw budget w'
      else if version_of img = 2 then unlock2_with_passphrase_within C J R pw budget w'
      else if take 6 img = LUKS_MAGIC then Some (Err (UnsupportedVersion (version_of img)), w')
      else Some (Err (NotLuks (take 6 img)), w'))"
proof -
  let ?rest = "\<lambda>ver v. if v = 1 then unlock1_with_passphrase_within C R pw budget
     else if v = 2 then unlock2_with_passphrase_within C J R pw budget
     else if starts_with ver LUKS_MAGIC then fail (UnsupportedVersion v)
     else bindM (liftR (bytes_n 6 ver 0)) (\<lambda>found. fail (NotLuks found))"
  let ?go = "\<lambda>ver. bindM (with_reader (seek_to R (Start 0))) (\<lambda>_. bindM (liftR (be_u16 ver 6)) (?rest ver))"
  obtain w1 where w1: "world_step w w1" "unlock_with_passphrase_within C J R pw budget w =
      (if length img < 8 then Some (Err (Io eof_error), w1) else ?go (take 8 img) w1)"
    using seek_fill [OF inv, of 8 ?go] unfolding unlock_with_passphrase_within_def img_def by auto
  obtain r where r: "seek_to R (Start 0) (rd_state w1) = Some (Ok 0, r)" "same_source (rd_state w1) r"
    using seek_to_Start [OF world_stepD(1) [OF w1(1)], of 0] by blast
  let ?w2 = "w1\<lparr>rd_state := r\<rparr>"
  have s2: "world_step w ?w2" using w1(1) r(2) by (auto simp: world_step_def same_source_def)
  show ?thesis
  proof (cases "length img < 8")
    case True
    with w1 show ?thesis by auto
  next
    case False
    then have "be_u16 (take 8 img) 6 = Ok (version_of img)" "bytes_n 6 (take 8 img) 0 = Ok (take 6 img)"
      "starts_with (take 8 img) LUKS_MAGIC = (take 6 img = LUKS_MAGIC)"
      by (simp_all add: reader_values version_of_def drop_take starts_with_iff)
    with False w1(2) r(1) have "unlock_with_passphrase_within C J R pw budget w = 
      (if version_of img = 1 then unlock1_with_passphrase_within C R pw budget ?w2
       else if version_of img = 2 then unlock2_with_passphrase_within C J R pw budget ?w2
       else if take 6 img = LUKS_MAGIC then Some (Err (UnsupportedVersion (version_of img)), ?w2)
       else Some (Err (NotLuks (take 6 img)), ?w2))"
      by (simp add: with_reader_run)
    with False s2 show ?thesis by auto
  qed
qed

text \<open>The conditions of a calm run.\<close>

definition calm :: "crypto_api \<Rightarrow> 'n json_api \<Rightarrow> bytes \<Rightarrow> duration \<Rightarrow> 'r world \<Rightarrow> bool" where
  "calm C J pw budget w \<longleftrightarrow> still w \<and> 0 < budget \<and>
     (version_of (content (rd_state w)) = 1 \<longrightarrow> image_supported1 (content (rd_state w))) \<and>
     (version_of (content (rd_state w)) = 2 \<longrightarrow> image_supported2 C J (content (rd_state w)) pw)"

lemma unlock_within_spec:
  fixes w :: "'r world"
  defines "img \<equiv> content (rd_state w)"
  assumes C: "crypto_ok C" and inv: "inv (rd_state w)"
    and size: "version_of img = 2 \<Longrightarrow> hdr_size_of img \<le> isize_MAX"
  shows "entry_ok (calm C J pw budget w) (unlock_spec C J img pw) w
     (unlock_with_passphrase_within C J R pw budget w)"
proof -
  obtain w1 where w1: "world_step w w1" "unlock_with_passphrase_within C J R pw budget w =
     (if length img < 8 then Some (Err (Io eof_error), w1)
      else if version_of img = 1 then unlock1_with_passphrase_within C R pw budget w1
      else if version_of img = 2 then unlock2_with_passphrase_within C J R pw budget w1
      else if take 6 img = LUKS_MAGIC then Some (Err (UnsupportedVersion (version_of img)), w1)
      else Some (Err (NotLuks (take 6 img)), w1))"
    using dispatch [OF inv, of C J pw budget] unfolding img_def by auto
  have src: "inv (rd_state w1)" "content (rd_state w1) = img" using world_stepD [OF w1(1)] by (simp_all add: img_def)
  have st: "still w1 = still w" using w1(1) by (auto simp: world_step_def still_def)
  have now: "entry_ok c (Err e) w (Some (Err e, w1))" for c e using w1(1) by (simp add: entry_ok_def)
  note one = unlock1_within_spec [OF C src(1), of budget pw, unfolded src st]
  note two = unlock2_within_spec [OF C src(1), of budget J pw, unfolded src st]
  consider "length img < 8" | "8 \<le> length img" "version_of img = 1" | "8 \<le> length img" "version_of img = 2"
    | "8 \<le> length img" "version_of img \<noteq> 1" "version_of img \<noteq> 2" by linarith
  then show ?thesis
  proof cases
    case 2
    then have "entry_ok (calm C J pw budget w) (unlock1_spec C img pw) w1 (unlock1_with_passphrase_within C R pw budget w1)"
      by (intro entry_ok_mono [OF one]) (auto simp: calm_def img_def)
    with 2 w1 show ?thesis by (auto simp: unlock_spec_def intro: entry_ok_step)
  next
    case 3
    then have "entry_ok (calm C J pw budget w) (unlock2_spec C J img pw) w1 (unlock2_with_passphrase_within C J R pw budget w1)"
      by (intro entry_ok_mono [OF two [OF size]]) (auto simp: calm_def img_def)
    with 3 w1 show ?thesis by (auto simp: unlock_spec_def intro: entry_ok_step)
  qed (use w1 now in \<open>auto simp: unlock_spec_def\<close>)
qed

text \<open>With no time at all the entry point refuses as soon as a keyslot would be tried.\<close>

lemma expired:
  fixes w :: "'r world"
  defines "img \<equiv> content (rd_state w)"
  assumes inv: "inv (rd_state w)" and h:
    "version_of img = 1 \<and> 592 \<le> length img \<and> Header1.parse (take 592 img) = Ok h1 \<and> active_keyslots h1 \<noteq> [] \<or>
     version_of img = 2 \<and> 4096 \<le> length img \<and> hdr_size_of img \<le> isize_MAX \<and> parse2 J (hdr_area_of img) = Ok h2 \<and>
       crypt_segment h2 \<noteq> None \<and> keyslots2 h2 \<noteq> []"
  shows "\<exists>w'. unlock_with_passphrase_within C J R pw 0 w = Some (Err (UnlockBudgetExceeded 0 0), w')"
proof -
  obtain w1 where w1: "world_step w w1" "unlock_with_passphrase_within C J R pw 0 w =
     (if version_of img = 1 then unlock1_with_passphrase_within C R pw 0 w1 else unlock2_with_passphrase_within C J R pw 0 w1)"
    using dispatch [OF inv, of C J pw 0] h unfolding img_def by auto
  let ?w2 = "w1\<lparr>tick := Suc (tick w1)\<rparr>"
  have src: "inv (rd_state ?w2)" "content (rd_state ?w2) = img" using world_stepD [OF w1(1)] by (simp_all add: img_def)
  from h show ?thesis
  proof
    assume "version_of img = 1 \<and> 592 \<le> length img \<and> Header1.parse (take 592 img) = Ok h1 \<and> active_keyslots h1 \<noteq> []"
    with expired1 [OF src(1), unfolded src(2), of "\<lparr>started = reading w1 (tick w1), total = 0\<rparr>" h1 C pw] w1(2)
    show ?thesis by (auto simp: unlock1_with_passphrase_within_def deadline_run)
  next
    assume "version_of img = 2 \<and> 4096 \<le> length img \<and> hdr_size_of img \<le> isize_MAX \<and> parse2 J (hdr_area_of img) = Ok h2 \<and>
       crypt_segment h2 \<noteq> None \<and> keyslots2 h2 \<noteq> []"
    with expired2 [OF src(1), unfolded src(2), of "\<lparr>started = reading w1 (tick w1), total = 0\<rparr>" J h2 C pw] w1(2)
    show ?thesis by (auto simp: unlock2_with_passphrase_within_def deadline_run)
  qed
qed

end

end
