(* ===== verification/Vfs.thy ===== *)
theory Vfs
  imports Entry
begin

text \<open>
  \<^verbatim>\<open>core/src/vfs.rs\<close>: the adapter that presents an encrypted container as a decrypted image.

  The crate \<^verbatim>\<open>forensic_vfs\<close> is not part of the repository.  Its trait \<open>ImageSource\<close> is the record
  \<open>image_ops\<close> of the two methods in use; its view of a source as a reader, \<open>SourceCursor\<close>, is a
  parameter; of its error and credential types the variants that the source names are modelled, and
  \<open>OtherCredential\<close> stands for every variant that the wildcard arm skips.
\<close>

section \<open>Data\<close>

datatype EncryptionScheme = Luks1 | Luks2

datatype Credential = Password string | RecoveryKey string | KeyBytes bytes | OtherCredential

text \<open>\<open>Decode\<close> carries layer, offset, detail and the bytes of its hex dump.\<close>

datatype VfsError = NeedCredentials string string | Decode string u64 string bytes

text \<open>\<open>ImageSource::read_at\<close> returns the count and the buffer with its first bytes replaced.\<close>

record 's image_ops =
  img_len :: "'s \<Rightarrow> u64"
  img_read_at :: "u64 \<Rightarrow> bytes \<Rightarrow> ('s, VfsError, usize \<times> bytes) prog"

record 's LuksLayer =
  encrypted :: 's
  layer_len :: u64
  layer_scheme :: EncryptionScheme

record 'r LuksSource =
  inner :: "'r DecryptedPayload"
  source_len :: u64

section \<open>The layer\<close>

definition LuksLayer_new :: "'s image_ops \<Rightarrow> 's \<Rightarrow> ('s LuksLayer, VfsError) outcome option" where
  "LuksLayer_new S src =
     (let len = img_len S src in
      case img_read_at S 0 (replicate 8 0) src of
        None \<Rightarrow> None
      | Some (Panic q, _) \<Rightarrow> Some (Panic q)
      | Some (r, src') \<Rightarrow>
          Some (Ok \<lparr>encrypted = src', layer_len = len,
            layer_scheme =
              (case r of
                 Ok (n, hdr) \<Rightarrow>
                   if 8 \<le> n \<and> starts_with hdr LUKS_MAGIC \<and> from_be_bytes [hdr ! 6, hdr ! 7] = (1 :: u16)
                   then Luks1 else Luks2
               | _ \<Rightarrow> Luks2)\<rparr>))"

definition scheme :: "'s LuksLayer \<Rightarrow> EncryptionScheme" where
  "scheme l = layer_scheme l"

definition map_luks_err :: "(string \<Rightarrow> string) \<Rightarrow> LuksError \<Rightarrow> VfsError" where
  "map_luks_err dbg e = Decode ''luks'' 0 (to_string dbg e) []"

section \<open>The decrypted source\<close>

definition LuksSource_new :: "'r DecryptedPayload \<Rightarrow> 'r LuksSource" where
  "LuksSource_new p = \<lparr>inner = p, source_len = payload_size p\<rparr>"

definition source_len_of :: "'r LuksSource \<Rightarrow> u64" where
  "source_len_of s = source_len s"

text \<open>
  The lock is taken for the whole call, so calls run one after the other; a poisoned lock hands out
  the payload in the state that the panicking call left.
\<close>

definition on_inner :: "('r DecryptedPayload, 'e, 'a) prog \<Rightarrow> ('r LuksSource, 'e, 'a) prog" where
  "on_inner m = (\<lambda>s. case m (inner s) of
      None \<Rightarrow> None
    | Some (x, p) \<Rightarrow> Some (x, s\<lparr>inner := p\<rparr>))"

definition source_read_at ::
  "crypto_api \<Rightarrow> (string \<Rightarrow> string) \<Rightarrow> 'r reader \<Rightarrow> u64 \<Rightarrow> bytes \<Rightarrow>
   ('r LuksSource, VfsError, usize \<times> bytes) prog" where
  "source_read_at C dbg R offset buf =
     (\<lambda>s.
      let avail = sat_sub (source_len s) offset in
      if avail = 0 then Some (Ok (0, buf), s)
      else
      let want = unat (min (of_nat (length buf)) avail) in
      case slice_get buf 0 want of
        None \<Rightarrow> Some (Ok (0, buf), s)
      | Some dst \<Rightarrow>
          bindM (map_errM (map_luks_err dbg) (on_inner (read_at C R offset dst))) (\<lambda>dst'.
          ret (want, dst' @ drop want buf)) s)"

definition luks_source :: "crypto_api \<Rightarrow> (string \<Rightarrow> string) \<Rightarrow> 'r reader \<Rightarrow> 'r LuksSource image_ops" where
  "luks_source C dbg R = \<lparr>img_len = source_len_of, img_read_at = source_read_at C dbg R\<rparr>"

section \<open>Opening\<close>

text \<open>The bytes of a credential that is wired.\<close>

fun passphrase_of :: "Credential \<Rightarrow> bytes option" where
  "passphrase_of (Password p) = Some (bytes_of_string p)"
| "passphrase_of (RecoveryKey p) = Some (bytes_of_string p)"
| "passphrase_of (KeyBytes b) = Some b"
| "passphrase_of OtherCredential = None"

text \<open>An unlock over a fresh reader, from the clock alone.\<close>

definition over_fresh :: "'r \<Rightarrow> ('r world, 'e, 'a) prog \<Rightarrow> (clock, 'e, 'a) prog" where
  "over_fresh r m = (\<lambda>c. case m \<lparr>reading = reading c, tick = tick c, rd_state = r\<rparr> of
      None \<Rightarrow> None
    | Some (x, w) \<Rightarrow> Some (x, \<lparr>reading = reading w, tick = tick w\<rparr>))"

definition no_credentials :: VfsError where
  "no_credentials = NeedCredentials ''luks'' []"

text \<open>
  The loop over the candidates; \<open>last_err\<close> is the error of the last attempt.  \<open>fresh\<close> is
  \<open>SourceCursor::new(encrypted, 0, len)\<close>, with \<open>R\<close> its methods.
\<close>

fun open_loop ::
  "crypto_api \<Rightarrow> 'n json_api \<Rightarrow> (string \<Rightarrow> string) \<Rightarrow> 'r reader \<Rightarrow> 'r \<Rightarrow> Credential list \<Rightarrow> LuksError option \<Rightarrow>
   (clock, VfsError, 'r LuksSource) prog" where
  "open_loop C J dbg R fresh [] last_err =
     fail (case last_err of Some e \<Rightarrow> map_luks_err dbg e | None \<Rightarrow> no_credentials)"
| "open_loop C J dbg R fresh (cred # creds) last_err =
     (case passphrase_of cred of
        None \<Rightarrow> open_loop C J dbg R fresh creds last_err
      | Some passphrase \<Rightarrow>
          (\<lambda>c. case over_fresh fresh (unlock_with_passphrase C J R passphrase) c of
             None \<Rightarrow> None
           | Some (Ok payload, c') \<Rightarrow> Some (Ok (LuksSource_new payload), c')
           | Some (Err e, c') \<Rightarrow> open_loop C J dbg R fresh creds (Some e) c'
           | Some (Panic q, c') \<Rightarrow> Some (Panic q, c')))"

definition open_layer ::
  "crypto_api \<Rightarrow> 'n json_api \<Rightarrow> (string \<Rightarrow> string) \<Rightarrow> 'r reader \<Rightarrow> ('s \<Rightarrow> u64 \<Rightarrow> u64 \<Rightarrow> 'r) \<Rightarrow>
   (EncryptionScheme \<Rightarrow> string \<Rightarrow> Credential list) \<Rightarrow> 's LuksLayer \<Rightarrow> (clock, VfsError, 'r LuksSource) prog" where
  "open_layer C J dbg R source_cursor credentials_for l =
     (let cands = credentials_for (scheme l) [] in
      if cands = [] then fail no_credentials
      else open_loop C J dbg R (source_cursor (encrypted l) 0 (layer_len l)) cands None)"

section \<open>The contract of an image source\<close>

locale image_source =
  fixes S :: "'s image_ops"
    and contents :: "'s \<Rightarrow> bytes"
    and good :: "'s \<Rightarrow> bool"
  assumes len_law: "good s \<Longrightarrow> unat (img_len S s) = length (contents s)"
    and read_law: "good s \<Longrightarrow> length buf \<le> isize_MAX \<Longrightarrow>
      \<exists>s'. img_read_at S offset buf s =
        Some (Ok (min (length buf) (length (contents s) - unat offset),
          take (length buf) (drop (unat offset) (contents s)) @
          drop (min (length buf) (length (contents s) - unat offset)) buf), s') \<and>
        good s' \<and> contents s' = contents s"
begin

lemma layer_new:
  assumes "good s"
  shows "\<exists>s'. LuksLayer_new S s = Some (Ok \<lparr>encrypted = s', layer_len = img_len S s,
       layer_scheme = (if take 6 (contents s) = LUKS_MAGIC \<and> 8 \<le> length (contents s) \<and> version_of (contents s) = 1
         then Luks1 else Luks2)\<rparr>) \<and> good s' \<and> contents s' = contents s"
proof -
  let ?c = "contents s"
  obtain s' where s': "img_read_at S 0 (replicate 8 0) s =
      Some (Ok (min 8 (length ?c), take 8 ?c @ drop (min 8 (length ?c)) (replicate 8 0)), s')"
    "good s'" "contents s' = ?c"
    using read_law [OF assms, of "replicate 8 0" 0] by auto
  show ?thesis
  proof (cases "8 \<le> length ?c")
    case True
    then have "take 2 (drop 6 ?c) = [?c ! 6, ?c ! 7]"
      by (intro nth_equalityI) (auto simp: less_Suc_eq numeral_2_eq_2)
    with True s' show ?thesis
      by (auto simp: LuksLayer_new_def Let_def starts_with_iff version_of_def)
  next
    case False
    with s' show ?thesis by (auto simp: LuksLayer_new_def Let_def)
  qed
qed

end

section \<open>Sources that keep the contract\<close>

text \<open>The test source \<open>MemSource\<close>.\<close>

definition mem_read_at :: "u64 \<Rightarrow> bytes \<Rightarrow> (bytes, VfsError, usize \<times> bytes) prog" where
  "mem_read_at offset buf =
     (\<lambda>s.
      let start = min (unat offset) (length s);
          stop = min (min (start + length buf) usize_MAX) (length s);
          n = stop - start
      in
      bindM (liftR (slice_index s start stop)) (\<lambda>src.
      bindM (liftR (copy_into buf 0 n src)) (\<lambda>buf'.
      ret (n, buf'))) s)"

definition mem_source :: "bytes image_ops" where
  "mem_source = \<lparr>img_len = (\<lambda>s. of_nat (length s)), img_read_at = mem_read_at\<rparr>"

interpretation mem: image_source mem_source "\<lambda>s. s" "\<lambda>s. length s \<le> isize_MAX"
proof unfold_locales
  fix s :: bytes assume s: "length s \<le> isize_MAX"
  then show "unat (img_len mem_source s) = length s" by (simp add: mem_source_def unat_of_nat)
  fix offset :: u64 and buf :: bytes assume buf: "length buf \<le> isize_MAX"
  let ?start = "min (unat offset) (length s)" and ?n = "min (length buf) (length s - unat offset)"
  have stop: "min (min (?start + length buf) usize_MAX) (length s) = ?start + ?n"
    using s buf by auto
  have "take ?n (drop ?start s) = take (length buf) (drop (unat offset) s)"
    by (cases "unat offset \<le> length s") (auto simp: min_def)
  moreover have "copy_into buf 0 ?n (take (length buf) (drop (unat offset) s)) =
      (Ok (take (length buf) (drop (unat offset) s) @ drop ?n buf) :: (bytes, VfsError) outcome)"
    by (simp add: copy_into_def min.commute)
  ultimately have "mem_read_at offset buf s = Some (Ok (?n, take (length buf) (drop (unat offset) s) @ drop ?n buf), s)"
    using stop by (simp add: mem_read_at_def Let_def slice_index_Ok)
  then show "\<exists>s'. img_read_at mem_source offset buf s =
      Some (Ok (?n, take (length buf) (drop (unat offset) s) @ drop ?n buf), s') \<and>
      length s' \<le> isize_MAX \<and> s' = s"
    using s by (simp add: mem_source_def)
qed

text \<open>The decrypted source, over any reader that keeps its contract.\<close>

context byte_reader
begin

definition source_ok :: "crypto_api \<Rightarrow> 'r LuksSource \<Rightarrow> bool" where
  "source_ok C s \<longleftrightarrow> view_ok C (inner s) \<and> source_len s = payload_size (inner s)"

lemma source_read:
  fixes offset :: u64
  assumes ok: "source_ok C s" and len: "length buf \<le> isize_MAX"
  defines "c \<equiv> view C (inner s)"
  defines "n \<equiv> min (length buf) (length c - unat offset)"
  shows "\<exists>s'. source_read_at C dbg R offset buf s =
      Some (Ok (n, take (length buf) (drop (unat offset) c) @ drop n buf), s') \<and>
      source_ok C s' \<and> view C (inner s') = c"
proof -
  let ?p = "inner s" and ?avail = "sat_sub (source_len s) offset"
  have lc: "length c = unat (payload_size ?p)" by (simp add: c_def view_def)
  have avail: "unat ?avail = length c - unat offset" using ok by (simp add: unat_sat_sub lc source_ok_def)
  show ?thesis
  proof (cases "?avail = 0")
    case True
    then have "n = 0" "length c \<le> unat offset" using avail by (simp_all add: n_def)
    with True ok show ?thesis by (auto simp: source_read_at_def Let_def c_def)
  next
    case False
    then have pos: "unat offset < length c" using avail by (metis diff_is_0_eq not_le unat_eq_zero)
    have want: "unat (min (of_nat (length buf)) ?avail) = n"
      using len avail by (simp add: n_def min_def word_le_nat_alt unat_of_nat)
    have "n \<le> length buf" by (simp add: n_def)
    have "unat (dp_payload_offset ?p) + unat offset + length (take n buf) \<le> u64_MAX"
      using pos unsigned_less [of "dp_total_size ?p", where 'a = nat]
      by (auto simp: n_def lc payload_size_def unat_sat_sub)
    then obtain r where r: "read_at C R offset (take n buf) ?p =
        Some (Ok (map (plain_byte C ?p (content (dp_reader ?p))) [unat offset..<unat offset + n]), ?p\<lparr>dp_reader := r\<rparr>)"
      "same_source (dp_reader ?p) r"
      using read_at_spec [of C ?p offset "take n buf"] ok \<open>n \<le> length buf\<close>
      by (auto simp: source_ok_def view_ok_def min_def)
    have "map (plain_byte C ?p (content (dp_reader ?p))) [unat offset..<unat offset + n] = take n (drop (unat offset) c)"
      unfolding c_def view_def using pos lc by (intro plaintext_slice) (auto simp: n_def)
    also have "\<dots> = take (length buf) (drop (unat offset) c)" by (auto simp: n_def min_def)
    finally have "source_read_at C dbg R offset buf s =
        Some (Ok (n, take (length buf) (drop (unat offset) c) @ drop n buf), s\<lparr>inner := ?p\<lparr>dp_reader := r\<rparr>\<rparr>)"
      using False want r(1) \<open>n \<le> length buf\<close>
      by (simp add: source_read_at_def Let_def map_errM_def on_inner_def bindM_run)
    moreover have "source_ok C (s\<lparr>inner := ?p\<lparr>dp_reader := r\<rparr>\<rparr>)" "view C (?p\<lparr>dp_reader := r\<rparr>) = c"
      using ok r(2) by (auto simp: source_ok_def view_ok_def same_source_def c_def view_def plaintext_def)
    ultimately show ?thesis by auto
  qed
qed

lemma luks_image_source: "image_source (luks_source C dbg R) (\<lambda>s. view C (inner s)) (source_ok C)"
proof unfold_locales
  show "unat (img_len (luks_source C dbg R) s) = length (view C (inner s))" if "source_ok C s" for s
    using that by (simp add: luks_source_def source_len_of_def source_ok_def view_def)
  show "\<exists>s'. img_read_at (luks_source C dbg R) offset buf s =
        Some (Ok (min (length buf) (length (view C (inner s)) - unat offset),
          take (length buf) (drop (unat offset) (view C (inner s))) @
          drop (min (length buf) (length (view C (inner s)) - unat offset)) buf), s') \<and>
        source_ok C s' \<and> view C (inner s') = view C (inner s)"
    if "source_ok C s" "length buf \<le> isize_MAX" for s offset buf
    using source_read [OF that] by (simp add: luks_source_def)
qed

end

interpretation luks: image_source "luks_source C dbg cursor_reader" "\<lambda>s. cursor.view C (inner s)"
    "cursor.source_ok C" for C dbg
  by (rule cursor.luks_image_source)

section \<open>What opening returns\<close>

text \<open>The first passphrase that unlocks, or the error of the last one.\<close>

fun open_spec ::
  "crypto_api \<Rightarrow> 'n json_api \<Rightarrow> (string \<Rightarrow> string) \<Rightarrow> bytes \<Rightarrow> bytes list \<Rightarrow> LuksError option \<Rightarrow>
   (unit DecryptedPayload, VfsError) outcome" where
  "open_spec C J dbg img [] last_err =
     Err (case last_err of Some e \<Rightarrow> map_luks_err dbg e | None \<Rightarrow> no_credentials)"
| "open_spec C J dbg img (pw # pws) last_err =
     (case unlock_spec C J img pw of
        Ok p \<Rightarrow> Ok p
      | Err e \<Rightarrow> open_spec C J dbg img pws (Some e)
      | Panic q \<Rightarrow> Panic q)"

text \<open>A container whose every parameter is supported for a passphrase.\<close>

definition image_supported :: "crypto_api \<Rightarrow> 'n json_api \<Rightarrow> bytes \<Rightarrow> bytes \<Rightarrow> bool" where
  "image_supported C J img pw \<longleftrightarrow>
     (version_of img = 1 \<longrightarrow> image_supported1 img) \<and> (version_of img = 2 \<longrightarrow> image_supported2 C J img pw)"

lemma agrees_calm: "agrees True spec x \<Longrightarrow> x = spec"
  by (cases x) auto

context byte_reader
begin

text \<open>A source that opening has handed out.\<close>

definition opened :: "crypto_api \<Rightarrow> 'n json_api \<Rightarrow> bytes \<Rightarrow> 'r \<Rightarrow> Credential list \<Rightarrow> 'r LuksSource \<Rightarrow> bool" where
  "opened C J img fresh creds src \<longleftrightarrow>
     (\<exists>cred pw. cred \<in> set creds \<and> passphrase_of cred = Some pw \<and>
        unlock_spec C J img pw = Ok (forget (inner src))) \<and>
     source_len src = payload_size (inner src) \<and> same_source fresh (dp_reader (inner src))"

lemma fresh_unlock:
  assumes C: "crypto_ok C" and inv: "inv fresh"
    and size: "version_of (content fresh) = 2 \<Longrightarrow> hdr_size_of (content fresh) \<le> isize_MAX"
  obtains x c' where "over_fresh fresh (unlock_with_passphrase C J R pw) c = Some (x, c')" "reading c' = reading c"
    "agrees (still c \<and> image_supported C J (content fresh) pw) (unlock_spec C J (content fresh) pw) (map_outcome forget id x)"
    "\<And>p. x = Ok p \<Longrightarrow> same_source fresh (dp_reader p)"
proof -
  let ?w = "\<lparr>reading = reading c, tick = tick c, rd_state = fresh\<rparr>"
  have "0 < UNLOCK_BUDGET" by (simp add: UNLOCK_BUDGET_def from_secs_def)
  then have calm: "calm C J pw UNLOCK_BUDGET ?w = (still c \<and> image_supported C J (content fresh) pw)"
    by (simp add: calm_def image_supported_def still_def)
  have "entry_ok (calm C J pw UNLOCK_BUDGET ?w) (unlock_spec C J (content (rd_state ?w)) pw) ?w
      (unlock_with_passphrase_within C J R pw UNLOCK_BUDGET ?w)"
    using C inv size by (intro unlock_within_spec) simp_all
  then obtain x w' where "unlock_with_passphrase C J R pw ?w = Some (x, w')" "world_step ?w w'"
    "agrees (still c \<and> image_supported C J (content fresh) pw) (unlock_spec C J (content fresh) pw) (map_outcome forget id x)"
    "\<forall>p. x = Ok p \<longrightarrow> dp_reader p = rd_state w'"
    by (auto simp: entry_ok_def unlock_with_passphrase_def calm)
  then show ?thesis
    by (intro that [of x "\<lparr>reading = reading w', tick = tick w'\<rparr>"]) (auto simp: over_fresh_def world_step_def)
qed

lemma open_loop_spec:
  assumes C: "crypto_ok C" and inv: "inv fresh"
    and size: "version_of (content fresh) = 2 \<Longrightarrow> hdr_size_of (content fresh) \<le> isize_MAX"
  shows "\<exists>x c'. open_loop C J dbg R fresh creds last_err c = Some (x, c') \<and> reading c' = reading c \<and>
     (case x of Ok src \<Rightarrow> opened C J (content fresh) fresh creds src | Err _ \<Rightarrow> True | Panic _ \<Rightarrow> False) \<and>
     (still c \<and> (\<forall>pw. image_supported C J (content fresh) pw) \<longrightarrow>
      map_outcome (\<lambda>s. forget (inner s)) id x =
        open_spec C J dbg (content fresh) (List.map_filter passphrase_of creds) last_err)"
proof (induction creds arbitrary: last_err c)
  case Nil
  then show ?case by (auto simp: List.map_filter_simps)
next
  case (Cons cred creds)
  show ?case
  proof (cases "passphrase_of cred")
    case None
    with Cons.IH [of last_err c] show ?thesis
      by (fastforce simp: List.map_filter_simps opened_def split: outcome.splits)
  next
    case (Some pw)
    obtain x c1 where run: "over_fresh fresh (unlock_with_passphrase C J R pw) c = Some (x, c1)" "reading c1 = reading c"
      "agrees (still c \<and> image_supported C J (content fresh) pw) (unlock_spec C J (content fresh) pw) (map_outcome forget id x)"
      "\<And>p. x = Ok p \<Longrightarrow> same_source fresh (dp_reader p)"
      using fresh_unlock [OF assms] by blast
    show ?thesis
    proof (cases x)
      case (Ok p)
      with run Some show ?thesis
        by (auto simp: List.map_filter_simps opened_def LuksSource_new_def)
    next
      case (Err e)
      have st: "still c1 = still c" using run(2) by (simp add: still_def)
      have "unlock_spec C J (content fresh) pw = Err e" if "still c" "image_supported C J (content fresh) pw"
        using run(3) that Err by simp
      with Cons.IH [of "Some e" c1] Some run(1,2) Err st show ?thesis
        by (fastforce simp: List.map_filter_simps opened_def split: outcome.splits)
    qed (use run(3) in simp)
  qed
qed

text \<open>The same for the whole call, in terms of the reader's content.\<close>

lemma open_layer_spec:
  fixes source_cursor :: "'s \<Rightarrow> u64 \<Rightarrow> u64 \<Rightarrow> 'r" and l :: "'s LuksLayer"
  defines "fresh \<equiv> source_cursor (encrypted l) 0 (layer_len l)" and "img \<equiv> content (source_cursor (encrypted l) 0 (layer_len l))"
  assumes "crypto_ok C" and "inv fresh" and "version_of img = 2 \<Longrightarrow> hdr_size_of img \<le> isize_MAX"
  shows "\<exists>x c'. open_layer C J dbg R source_cursor credentials_for l c = Some (x, c') \<and>
     (case x of
        Ok src \<Rightarrow> \<exists>cred pw. cred \<in> set (credentials_for (scheme l) []) \<and> passphrase_of cred = Some pw \<and>
          unlock_spec C J img pw = Ok (forget (inner src)) \<and> source_len src = payload_size (inner src) \<and>
          content (dp_reader (inner src)) = img
      | Err _ \<Rightarrow> True | Panic _ \<Rightarrow> False) \<and>
     (still c \<and> (\<forall>pw. image_supported C J img pw) \<longrightarrow>
      map_outcome (\<lambda>s. forget (inner s)) id x =
        open_spec C J dbg img (List.map_filter passphrase_of (credentials_for (scheme l) [])) None)"
proof (cases "credentials_for (scheme l) [] = []")
  case True
  then show ?thesis by (simp add: open_layer_def no_credentials_def List.map_filter_simps)
next
  case False
  then show ?thesis
    using open_loop_spec [OF assms(3,4), of J dbg "credentials_for (scheme l) []" None c] assms(5)
    by (fastforce simp: open_layer_def fresh_def img_def opened_def same_source_def split: outcome.splits)
qed

end

section \<open>Properties\<close>

text \<open>
  C11.  Opening a layer, over any view of the source that keeps the contract of a reader, always
  returns and never panics (for a LUKS2 header of a size that can be allocated).  A source that it
  hands out is the unlocked payload for one of the wired credentials.  On a calm run the answer is
  the one of the specification: the first credential that unlocks in the order given, unwired ones
  skipped; if none does, the error of the last attempt, or a request for credentials if there was
  no attempt.
\<close>

theorem open_tries_credentials:
  fixes source_cursor :: "'s \<Rightarrow> u64 \<Rightarrow> u64 \<Rightarrow> 'r" and l :: "'s LuksLayer"
  defines "fresh \<equiv> source_cursor (encrypted l) 0 (layer_len l)"
  assumes "byte_reader R content pos retries ready" and "crypto_ok C" and "ready fresh"
    and "version_of (content fresh) = 2 \<Longrightarrow> hdr_size_of (content fresh) \<le> isize_MAX"
  shows "\<exists>x c'. open_layer C J dbg R source_cursor credentials_for l c = Some (x, c') \<and>
     (case x of
        Ok src \<Rightarrow> \<exists>cred pw. cred \<in> set (credentials_for (scheme l) []) \<and> passphrase_of cred = Some pw \<and>
          unlock_spec C J (content fresh) pw = Ok (forget (inner src)) \<and> source_len src = payload_size (inner src) \<and>
          content (dp_reader (inner src)) = content fresh
      | Err _ \<Rightarrow> True | Panic _ \<Rightarrow> False) \<and>
     (still c \<and> (\<forall>pw. image_supported C J (content fresh) pw) \<longrightarrow>
      map_outcome (\<lambda>s. forget (inner s)) id x =
        open_spec C J dbg (content fresh) (List.map_filter passphrase_of (credentials_for (scheme l) [])) None)"
  unfolding fresh_def
  by (rule byte_reader.open_layer_spec [OF assms(2,3)]) (use assms(4,5) in \<open>simp_all add: fresh_def\<close>)

definition sample_layer :: "bytes LuksLayer" where
  "sample_layer = \<lparr>encrypted = replicate 16 0, layer_len = 16, layer_scheme = Luks2\<rparr>"

theorem open_tries_credentials_witness:
  "\<exists>x c'. open_layer sample_crypto (sample_json Null) (\<lambda>t. t) cursor_reader (\<lambda>s off len. cursor_new s)
       (\<lambda>sch target. [OtherCredential, Password ''x'']) sample_layer \<lparr>reading = (\<lambda>n. 0), tick = 0\<rparr> = Some (x, c') \<and>
     map_outcome (\<lambda>s. forget (inner s)) id x =
       Err (Decode ''luks'' 0 (to_string (\<lambda>t. t) (NotLuks (replicate 6 0))) [])"
proof -
  have z: "version_of (replicate 16 0) = 0" by (simp add: version_of_def)
  then have sup: "image_supported sample_crypto (sample_json Null) (replicate 16 0) pw" for pw
    by (simp add: image_supported_def)
  have "unlock_spec sample_crypto (sample_json Null) (replicate 16 0) pw = Err (NotLuks (replicate 6 0))" for pw
    by (simp add: unlock_spec_def z)
  then show ?thesis
    using open_tries_credentials [OF cursor.byte_reader_axioms sample_crypto_ok(1),
        of "\<lambda>s off len. cursor_new s" sample_layer "sample_json Null" "\<lambda>t. t" "\<lambda>sch target. [OtherCredential, Password ''x'']"
          "\<lparr>reading = (\<lambda>n. 0), tick = 0\<rparr>"] z sup
    by (auto simp: sample_layer_def cursor_new_def still_def List.map_filter_simps map_luks_err_def)
qed

text \<open>
  C28.  A decrypted source over an in-memory container serves every read: it copies the bytes of the
  plaintext from the offset on, as many as the buffer holds and the payload has left, reports their
  number, leaves the rest of the buffer, and its length is the length of the plaintext.  A read at
  or behind the end returns zero.
\<close>

theorem source_serves_plaintext:
  fixes offset :: u64
  assumes "crypto_ok C" and "payload_ok p" and "length (cur_data (dp_reader p)) \<le> isize_MAX" and "length buf \<le> isize_MAX"
  defines "bs \<equiv> take (length buf) (drop (unat offset) (plaintext C p (cur_data (dp_reader p))))"
  shows "unat (source_len_of (LuksSource_new p)) = length (plaintext C p (cur_data (dp_reader p))) \<and>
     (\<exists>s. source_read_at C dbg cursor_reader offset buf (LuksSource_new p) =
        Some (Ok (length bs, bs @ drop (length bs) buf), s) \<and> source_len s = payload_size p)"
proof -
  let ?s = "LuksSource_new p"
  have ok: "cursor.source_ok C ?s"
    using assms(1-3) by (simp add: cursor.source_ok_def cursor.view_ok_def LuksSource_new_def)
  have v: "cursor.view C (inner ?s) = plaintext C p (cur_data (dp_reader p))"
    by (simp add: cursor.view_def LuksSource_new_def)
  have len: "length bs = min (length buf) (length (plaintext C p (cur_data (dp_reader p))) - unat offset)"
    by (simp add: bs_def min.commute)
  have keep: "source_len s' = source_len ?s"
    if "source_read_at C dbg cursor_reader offset buf ?s = Some (x, s')" for x s'
    using that
    by (auto simp: source_read_at_def Let_def map_errM_def on_inner_def bindM_run
        split: if_splits option.splits outcome.splits)
  show ?thesis
    using luks.len_law [OF ok, of "\<lambda>t. t"] luks.read_law [OF ok assms(4), of dbg offset] keep
    unfolding v len [symmetric] bs_def [symmetric]
    by (fastforce simp: luks_source_def LuksSource_new_def)
qed

theorem source_serves_plaintext_witness:
  "\<exists>s. source_read_at sample_crypto (\<lambda>t. t) cursor_reader 510 (replicate 4 9)
       (LuksSource_new (sample_payload (replicate 512 3))) =
     Some (Ok (2, drop 510 (plaintext sample_crypto (sample_payload (replicate 512 3)) (replicate 512 3)) @ replicate 2 9), s)"
proof -
  have "payload_size (sample_payload (replicate 512 3)) = 512"
    by (simp add: payload_size_def sample_payload_def sat_sub_def)
  then show ?thesis
    using source_serves_plaintext [OF sample_crypto_ok(1) sample_payload_ok(1), of "replicate 512 3" "replicate 4 9" "\<lambda>t. t" 510]
    by (auto simp: sample_payload_ok)
qed

text \<open>
  C29.  Over any image source that keeps the contract of the trait, wrapping it reports LUKS1 exactly
  when the content starts with the magic and version 1, and LUKS2 for everything else, without a
  panic and without changing the source.
\<close>

theorem scheme_is_detected:
  assumes "image_source S contents good" and "good s"
  shows "\<exists>l. LuksLayer_new S s = Some (Ok l) \<and> layer_len l = img_len S s \<and> contents (encrypted l) = contents s \<and>
     (scheme l = Luks1) = (take 6 (contents s) = LUKS_MAGIC \<and> 8 \<le> length (contents s) \<and> version_of (contents s) = 1)"
proof -
  obtain s' where "LuksLayer_new S s = Some (Ok \<lparr>encrypted = s', layer_len = img_len S s,
       layer_scheme = (if take 6 (contents s) = LUKS_MAGIC \<and> 8 \<le> length (contents s) \<and> version_of (contents s) = 1
         then Luks1 else Luks2)\<rparr>)" "contents s' = contents s"
    using image_source.layer_new [OF assms] by blast
  then show ?thesis by (auto simp: scheme_def)
qed

theorem scheme_is_detected_witness:
  "\<exists>l. LuksLayer_new mem_source (LUKS_MAGIC @ [0, 1]) = Some (Ok l) \<and> scheme l = Luks1"
  using scheme_is_detected [OF mem.image_source_axioms, of "LUKS_MAGIC @ [0, 1]"]
  by (auto simp: version_of_def LUKS_MAGIC_def from_be_bytes_def)

end
