(* ===== verification/Forensic.thy ===== *)
theory Forensic
  imports Header1
begin

text \<open>
  \<^verbatim>\<open>forensic/src/lib.rs\<close>: the auditor of LUKS1 headers.  The report types belong to the crate
  \<^verbatim>\<open>forensicnomicon\<close>, which is not part of the repository: \<open>Severity\<close> and \<open>Category\<close> have the
  variants that the auditor names, \<open>Evidence\<close> and \<open>Source\<close> the fields that it sets, and the
  conversion of an observation to a finding is a parameter.
\<close>

section \<open>Data\<close>

datatype Severity = Info | Low | Medium

datatype Category = Integrity | Provenance

text \<open>The third field of the source, \<open>location\<close>, is always \<open>None\<close>.\<close>

record Evidence =
  field :: string
  ev_value :: string

record Source =
  analyzer :: string
  scope :: string
  src_version :: "string option"

datatype AnomalyKind =
    WeakCipherMode string
  | WeakKdfHash string
  | LowKdfIterations usize u32
  | KeyslotInventory usize

record Anomaly =
  an_severity :: Severity
  an_code :: string
  an_kind :: AnomalyKind
  an_note :: string

definition ANALYZER :: string where
  "ANALYZER = ''luks-forensic''"

section \<open>What a kind determines\<close>

fun severity :: "AnomalyKind \<Rightarrow> Severity" where
  "severity (WeakCipherMode _) = Low"
| "severity (WeakKdfHash _) = Low"
| "severity (LowKdfIterations _ _) = Medium"
| "severity (KeyslotInventory _) = Info"

fun code :: "AnomalyKind \<Rightarrow> string" where
  "code (WeakCipherMode _) = ''LUKS-WEAK-CIPHER-MODE''"
| "code (WeakKdfHash _) = ''LUKS-WEAK-KDF-HASH''"
| "code (LowKdfIterations _ _) = ''LUKS-LOW-KDF-ITERATIONS''"
| "code (KeyslotInventory _) = ''LUKS-KEYSLOT-INVENTORY''"

fun category :: "AnomalyKind \<Rightarrow> Category" where
  "category (WeakCipherMode _) = Integrity"
| "category (WeakKdfHash _) = Integrity"
| "category (LowKdfIterations _ _) = Integrity"
| "category (KeyslotInventory _) = Provenance"

fun note_of :: "AnomalyKind \<Rightarrow> string" where
  "note_of (WeakCipherMode mode) = ''cipher mode is '' @ mode @ '' (weaker than xts-plain64)''"
| "note_of (WeakKdfHash h) = ''KDF/AF hash is '' @ h"
| "note_of (LowKdfIterations slot iters) =
     ''keyslot '' @ show_nat slot @ '' has only '' @ show_nat (unat iters) @
     '' PBKDF2 iterations (brute-force risk)''"
| "note_of (KeyslotInventory n) = show_nat n @ '' active keyslot(s) of 8''"

definition evidence :: "string \<Rightarrow> string \<Rightarrow> Evidence" where
  "evidence f v = \<lparr>field = f, ev_value = v\<rparr>"

fun evidence_of :: "AnomalyKind \<Rightarrow> Evidence list" where
  "evidence_of (WeakCipherMode mode) = [evidence ''cipher_mode'' mode]"
| "evidence_of (WeakKdfHash h) = [evidence ''hash_spec'' h]"
| "evidence_of (LowKdfIterations slot iters) =
     [evidence ''keyslot'' (show_nat slot), evidence ''iterations'' (show_nat (unat iters))]"
| "evidence_of (KeyslotInventory n) = [evidence ''active_keyslots'' (show_nat n)]"

definition Anomaly_new :: "AnomalyKind \<Rightarrow> Anomaly" where
  "Anomaly_new k = \<lparr>an_severity = severity k, an_code = code k, an_kind = k, an_note = note_of k\<rparr>"

text \<open>The trait \<open>Observation\<close>: what a finding may ask of an anomaly.\<close>

record Observation =
  obs_severity :: "Severity option"
  obs_code :: string
  obs_note :: string
  obs_category :: Category
  obs_evidence :: "Evidence list"

definition observe :: "Anomaly \<Rightarrow> Observation" where
  "observe a = \<lparr>obs_severity = Some (an_severity a), obs_code = an_code a, obs_note = an_note a,
     obs_category = category (an_kind a), obs_evidence = evidence_of (an_kind a)\<rparr>"

section \<open>The audit\<close>

text \<open>The loop over the keyslots, paired with their index.\<close>

fun audit_slots :: "(usize \<times> Keyslot) list \<Rightarrow> Anomaly list" where
  "audit_slots [] = []"
| "audit_slots ((i, slot) # slots) =
     (if is_active slot \<and> iterations slot < 1000
      then Anomaly_new (LowKdfIterations i (iterations slot)) # audit_slots slots
      else audit_slots slots)"

definition audit1 :: "Luks1Header \<Rightarrow> Anomaly list" where
  "audit1 h =
     (if starts_with (cipher_mode h) ''cbc'' \<or> starts_with (cipher_mode h) ''ecb''
      then [Anomaly_new (WeakCipherMode (cipher_mode h))] else []) @
     (if hash_spec h = ''sha1'' then [Anomaly_new (WeakKdfHash (hash_spec h))] else []) @
     audit_slots (List.enumerate 0 (keyslots h)) @
     [Anomaly_new (KeyslotInventory (length (active_keyslots h)))]"

text \<open>\<open>to_finding\<close> is the method of the trait and \<open>pkg_version\<close> is \<open>CARGO_PKG_VERSION\<close>.\<close>

definition audit1_findings ::
  "(Observation \<Rightarrow> Source \<Rightarrow> 'f) \<Rightarrow> string \<Rightarrow> Luks1Header \<Rightarrow> string \<Rightarrow> 'f list" where
  "audit1_findings to_finding pkg_version h scp =
     (let source = \<lparr>analyzer = ANALYZER, scope = scp, src_version = Some pkg_version\<rparr> in
      map (\<lambda>a. to_finding (observe a) source) (audit1 h))"

section \<open>What the audit reports\<close>

text \<open>The conditions of the head comment of the file.\<close>

fun holds_of :: "Luks1Header \<Rightarrow> AnomalyKind \<Rightarrow> bool" where
  "holds_of h (WeakCipherMode mode) =
     (mode = cipher_mode h \<and> (take 3 mode = ''cbc'' \<or> take 3 mode = ''ecb''))"
| "holds_of h (WeakKdfHash hs) = (hs = hash_spec h \<and> hs = ''sha1'')"
| "holds_of h (LowKdfIterations i n) =
     (i < length (keyslots h) \<and> is_active (keyslots h ! i) \<and> n = iterations (keyslots h ! i) \<and> unat n < 1000)"
| "holds_of h (KeyslotInventory n) = (n = length (filter is_active (keyslots h)))"

lemma audit_slots_filter:
  "audit_slots xs = map (\<lambda>(i, s). Anomaly_new (LowKdfIterations i (iterations s)))
     (filter (\<lambda>(i, s). is_active s \<and> unat (iterations s) < 1000) xs)"
  by (induction xs rule: audit_slots.induct) (auto simp: word_less_nat_alt)

lemma Anomaly_new_kind [simp]: "an_kind (Anomaly_new k) = k"
  by (simp add: Anomaly_new_def)

lemma starts_with_three:
  "starts_with s ''cbc'' = (take 3 s = ''cbc'')" "starts_with s ''ecb'' = (take 3 s = ''ecb'')"
  by (simp_all add: starts_with_iff numeral_3_eq_3)

lemma mem_audit1: "a \<in> set (audit1 h) \<longleftrightarrow> a = Anomaly_new (an_kind a) \<and> holds_of h (an_kind a)"
proof
  assume "a \<in> set (audit1 h)"
  then show "a = Anomaly_new (an_kind a) \<and> holds_of h (an_kind a)"
    by (auto simp: audit1_def audit_slots_filter starts_with_three active_keyslots_def in_set_enumerate_eq
        split: if_splits)
next
  assume a: "a = Anomaly_new (an_kind a) \<and> holds_of h (an_kind a)"
  have slots: "Anomaly_new (LowKdfIterations i n) \<in> set (audit_slots (List.enumerate 0 (keyslots h)))"
    if "holds_of h (LowKdfIterations i n)" for i n
    using that by (auto simp: audit_slots_filter in_set_enumerate_eq intro!: image_eqI [of _ _ "(i, keyslots h ! i)"])
  from a slots show "a \<in> set (audit1 h)"
    by (cases "an_kind a") (auto simp: audit1_def starts_with_three active_keyslots_def)
qed

lemma audit1_distinct: "distinct (map an_kind (audit1 h))"
proof -
  have "distinct (map an_kind (audit_slots (List.enumerate k xs)))" for k and xs :: "Keyslot list"
    by (simp add: audit_slots_filter distinct_map inj_on_def split_beta)
      (auto simp: distinct_map inj_on_def in_set_enumerate_eq intro!: distinct_filter)
  then show ?thesis
    by (auto simp: audit1_def audit_slots_filter)
qed

section \<open>Properties\<close>

text \<open>
  C34.  The audit reports exactly what the header shows: an anomaly is in the report if and only if
  its condition holds of the header (a CBC or ECB mode, a SHA-1 hash, an active keyslot with fewer
  than 1000 iterations, the number of active keyslots) and its severity, code and note are the ones
  of its kind; no anomaly is reported twice, and every report has its inventory.
\<close>

theorem audit_is_exact:
  "(a \<in> set (audit1 h)) = (a = Anomaly_new (an_kind a) \<and> holds_of h (an_kind a)) \<and>
   distinct (map an_kind (audit1 h)) \<and> last (audit1 h) = Anomaly_new (KeyslotInventory (length (active_keyslots h)))"
  using mem_audit1 audit1_distinct by (simp add: audit1_def)

text \<open>
  A header with an XTS mode, a hash other than SHA-1 and at least 1000 iterations in every active
  keyslot yields one finding, the inventory, which carries the name of the analyzer, the scope and
  the version.
\<close>

lemma clean_header_has_one_finding:
  assumes "cipher_mode h = ''xts-plain64''" and "hash_spec h \<noteq> ''sha1''"
    and "\<And>s. s \<in> set (active_keyslots h) \<Longrightarrow> 1000 \<le> unat (iterations s)"
  shows "audit1_findings to_finding ver h scp =
     [to_finding \<lparr>obs_severity = Some Info, obs_code = ''LUKS-KEYSLOT-INVENTORY'',
        obs_note = show_nat (length (active_keyslots h)) @ '' active keyslot(s) of 8'',
        obs_category = Provenance,
        obs_evidence = [evidence ''active_keyslots'' (show_nat (length (active_keyslots h)))]\<rparr>
        \<lparr>analyzer = ''luks-forensic'', scope = scp, src_version = Some ver\<rparr>]"
proof -
  have "\<not> (is_active s \<and> unat (iterations s) < 1000)" if "s \<in> set (keyslots h)" for s
    using assms(3) [of s] that by (auto simp: active_keyslots_def)
  then have "audit_slots (List.enumerate 0 (keyslots h)) = []"
    by (auto simp: audit_slots_filter filter_empty_conv in_set_enumerate_eq)
  with assms(1,2) show ?thesis
    by (simp add: audit1_findings_def audit1_def starts_with_three observe_def Anomaly_new_def ANALYZER_def Let_def)
qed

lemma sample_header_is_clean:
  "length (audit1_findings (\<lambda>obs src. obs_code obs) ''1.0''
     (sample_header\<lparr>keyslots := replicate 8 (sample_slot\<lparr>iterations := 50000\<rparr>)\<rparr>) ''container.luks'') = 1"
  using clean_header_has_one_finding [of "sample_header\<lparr>keyslots := replicate 8 (sample_slot\<lparr>iterations := 50000\<rparr>)\<rparr>"
      "\<lambda>obs src. obs_code obs" "''1.0''" "''container.luks''"]
  by (simp add: sample_header_def sample_slot_def active_keyslots_def)

end
