(* ===== verification/Fixtures.thy ===== *)
theory Fixtures
  imports Vfs Forensic
begin

unbundle bit_operations_syntax

text \<open>
  The container builders of the test modules of \<^verbatim>\<open>core/src/volume.rs\<close> and \<^verbatim>\<open>core/src/vfs.rs\<close>, and
  that what they write is what unlocking reads back: the master key and the plaintext.
\<close>

section \<open>Encryption\<close>

text \<open>
  \<open>xts_encrypt\<close>.  Splitting the key and making the two ciphers panics for another length than 64 bytes,
  \<open>chunks_mut\<close> for a size of zero, the sum of the tweak is checked, and \<open>encrypt_sector\<close> of the cipher crate
  panics for a unit below one block.
\<close>

definition encrypt_unit :: "(bytes \<Rightarrow> bytes \<Rightarrow> bytes) \<Rightarrow> u128 \<Rightarrow> u128 \<Rightarrow> usize \<times> bytes \<Rightarrow> bytes res" where
  "encrypt_unit enc base step uc =
     (case uc of (u, chunk) \<Rightarrow>
        bindR (chk_mul (of_nat u) step) (\<lambda>m.
        bindR (chk_add base m) (\<lambda>tweak.
        if length chunk < 16 then Panic ''a unit needs at least one block''
        else Ok (enc (to_le_bytes 16 tweak) chunk))))"

definition xts_encrypt :: "crypto_api \<Rightarrow> bytes \<Rightarrow> bytes \<Rightarrow> usize \<Rightarrow> u128 \<Rightarrow> bytes res" where
  "xts_encrypt C key buf unit_size base =
     (let step = of_nat (max (unit_size div 512) 1) in
      if length key < 32 then Panic ''mid > len''
      else if length key - 32 \<noteq> 32 then Panic ''key of another length''
      else if unit_size = 0 then Panic ''chunk size must be non-zero''
      else bindR (mapR (encrypt_unit (encrypt_sector C Aes256 (take 32 key) (drop 32 key)) base step)
                    (List.enumerate 0 (chunks unit_size buf)))
             (\<lambda>cs. Ok (concat cs)))"

text \<open>What it returns: each unit encrypted under its own tweak.\<close>

definition xts_units :: "crypto_api \<Rightarrow> bytes \<Rightarrow> bytes \<Rightarrow> usize \<Rightarrow> u128 \<Rightarrow> bytes" where
  "xts_units C key buf unit_size base =
     units_ref (encrypt_sector C Aes256 (take 32 key) (drop 32 key)) buf unit_size (unat base) (unit_step unit_size)"

lemma encrypt_unit_Ok:
  "encrypt_unit enc base (of_nat (unit_step n)) (u, c) = Ok y \<Longrightarrow> y = unit_ref enc (unat base) (unit_step n) u c"
  by (auto simp: encrypt_unit_def unit_ref_def chk_mul_def chk_add_def split: if_splits)

lemma encrypt_unit_value:
  assumes "16 \<le> length c" and "unat base + u * unat step < 2 ^ 128"
  shows "encrypt_unit enc base step (u, c) = Ok (enc (to_le_bytes 16 (of_nat (unat base + u * unat step) :: u128)) c)"
  using assms(1) by (simp add: encrypt_unit_def unit_tweak [OF assms(2)] del: of_nat_mult of_nat_add)

lemma mapR_Ok_values:
  "mapR f xs = Ok ys \<Longrightarrow> (\<And>x y. x \<in> set xs \<Longrightarrow> f x = Ok y \<Longrightarrow> y = g x) \<Longrightarrow> ys = map g xs"
  by (induction xs arbitrary: ys) (auto simp: outcome_simps)

lemma xts_encrypt_Ok:
  assumes "xts_encrypt C key buf n base = Ok ct"
  shows "ct = xts_units C key buf n base"
proof -
  let ?enc = "encrypt_sector C Aes256 (take 32 key) (drop 32 key)"
  obtain cs where cs: "mapR (encrypt_unit ?enc base (of_nat (unit_step n))) (List.enumerate 0 (chunks n buf)) = Ok cs" "ct = concat cs"
    using assms by (auto simp: xts_encrypt_def Let_def unit_step_def outcome_simps split: if_splits)
  have "cs = map (\<lambda>(u, c). unit_ref ?enc (unat base) (unit_step n) u c) (List.enumerate 0 (chunks n buf))"
    by (rule mapR_Ok_values [OF cs(1)]) (auto dest: encrypt_unit_Ok)
  with cs(2) show ?thesis by (simp add: xts_units_def units_ref_def on_chunks_def)
qed

lemma chunks_whole:
  assumes "n dvd length xs" and "0 < n" and "c \<in> set (chunks n xs)"
  shows "length c = n"
  using assms
proof (induction "length xs" arbitrary: xs rule: less_induct)
  case less
  show ?case
  proof (cases "xs = []")
    case False
    then have "n \<le> length xs" using less.prems by (simp add: dvd_imp_le)
    with False less.prems have "c = take n xs \<or> c \<in> set (chunks n (drop n xs))"
      by (simp add: chunks_unfold)
    moreover have "length c = n" if "c \<in> set (chunks n (drop n xs))"
      using that False less.prems \<open>n \<le> length xs\<close> by (intro less.hyps [of "drop n xs"]) (simp_all add: dvd_diff_nat)
    ultimately show ?thesis using \<open>n \<le> length xs\<close> by auto
  qed (use less.prems in simp)
qed

lemma xts_encrypt_value:
  assumes "n dvd length buf" and "16 \<le> n" and "length key = 64" and "tweaks_fit n (length buf) (unat base)"
  shows "xts_encrypt C key buf n base = Ok (xts_units C key buf n base)"
proof -
  let ?enc = "encrypt_sector C Aes256 (take 32 key) (drop 32 key)" and ?us = "List.enumerate 0 (chunks n buf)"
  have "unit_step n < 2 ^ 128"
    using assms(4) by (auto simp: tweaks_fit_def unit_step_def max_def intro: le_less_trans [OF div_le_dividend])
  then have st: "unat (of_nat (unit_step n) :: u128) = unit_step n" by (simp add: unat_of_nat)
  have "encrypt_unit ?enc base (of_nat (unit_step n)) uc = Ok ((\<lambda>(u, c). unit_ref ?enc (unat base) (unit_step n) u c) uc)"
    if "uc \<in> set ?us" for uc
  proof -
    obtain u c where uc: "uc = (u, c)" by (cases uc)
    with that have u: "u < length (chunks n buf)" "c = chunks n buf ! u" by (auto simp: in_set_enumerate_eq)
    then have c: "length c = n" using chunks_whole [OF assms(1) _ nth_mem] assms(2) by simp
    have "u \<le> length buf" using u(1) length_chunks [of n buf] by simp
    then have "u * unit_step n \<le> length buf * unit_step n" by (rule mult_le_mono1)
    then have "unat base + u * unat (of_nat (unit_step n) :: u128) < 2 ^ 128"
      using assms(4) unfolding st tweaks_fit_def by linarith
    from encrypt_unit_value [OF _ this, of c ?enc] c assms(2) show ?thesis by (simp add: uc unit_ref_def st)
  qed
  then have "mapR (encrypt_unit ?enc base (of_nat (unit_step n))) ?us =
      Ok (map (\<lambda>(u, c). unit_ref ?enc (unat base) (unit_step n) u c) ?us)" by (rule mapR_Ok)
  then show ?thesis
    using assms(2,3) by (simp add: xts_encrypt_def Let_def unit_step_def xts_units_def units_ref_def on_chunks_def)
qed

lemma length_xts_units: "crypto_ok C \<Longrightarrow> length (xts_units C key buf unit_size base) = length buf"
  by (simp add: xts_units_def length_units_ref crypto_okD)

lemma xts_decrypt_units:
  assumes "crypto_ok C" and "xts_inverse C" and "16 \<le> unit_size" and "length key = 64"
    and "tweaks_fit unit_size (length buf) (unat base)"
  shows "xts_decrypt_area C ''xts-plain64'' key (xts_units C key buf unit_size base) unit_size base = Ok buf"
proof -
  have "units_ref (decrypt_sector C Aes256 (take 32 key) (drop 32 key)) (xts_units C key buf unit_size base)
      unit_size (unat base) (unit_step unit_size) = buf"
    unfolding xts_units_def using assms by (intro units_ref_inverse) (auto simp: xts_inverse_def crypto_okD)
  moreover have "tweaks_fit unit_size (length (xts_units C key buf unit_size base)) (unat base)"
    using assms by (simp only: length_xts_units)
  ultimately show ?thesis
    using assms by (simp only: xts_decrypt_area_value) (simp add: xts_cipher_def)
qed

section \<open>One unit of an encrypted payload\<close>

lemma on_chunks_nth:
  assumes len: "\<And>i c. length (f i c) = length c" and n: "0 < n" and u: "u * n < length xs"
  shows "take n (drop (u * n) (on_chunks f n k xs)) = f (k + u) (take n (drop (u * n) xs))"
  using u
proof (induction u arbitrary: k xs)
  case 0
  then have "xs \<noteq> []" by auto
  then show ?case
    using n len [of k "take n xs"] by (cases "length xs \<le> n") (simp_all add: on_chunks_unfold)
next
  case (Suc u)
  then have ne: "xs \<noteq> []" and "u * n < length (drop n xs)" and "n \<le> length xs" by auto
  then have "take n (drop (u * n) (on_chunks f n (Suc k) (drop n xs))) =
      f (Suc k + u) (take n (drop (u * n) (drop n xs)))"
    by (intro Suc.IH)
  moreover have "length (f k (take n xs)) = n" using \<open>n \<le> length xs\<close> by (simp add: len)
  ultimately show ?case
    using ne n by (simp add: on_chunks_unfold add.commute)
qed

text \<open>A payload area that ends the container, encrypted in whole units, decrypts to its plaintext.\<close>

lemma plaintext_encrypted:
  fixes p :: "'r DecryptedPayload"
  defines "n \<equiv> dp_sector_size p"
  assumes C: "crypto_ok C" "xts_inverse C" and n: "16 \<le> n" "n dvd length plain"
    and key: "length (dp_master_key p) = 64"
    and img: "img = pre @ xts_units C (dp_master_key p) plain n (dp_iv_tweak p)"
    and pre: "length pre = unat (dp_payload_offset p)" and total: "unat (dp_total_size p) = length img"
  shows "plaintext C p img = plain"
proof (rule nth_equalityI)
  have enc: "length (xts_units C (dp_master_key p) plain n (dp_iv_tweak p)) = length plain"
    using C by (simp add: length_xts_units)
  then have size: "unat (payload_size p) = length plain"
    using total pre by (simp add: payload_size_def unat_sat_sub img)
  then show len: "length (plaintext C p img) = length plain" by simp
  fix i assume "i < length (plaintext C p img)"
  then have i: "i < length plain" using len by simp
  let ?u = "i div n" and ?K = "encrypt_sector C Aes256 (take 32 (dp_master_key p)) (drop 32 (dp_master_key p))"
  let ?chunk = "take n (drop (?u * n) plain)"
  have "?u * n \<le> i" by simp
  with i have un: "?u * n < length plain" by linarith
  have "?u < length plain div n" using i n by (simp add: less_mult_imp_div_less)
  then have "Suc ?u * n \<le> length plain div n * n" by (intro mult_le_mono1) simp
  also have "\<dots> = length plain" using n by simp
  finally have chunk: "length ?chunk = n" by simp
  have "take n (drop (?u * n) (xts_units C (dp_master_key p) plain n (dp_iv_tweak p))) =
      unit_ref ?K (unat (dp_iv_tweak p)) (unit_step n) (0 + ?u) ?chunk"
    unfolding xts_units_def units_ref_def
    using n un C by (intro on_chunks_nth) (auto simp: unit_ref_def crypto_okD)
  then have "unit_cipher p img ?u =
      ?K (to_le_bytes 16 (of_nat (unat (dp_iv_tweak p) + ?u * unit_step n) :: u128)) ?chunk"
    using pre chunk n by (simp add: unit_cipher_def Let_def img unit_ref_def n_def [symmetric] crypto_okD [OF C(1)])
  then have "unit_plain C p img ?u = ?chunk"
    using C(2) key chunk n by (simp add: unit_plain_def xts_cipher_def xts_inverse_def n_def)
  then show "plaintext C p img ! i = plain ! i"
    using i size n less_imp_le [OF un] by (simp add: plaintext_def plain_byte_def n_def [symmetric])
qed

section \<open>LUKS1 containers\<close>

text \<open>
  The image that \<open>build_luks1\<close> assembles, for any header: the header, the split and encrypted master
  key at the offset of the first keyslot, and the encrypted payload at the payload offset, with
  zeros between them.  The stripes fill whole sectors.
\<close>

definition key_area :: "crypto_api \<Rightarrow> hash_alg \<Rightarrow> bytes \<Rightarrow> usize \<Rightarrow> bytes \<Rightarrow> u8 \<Rightarrow> bytes res" where
  "key_area C D master n slot_key filler =
     bindR (af_split C D master 64 n filler) (\<lambda>material.
     xts_encrypt C slot_key material 512 0)"

definition assemble1 :: "Luks1Header \<Rightarrow> bytes \<Rightarrow> Keyslot \<Rightarrow> bytes \<Rightarrow> bytes" where
  "assemble1 h area slot payload =
     (let km_byte = unat (key_material_offset slot) * 512;
          payload_byte = unat (payload_offset h) * 512
      in encode_luks1 h @ replicate (km_byte - LUKS1_PHDR_LEN) 0 @ area @
         replicate (payload_byte - km_byte - length area) 0 @ payload)"

definition luks1_image ::
  "crypto_api \<Rightarrow> hash_alg \<Rightarrow> Luks1Header \<Rightarrow> Keyslot \<Rightarrow> bytes \<Rightarrow> bytes \<Rightarrow> u8 \<Rightarrow> bytes \<Rightarrow> bytes res" where
  "luks1_image C D h slot master passphrase filler plain =
     (let slot_key = pbkdf2_hmac C D passphrase (salt slot) (iterations slot) 64 in
      bindR (key_area C D master (unat (stripes slot)) slot_key filler) (\<lambda>area.
      bindR (xts_encrypt C master plain 512 0) (\<lambda>payload.
      Ok (assemble1 h area slot payload))))"

text \<open>A header for such an image: AES-256-XTS, the slot first among the active ones, no overlap.\<close>

definition format_ok :: "crypto_api \<Rightarrow> hash_alg \<Rightarrow> Luks1Header \<Rightarrow> Keyslot \<Rightarrow> bytes \<Rightarrow> bool" where
  "format_ok C D h slot master \<longleftrightarrow>
     header1_shape h \<and> header1_text_ok h \<and> version h = 1 \<and> cipher_mode h = ''xts-plain64'' \<and>
     hash_of_name (hash_spec h) = Some D \<and> key_bytes h = 64 \<and> length master = 64 \<and>
     (\<exists>rest. active_keyslots h = slot # rest) \<and> 0 < iterations slot \<and> 0 < mk_digest_iter h \<and>
     mk_digest h = pbkdf2_hmac C D master (mk_digest_salt h) (mk_digest_iter h) 20 \<and>
     0 < unat (stripes slot) \<and> 8 dvd unat (stripes slot) \<and> unat (stripes slot) \<le> MAX_STRIPES \<and>
     592 \<le> unat (key_material_offset slot) * 512 \<and>
     unat (key_material_offset slot) * 512 + (64 * unat (stripes slot) + 511) \<le> unat (payload_offset h) * 512"

lemma length_encode_luks1:
  assumes "header1_shape h" and "header1_text_ok h"
  shows "length (encode_luks1 h) = 592"
proof -
  have "length (keyslots h) = 8" "list_all slot_shape (keyslots h)"
    "length (mk_digest h) = 20" "length (mk_digest_salt h) = 32"
    using assms(1) by (simp_all add: header1_shape_def header1_consts)
  with assms(2) show ?thesis
    by (simp add: encode_luks1_def header1_text_ok_def str.encode_length length_encode_slots)
qed

lemma key_area_value:
  assumes C: "crypto_ok C" "xts_inverse C" and m: "length master = 64" and key: "length slot_key = 64"
    and s: "0 < n" "n \<le> MAX_STRIPES" "8 dvd n" and h: "hash_of_name hspec = Some D"
  shows "\<exists>area len. key_area C D master n slot_key filler = Ok area \<and>
     material_len 64 n = Ok len \<and> length area = len \<and> len < 64 * n + 512 \<and>
     (\<forall>pre post. area_candidate C ''xts-plain64'' hspec slot_key 64 n (pre @ area @ post) (length pre) = Some master)"
proof -
  have "64 \<le> MAX_KEY_BYTES" by (simp add: MAX_KEY_BYTES_def)
  then obtain len where len: "material_len 64 n = Ok len" "len \<le> 2 ^ 30" "area_fits 64 n"
    by (rule material_len_cases [of 64 n]) (use s(2) in auto)
  obtain mat where mat: "af_split C D master 64 n filler = Ok mat" "length mat = n * 64"
    "\<And>rest. merge C hspec (mat @ rest) 64 n = Ok master"
    using merge_af_split [OF C(1) _ _ s(1,2) h, of 64 master filler] m s(2) by (auto simp: MAX_STRIPES_def)
  have bounds: "len mod 512 = 0" "64 * n \<le> len" "len < 64 * n + 512" using material_len_Ok [OF len(1)] by auto
  obtain k where k: "n = 8 * k" using s(3) by (rule dvdE)
  obtain j where j: "len = 512 * j" using bounds(1) by auto
  have "j = k" using bounds(2,3) unfolding k j by linarith
  then have "len = 64 * n" using j k by simp
  define buf where "buf = mat"
  have buf: "length buf = len" using mat(2) \<open>len = 64 * n\<close> by (simp add: buf_def)
  have dv: "512 dvd length buf" using bounds buf by auto
  define area where "area = xts_units C slot_key buf 512 0"
  have "length area = len" unfolding area_def using C dv buf by (simp add: length_xts_units)
  moreover have "xts_decrypt_area C ''xts-plain64'' slot_key area 512 0 = Ok buf"
    unfolding area_def using C dv key len(2) buf
    by (intro xts_decrypt_units) (auto simp: tweaks_fit_def unit_step_def)
  moreover have "merge C hspec buf 64 n = Ok master" unfolding buf_def using mat(3) [of "[]"] by simp
  ultimately have "area_candidate C ''xts-plain64'' hspec slot_key 64 n (pre @ area @ post) (length pre) = Some master" for pre post
    by (simp add: area_candidate_def len(1) Let_def)
  moreover have "key_area C D master n slot_key filler = Ok area"
    using dv key len(2) buf
    by (simp add: key_area_def mat(1) area_def buf_def [symmetric] xts_encrypt_value tweaks_fit_def unit_step_def)
  ultimately show ?thesis using len(1) bounds(3) \<open>length area = len\<close> by blast
qed

lemma max_one: "0 < (n :: u32) \<Longrightarrow> max n 1 = n"
  by (auto simp: max_def word_le_nat_alt word_less_nat_alt word_unat_eq_iff)

text \<open>The parts of an assembled image.\<close>

lemma luks1_image_parts:
  assumes C: "crypto_ok C" "xts_inverse C" and f: "format_ok C D h slot master" and enc: "xts_encrypt C master plain 512 0 = Ok ct"
  shows "\<exists>img pre. luks1_image C D h slot master pw filler plain = Ok img \<and>
     Header1.parse (take 592 img) = Ok h \<and> 592 \<le> length img \<and> take 592 img = encode_luks1 h \<and>
     open_slot1 C h img pw slot = Some master \<and>
     img = pre @ xts_units C master plain 512 0 \<and> length pre = unat (payload_offset h) * 512"
proof -
  note f' = f [unfolded format_ok_def]
  let ?km = "unat (key_material_offset slot) * 512" and ?po = "unat (payload_offset h) * 512"
  let ?key = "pbkdf2_hmac C D pw (salt slot) (iterations slot) 64"
  have key: "length ?key = 64" by (simp add: crypto_okD [OF C(1)])
  have len: "length (encode_luks1 h) = 592" using f' by (intro length_encode_luks1) auto
  obtain area alen where area: "key_area C D master (unat (stripes slot)) ?key filler = Ok area"
    "length area = alen" "alen < 64 * unat (stripes slot) + 512"
    "\<And>pre post. area_candidate C ''xts-plain64'' (hash_spec h) ?key 64 (unat (stripes slot)) (pre @ area @ post) (length pre) = Some master"
    using key_area_value [OF C _ key, of master "unat (stripes slot)" "hash_spec h" D filler] f' by auto
  define front where "front = encode_luks1 h @ replicate (?km - 592) 0"
  define post where "post = replicate (?po - ?km - alen) 0 @ xts_units C master plain 512 0"
  define img where "img = front @ area @ post"
  have front: "length front = ?km" using f' len by (simp add: front_def)
  have img: "luks1_image C D h slot master pw filler plain = Ok img"
    using area(1,2) enc xts_encrypt_Ok [OF enc]
    by (simp add: luks1_image_def assemble1_def Let_def img_def front_def post_def LUKS1_PHDR_LEN_def)
  have t: "take 592 img = encode_luks1 h" "592 \<le> length img" using len by (simp_all add: img_def front_def)
  then have "Header1.parse (take 592 img) = Ok h" using parse_encode [of h "[]"] f' by simp
  moreover have "open_slot1 C h img pw slot = Some master"
  proof -
    have it: "max (iterations slot) 1 = iterations slot" "max (mk_digest_iter h) 1 = mk_digest_iter h"
      using f' by (simp_all add: max_one)
    show ?thesis
      using f' area(4) [of front post] front by (simp add: open_slot1_def Let_def it img_def)
  qed
  moreover have "img = (front @ area @ replicate (?po - ?km - alen) 0) @ xts_units C master plain 512 0"
    by (simp add: img_def post_def)
  moreover have "length (front @ area @ replicate (?po - ?km - alen) 0) = ?po"
    using front area(2,3) f' by simp
  ultimately show ?thesis using img t by blast
qed

lemma luks1_image_built:
  assumes "crypto_ok C" "xts_inverse C" and "format_ok C D h slot master"
    and "luks1_image C D h slot master pw filler plain = Ok img"
  shows "\<exists>pre. Header1.parse (take 592 img) = Ok h \<and> 592 \<le> length img \<and> take 592 img = encode_luks1 h \<and>
     open_slot1 C h img pw slot = Some master \<and>
     img = pre @ xts_units C master plain 512 0 \<and> length pre = unat (payload_offset h) * 512"
proof -
  obtain ct where "xts_encrypt C master plain 512 0 = Ok ct"
    using assms(4) by (auto simp: luks1_image_def Let_def outcome_simps)
  from luks1_image_parts [OF assms(1-3) this, of pw filler] assms(4) show ?thesis by auto
qed

text \<open>A plaintext of whole sectors can be encrypted.\<close>

lemma xts_encrypt_sectors:
  assumes "length key = 64" and "512 dvd length plain" and "length plain \<le> usize_MAX"
  shows "xts_encrypt C key plain 512 0 = Ok (xts_units C key plain 512 0)"
  using assms by (intro xts_encrypt_value) (auto simp: tweaks_fit_def unit_step_def)

lemma luks1_image_unlocks:
  assumes C: "crypto_ok C" "xts_inverse C" and f: "format_ok C D h slot master"
    and plain: "512 dvd length plain" and img: "luks1_image C D h slot master pw filler plain = Ok img"
    and fits: "length img \<le> isize_MAX"
  shows "version_of img = 1" and "8 \<le> length img"
    and "unlock1_spec C img pw = Ok (payload1 h master (of_nat (length img)) ())"
    and "payload_ok (payload1 h master (of_nat (length img)) r)"
    and "plaintext C (payload1 h master (of_nat (length img)) r) img = plain"
proof -
  let ?p = "payload1 h master (of_nat (length img)) r"
  note f' = f [unfolded format_ok_def]
  obtain pre where parts: "Header1.parse (take 592 img) = Ok h" "592 \<le> length img" "take 592 img = encode_luks1 h"
    "open_slot1 C h img pw slot = Some master"
    "img = pre @ xts_units C master plain 512 0" "length pre = unat (payload_offset h) * 512"
    using luks1_image_built [OF C f img] by blast
  show "8 \<le> length img" using parts(2) by simp
  have "drop 6 (take 8 (take 592 img)) = to_be_bytes 2 (version h)" unfolding parts(3) by (simp add: encode_luks1_def)
  moreover have "take 2 (drop 6 img) = drop 6 (take 8 (take 592 img))" by (simp add: drop_take)
  ultimately show "version_of img = 1" using f' by (simp add: version_of_def)
  obtain rest where act: "active_keyslots h = slot # rest" using f' by auto
  show "unlock1_spec C img pw = Ok (payload1 h master (of_nat (length img)) ())"
    using parts(1,2,4) act by (simp add: unlock1_spec_def)
  show "payload_ok ?p" using f' by (simp add: payload_ok_def payload1_def xts_cipher_def)
  have "plaintext C ?p (pre @ xts_units C (dp_master_key ?p) plain (dp_sector_size ?p) (dp_iv_tweak ?p)) = plain"
    using C f' plain parts(6) fits sector_product(2) [of "payload_offset h"] parts(5) [symmetric]
    by (intro plaintext_encrypted [OF C]) (auto simp: payload1_def unat_of_nat)
  then show "plaintext C ?p img = plain" using parts(5) by (simp add: payload1_def)
qed

text \<open>A calm run on such an image.\<close>

lemma luks1_image_run:
  assumes "crypto_ok C" and "xts_inverse C" and "format_ok C D h slot master" and "512 dvd length plain"
    and "luks1_image C D h slot master pw filler plain = Ok img" and "length img \<le> isize_MAX"
    and "supported1 h" and "still w" and "0 < budget" and "cur_data (rd_state w) = img"
  shows "\<exists>p w'. unlock_with_passphrase_within C J cursor_reader pw budget w = Some (Ok p, w') \<and>
     p = payload1 h master (of_nat (length img)) (dp_reader p) \<and> cur_data (dp_reader p) = img \<and>
     payload_ok p \<and> plaintext C p img = plain"
proof -
  let ?q = "payload1 h master (of_nat (length img)) ()"
  note built = luks1_image_unlocks [OF assms(1-6)]
  obtain pre where parts: "Header1.parse (take 592 img) = Ok h"
    using luks1_image_built [OF assms(1-3,5)] by blast
  have spec: "unlock_spec C J img pw = Ok ?q" using built(1-3) by (simp add: unlock_spec_def)
  have sup: "image_supported1 img" using assms(7) parts by (simp add: image_supported1_def)
  obtain x w' where run: "unlock_with_passphrase_within C J cursor_reader pw budget w = Some (x, w')"
    "agrees True (Ok ?q) (map_outcome forget id x)" "\<forall>p. x = Ok p \<longrightarrow> cur_data (dp_reader p) = img"
    using cursor.unlock_within_spec [OF assms(1), of w J pw budget] assms(6,8-10) built(1) spec sup
    by (auto simp: cursor.entry_ok_def cursor.calm_def cursor.world_step_def cursor.same_source_def)
  then obtain p where p: "x = Ok p" "forget p = ?q" "cur_data (dp_reader p) = img" by (cases x) auto
  then have eq: "p = payload1 h master (of_nat (length img)) (dp_reader p)"
    by (cases p) (simp add: forget_def payload1_def)
  have "plaintext C p img = plain" "payload_ok p" using built(4,5) [of "dp_reader p"] eq by simp_all
  with run(1) p eq show ?thesis by blast
qed

text \<open>A payload whose plaintext is known.\<close>

lemma read_at_of_plaintext:
  assumes "crypto_ok C" and "payload_ok p" and "length img \<le> isize_MAX" and "cur_data (dp_reader p) = img"
    and "plaintext C p img = plain" and "unat offset + length buf \<le> length plain"
  shows "unat (payload_size p) = length plain \<and> (\<exists>c. read_at C cursor_reader offset buf p =
     Some (Ok (take (length buf) (drop (unat offset) plain)), p\<lparr>dp_reader := c\<rparr>))"
proof -
  have size: "unat (payload_size p) = length plain" using cursor.length_plaintext [of C p img] assms(5) by simp
  then have range: "unat (dp_payload_offset p) + unat offset + length buf \<le> u64_MAX"
    using assms(6) payload_in_range [of p] by linarith
  have "map (plain_byte C p img) [unat offset..<unat offset + length buf] = take (length buf) (drop (unat offset) plain)"
    using cursor.plaintext_slice [of "unat offset" "length buf" p C img] assms(5,6) size by simp
  with cursor.read_at_spec [OF assms(1,2) _ range] assms(3,4) size show ?thesis by auto
qed

section \<open>The fixture of the tests\<close>

definition PASS :: bytes where
  "PASS = bytes_of_string ''luks-TEST''"

definition L1_KM_OFF :: u32 where "L1_KM_OFF = 2"
definition L1_PAYLOAD_OFF :: u32 where "L1_PAYLOAD_OFF = 4"
definition L1_STRIPES :: u32 where "L1_STRIPES = 8"
definition L1_KEY_BYTES :: u32 where "L1_KEY_BYTES = 64"
definition L1_ITERS :: u32 where "L1_ITERS = 5"
definition L1_MK_ITER :: u32 where "L1_MK_ITER = 7"

lemmas L1_defs = L1_KM_OFF_def L1_PAYLOAD_OFF_def L1_STRIPES_def L1_KEY_BYTES_def L1_ITERS_def L1_MK_ITER_def

definition pbkdf2_sha256 :: "crypto_api \<Rightarrow> bytes \<Rightarrow> bytes \<Rightarrow> u32 \<Rightarrow> usize \<Rightarrow> bytes" where
  "pbkdf2_sha256 C pw slt iters len = pbkdf2_hmac C Sha256 pw slt iters len"

definition known_plain :: "usize \<Rightarrow> bytes" where
  "known_plain len = map (\<lambda>i. of_nat i XOR 0x3c) [0..<len]"

lemma length_known_plain [simp, len_simps]: "length (known_plain len) = len"
  by (simp add: known_plain_def)

text \<open>The fields that \<open>build_luks1\<close> writes into the header; all others stay zero.\<close>

definition build_slot0 :: Keyslot where
  "build_slot0 = \<lparr>active = KEY_ENABLED, iterations = L1_ITERS, salt = replicate 32 0x11,
     key_material_offset = L1_KM_OFF, stripes = L1_STRIPES\<rparr>"

definition build_slot :: Keyslot where
  "build_slot = \<lparr>active = KEY_DISABLED, iterations = 0, salt = replicate 32 0,
     key_material_offset = 0, stripes = 0\<rparr>"

definition build_header :: "crypto_api \<Rightarrow> bytes \<Rightarrow> Luks1Header" where
  "build_header C master =
     \<lparr>version = 1, cipher_name = ''aes'', cipher_mode = ''xts-plain64'', hash_spec = ''sha256'',
      payload_offset = L1_PAYLOAD_OFF, key_bytes = L1_KEY_BYTES,
      mk_digest = pbkdf2_sha256 C master (replicate 32 0x22) L1_MK_ITER 20, mk_digest_salt = replicate 32 0x22,
      mk_digest_iter = L1_MK_ITER, uuid = ''b22690e1-a392-4ecc-83b1-c1cf21200116'',
      keyslots = build_slot0 # replicate 7 build_slot\<rparr>"

definition build_luks1 :: "crypto_api \<Rightarrow> bytes \<Rightarrow> (bytes \<times> bytes) res" where
  "build_luks1 C master =
     (let plain = known_plain (3 * 512) in
      bindR (luks1_image C Sha256 (build_header C master) build_slot0 master PASS 0x5a plain) (\<lambda>img.
      Ok (img, plain)))"

lemma disabled_not_enabled: "KEY_DISABLED \<noteq> KEY_ENABLED"
  by (simp add: KEY_DISABLED_def KEY_ENABLED_def)

lemma build_format_ok:
  assumes "crypto_ok C" and "length master = 64"
  shows "format_ok C Sha256 (build_header C master) build_slot0 master"
proof -
  have "header1_shape (build_header C master)"
    using assms by (simp add: header1_shape_def build_header_def header1_consts list_all_iff slot_shape_def build_slot0_def
        build_slot_def pbkdf2_sha256_def crypto_okD)
  moreover have "header1_text_ok (build_header C master)"
    by (simp add: header1_text_ok_def build_header_def text_fits_def is_ascii_def)
  moreover have "active_keyslots (build_header C master) = [build_slot0]"
    using disabled_not_enabled by (simp add: active_keyslots_def build_header_def is_active_def build_slot0_def build_slot_def)
  ultimately show ?thesis
    using assms
    by (simp add: format_ok_def build_header_def hash_of_name_def build_slot0_def L1_defs MAX_STRIPES_def
        pbkdf2_sha256_def)
qed

text \<open>The fixture under the sample cryptography.\<close>

definition sample_world :: "bytes \<Rightarrow> cursor world" where
  "sample_world img = \<lparr>reading = (\<lambda>n. 0), tick = 0, rd_state = cursor_new img\<rparr>"

lemma sample_world_simps [simp]:
  "cur_data (rd_state (sample_world img)) = img" "still (sample_world img)" "reading (sample_world img) n = 0"
  by (simp_all add: sample_world_def cursor_new_def still_def)

lemma build_supported: "supported1 (build_header C master)"
  using disabled_not_enabled
  by (simp add: supported1_def build_header_def hash_of_name_def L1_defs active_keyslots_def is_active_def
      build_slot0_def build_slot_def MAX_STRIPES_def)

lemma build_luks1_image:
  assumes "crypto_ok C" and "xts_inverse C" and "length master = 64"
  shows "\<exists>img. build_luks1 C master = Ok (img, known_plain 1536) \<and> length img = 3584 \<and>
     luks1_image C Sha256 (build_header C master) build_slot0 master PASS 0x5a (known_plain 1536) = Ok img"
proof -
  obtain img pre where img: "luks1_image C Sha256 (build_header C master) build_slot0 master PASS 0x5a (known_plain 1536) = Ok img"
    "img = pre @ xts_units C master (known_plain 1536) 512 0" "length pre = unat (payload_offset (build_header C master)) * 512"
    using luks1_image_parts [OF assms(1,2) build_format_ok [OF assms(1,3)] xts_encrypt_sectors [OF assms(3)], of "known_plain 1536" PASS "0x5a"]
    by auto
  moreover have "length (xts_units C master (known_plain 1536) 512 0) = 1536"
    using assms(1) by (simp add: length_xts_units)
  ultimately show ?thesis by (simp add: build_luks1_def build_header_def L1_defs Let_def)
qed

lemma sample_run1:
  obtains img p w' where "build_luks1 sample_crypto (replicate 64 9) = Ok (img, known_plain 1536)"
    "length img = 3584" "version_of img = 1" "Header1.parse (take 592 img) = Ok (build_header sample_crypto (replicate 64 9))"
    "unlock_with_passphrase_within sample_crypto J cursor_reader PASS 5 (sample_world img) = Some (Ok p, w')"
proof -
  let ?m = "replicate 64 9 :: bytes"
  have f: "format_ok sample_crypto Sha256 (build_header sample_crypto ?m) build_slot0 ?m"
    by (rule build_format_ok) simp_all
  obtain img where img: "build_luks1 sample_crypto ?m = Ok (img, known_plain 1536)" "length img = 3584"
    "luks1_image sample_crypto Sha256 (build_header sample_crypto ?m) build_slot0 ?m PASS 0x5a (known_plain 1536) = Ok img"
    using build_luks1_image [OF sample_crypto_ok, of ?m] by auto
  have d: "512 dvd length (known_plain 1536)" by (simp add: known_plain_def)
  have "version_of img = 1" using img(2) by (intro luks1_image_unlocks(1) [OF sample_crypto_ok f d img(3)]) simp_all
  moreover have "Header1.parse (take 592 img) = Ok (build_header sample_crypto ?m)"
    using luks1_image_built [OF sample_crypto_ok f img(3)] by blast
  moreover obtain p w' where "unlock_with_passphrase_within sample_crypto J cursor_reader PASS 5 (sample_world img) = Some (Ok p, w')"
    using luks1_image_run [OF sample_crypto_ok f d img(3) _ build_supported, of "sample_world img" 5 J] img(2) by auto
  ultimately show thesis using img that by blast
qed

end
