(* ===== verification/Fixtures2.thy ===== *)
theory Fixtures2
  imports Fixtures
begin

text \<open>
  The LUKS2 containers of the test module of \<^verbatim>\<open>core/src/volume.rs\<close>, and that a container of this
  form unlocks to the master key and the plaintext it was built from.
\<close>

section \<open>LUKS2 containers\<close>

text \<open>
  The image that \<open>build_luks2\<close> assembles, for any keyslot and segment: the header area with its JSON
  text, the split and encrypted master key at the offset of the keyslot area, and the payload,
  encrypted in sectors of the segment, at the offset of the segment.
\<close>

definition luks2_image ::
  "crypto_api \<Rightarrow> hash_alg \<Rightarrow> usize \<Rightarrow> bytes \<Rightarrow> Luks2Keyslot \<Rightarrow> Luks2Segment \<Rightarrow> bytes \<Rightarrow> bytes \<Rightarrow> u8 \<Rightarrow> bytes \<Rightarrow> bytes res" where
  "luks2_image C D n json slot seg master slot_key filler plain =
     bindR (key_area C D master (unat (af_stripes slot)) slot_key filler) (\<lambda>area.
     bindR (xts_encrypt C master plain (segment_sector_size seg) (iv_tweak seg)) (\<lambda>payload.
     let a = unat (area_offset slot); s = unat (segment_offset seg)
     in Ok (luks2_area n json @ replicate (a - (LUKS2_BIN_HDR_LEN + n)) 0 @ area @
            replicate (s - a - length area) 0 @ payload)))"

text \<open>
  A header for such an image: the keyslot is the first, its KDF yields the slot key, a digest
  accepts the master key, the cipher is AES-256-XTS, and the areas do not overlap.
\<close>

definition format2_ok ::
  "crypto_api \<Rightarrow> hash_alg \<Rightarrow> usize \<Rightarrow> Luks2Header \<Rightarrow> Luks2Keyslot \<Rightarrow> Luks2Segment \<Rightarrow> bytes \<Rightarrow> bytes \<Rightarrow> bytes \<Rightarrow> bool" where
  "format2_ok C D n h slot seg master slot_key pw \<longleftrightarrow>
     (\<exists>rest. keyslots2 h = slot # rest) \<and> crypt_segment h = Some seg \<and>
     kdf_key C (kdf slot) pw 64 = Some slot_key \<and> key_size slot = 64 \<and> length master = 64 \<and>
     snd (split_encryption (area_encryption slot)) = ''xts-plain64'' \<and>
     hash_of_name (af_hash slot) = Some D \<and> 0 < unat (af_stripes slot) \<and> 8 dvd unat (af_stripes slot) \<and>
     unat (af_stripes slot) \<le> MAX_STRIPES \<and>
     list_ex (digest_accepts C (slot_id slot) master) (digests h) \<and>
     snd (split_encryption (encryption seg)) = ''xts-plain64'' \<and>
     512 \<le> segment_sector_size seg \<and> segment_sector_size seg \<le> isize_MAX \<and> unat (iv_tweak seg) \<le> u64_MAX \<and>
     4096 + n \<le> unat (area_offset slot) \<and>
     unat (area_offset slot) + (64 * unat (af_stripes slot) + 511) \<le> unat (segment_offset seg)"

lemma luks2_image_parts:
  assumes C: "crypto_ok C" "xts_inverse C" and f: "format2_ok C D n h slot seg master slot_key pw"
    and enc: "xts_encrypt C master plain (segment_sector_size seg) (iv_tweak seg) = Ok ct"
  shows "\<exists>img rest pre. luks2_image C D n json slot seg master slot_key filler plain = Ok img \<and>
     img = luks2_area n json @ rest \<and> (length (luks2_area n json) = 4096 + n \<longrightarrow>
     open_slot2 C h img pw slot = Some master \<and>
     img = pre @ xts_units C master plain (segment_sector_size seg) (iv_tweak seg) \<and>
     length pre = unat (segment_offset seg))"
proof -
  note f' = f [unfolded format2_ok_def]
  let ?a = "unat (area_offset slot)" and ?s = "unat (segment_offset seg)" and ?st = "unat (af_stripes slot)"
  have key: "length slot_key = 64" using f' length_kdf_key [OF C(1)] by blast
  obtain area alen where area: "key_area C D master ?st slot_key filler = Ok area"
    "length area = alen" "alen < 64 * ?st + 512"
    "\<And>pre post. area_candidate C ''xts-plain64'' (af_hash slot) slot_key 64 ?st (pre @ area @ post) (length pre) = Some master"
    using key_area_value [OF C _ key, of master ?st "af_hash slot" D filler] f' by auto
  define front where "front = luks2_area n json @ replicate (?a - (4096 + n)) 0"
  define data where "data = xts_units C master plain (segment_sector_size seg) (iv_tweak seg)"
  define img where "img = front @ area @ replicate (?s - ?a - alen) 0 @ data"
  have img: "luks2_image C D n json slot seg master slot_key filler plain = Ok img"
    using area(1,2) enc xts_encrypt_Ok [OF enc]
    by (simp add: luks2_image_def Let_def img_def front_def data_def LUKS2_BIN_HDR_LEN_def)
  have "open_slot2 C h img pw slot = Some master \<and> length (front @ area @ replicate (?s - ?a - alen) 0) = ?s"
    if "length (luks2_area n json) = 4096 + n"
  proof -
    have front: "length front = ?a" using f' that by (simp add: front_def)
    show ?thesis
      using f' area(2,3) area(4) [of front "replicate (?s - ?a - alen) 0 @ data"] front
      by (simp add: open_slot2_def img_def)
  qed
  moreover have "img = luks2_area n json @ (replicate (?a - (4096 + n)) 0 @ area @ replicate (?s - ?a - alen) 0 @ data)"
    "img = (front @ area @ replicate (?s - ?a - alen) 0) @ data"
    by (simp_all add: img_def front_def)
  ultimately show ?thesis using img unfolding data_def by blast
qed

lemma luks2_area_head:
  assumes "json_text_ok n json" and "n \<le> isize_MAX" and "img = luks2_area n json @ rest"
  shows "version_of img = 2" and "4096 + n \<le> length img" and "hdr_size_of img = 4096 + n" and "hdr_area_of img = luks2_area n json"
proof -
  note a = luks2_area_parts [OF assms(1,2)]
  have cut: "take 2 (drop 6 img) = take 2 (drop 6 (luks2_area n json))"
    "take 8 (drop 8 img) = take 8 (drop 8 (luks2_area n json))"
    using a(1) by (simp_all add: assms(3))
  show "version_of img = 2" using a(3) cut by (simp add: version_of_def)
  show len: "4096 + n \<le> length img" using a(1) by (simp add: assms(3))
  show size: "hdr_size_of img = 4096 + n"
    using assms(2) by (simp add: hdr_size_of_def cut a(4) unat_of_nat max_def del: of_nat_add)
  show "hdr_area_of img = luks2_area n json"
    using a(1) len unfolding hdr_area_of_def size by (simp add: assms(3))
qed

lemma luks2_image_unlocks:
  assumes C: "crypto_ok C" "xts_inverse C" and f: "format2_ok C D n h slot seg master slot_key pw"
    and j: "json_text_ok n json" "n \<le> isize_MAX" "from_slice J json = Some root" "header2_of J (of_nat (4096 + n)) root = h"
    and plain: "segment_sector_size seg dvd length plain"
    and img: "luks2_image C D n json slot seg master slot_key filler plain = Ok img"
    and fits: "length img \<le> isize_MAX"
  shows "version_of img = 2" and "8 \<le> length img" and "hdr_size_of img \<le> isize_MAX" and "parse2 J (hdr_area_of img) = Ok h"
    and "unlock2_spec C J img pw = Ok (payload2 seg master (of_nat (length img)) ())"
    and "payload_ok (payload2 seg master (of_nat (length img)) r)"
    and "plaintext C (payload2 seg master (of_nat (length img)) r) img = plain"
proof -
  note f' = f [unfolded format2_ok_def] and a = luks2_area_parts [OF j(1,2)]
  let ?p = "payload2 seg master (of_nat (length img)) r" and ?hdr = "luks2_area n json"
  obtain ct where enc: "xts_encrypt C master plain (segment_sector_size seg) (iv_tweak seg) = Ok ct"
    using img by (auto simp: luks2_image_def outcome_simps)
  obtain rest pre where parts: "img = ?hdr @ rest" "open_slot2 C h img pw slot = Some master"
    "img = pre @ xts_units C master plain (segment_sector_size seg) (iv_tweak seg)" "length pre = unat (segment_offset seg)"
    using luks2_image_parts [OF C f enc, of json filler, unfolded img outcome.inject] a(1) by blast
  note head = luks2_area_head [OF j(1,2) parts(1)]
  show "8 \<le> length img" "version_of img = 2" using head by simp_all
  show "hdr_size_of img \<le> isize_MAX" using head(2,3) fits by linarith
  have "hdr_area_of img = ?hdr" by (rule head)
  then show parse: "parse2 J (hdr_area_of img) = Ok h" using parse2_area [OF j(1-3)] j(4) by simp
  obtain ks where "keyslots2 h = slot # ks" using f' by auto
  then show "unlock2_spec C J img pw = Ok (payload2 seg master (of_nat (length img)) ())"
    using parse parts(2) head(2) f' by (simp add: unlock2_spec_def)
  show "payload_ok ?p" using f' by (auto simp: payload_ok_def payload2_def xts_cipher_def)
  have "plaintext C ?p (pre @ xts_units C (dp_master_key ?p) plain (dp_sector_size ?p) (dp_iv_tweak ?p)) = plain"
    using C f' plain parts(4) fits parts(3) [symmetric]
    by (intro plaintext_encrypted [OF C]) (auto simp: payload2_def unat_of_nat max_def)
  moreover have "max (segment_sector_size seg) 512 = segment_sector_size seg" using f' by simp
  ultimately show "plaintext C ?p img = plain" using parts(3) by (simp add: payload2_def)
qed

lemma luks2_image_run:
  assumes "crypto_ok C" and "xts_inverse C" and "format2_ok C D n h slot seg master slot_key pw"
    and "json_text_ok n json" and "n \<le> isize_MAX" and "from_slice J json = Some root"
    and "header2_of J (of_nat (4096 + n)) root = h" and "segment_sector_size seg dvd length plain"
    and "luks2_image C D n json slot seg master slot_key filler plain = Ok img" and "length img \<le> isize_MAX"
    and "supported2 C h pw" and "still w" and "0 < budget" and "cur_data (rd_state w) = img"
  shows "\<exists>p w'. unlock_with_passphrase_within C J cursor_reader pw budget w = Some (Ok p, w') \<and>
     p = payload2 seg master (of_nat (length img)) (dp_reader p) \<and> cur_data (dp_reader p) = img \<and>
     payload_ok p \<and> plaintext C p img = plain"
proof -
  let ?q = "payload2 seg master (of_nat (length img)) ()"
  note built = luks2_image_unlocks [OF assms(1-10)]
  have spec: "unlock_spec C J img pw = Ok ?q" using built(1,2,5) by (simp add: unlock_spec_def)
  have sup: "image_supported2 C J img pw" using assms(11) built(4) by (simp add: image_supported2_def)
  obtain x w' where run: "unlock_with_passphrase_within C J cursor_reader pw budget w = Some (x, w')"
    "agrees True (Ok ?q) (map_outcome forget id x)" "\<forall>p. x = Ok p \<longrightarrow> cur_data (dp_reader p) = img"
    using cursor.unlock_within_spec [OF assms(1), of w J pw budget] assms(10,12-14) built(1,3) spec sup
    by (auto simp: cursor.entry_ok_def cursor.calm_def cursor.world_step_def cursor.same_source_def)
  then obtain p where p: "x = Ok p" "forget p = ?q" "cur_data (dp_reader p) = img" by (cases x) auto
  then have eq: "p = payload2 seg master (of_nat (length img)) (dp_reader p)"
    by (cases p) (simp add: forget_def payload2_def)
  have "plaintext C p img = plain" "payload_ok p" using built(6,7) [of "dp_reader p"] eq by simp_all
  with run(1) p eq show ?thesis by blast
qed

section \<open>The fixtures of the tests\<close>

definition L2_AREA_OFF :: u64 where "L2_AREA_OFF = 8192"
definition L2_SEG_OFF :: u64 where "L2_SEG_OFF = 12288"
definition L2_STRIPES :: usize where "L2_STRIPES = 8"
definition L2_DIG_ITER :: u32 where "L2_DIG_ITER = 5"

lemmas L2_defs = L2_AREA_OFF_def L2_SEG_OFF_def L2_STRIPES_def L2_DIG_ITER_def

text \<open>
  The text that \<open>build_luks2\<close> formats, from the text of the KDF and the encoder \<open>enc\<close> of the base64
  crate, and the image it assembles.
\<close>

definition build_luks2_text :: "(bytes \<Rightarrow> string) \<Rightarrow> bytes \<Rightarrow> bytes \<Rightarrow> string \<Rightarrow> usize \<Rightarrow> string" where
  \<open>build_luks2_text enc dig_salt dig kdf_text ssize =
     ''{"keyslots":{"0":{"key_size":64,'' @
     ''"af":{"type":"luks1","stripes":'' @ show_nat L2_STRIPES @ '',"hash":"sha256"},'' @
     ''"area":{"type":"raw","offset":"'' @ show_nat (unat L2_AREA_OFF) @
     ''","size":"512","encryption":"aes-xts-plain64","key_size":64},'' @
     ''"kdf":'' @ kdf_text @ ''}},'' @
     ''"segments":{"0":{"type":"crypt","offset":"'' @ show_nat (unat L2_SEG_OFF) @
     ''","size":"dynamic","iv_tweak":"0","encryption":"aes-xts-plain64","sector_size":'' @ show_nat ssize @ ''}},'' @
     ''"digests":{"0":{"type":"pbkdf2","keyslots":["0"],"segments":["0"],"hash":"sha256","iterations":'' @
     show_nat (unat L2_DIG_ITER) @ '',"salt":"'' @ enc dig_salt @ ''","digest":"'' @ enc dig @ ''"}}}''\<close>

definition build_luks2_volume ::
  "crypto_api \<Rightarrow> (bytes \<Rightarrow> string) \<Rightarrow> bytes \<Rightarrow> bytes \<Rightarrow> string \<Rightarrow> usize \<Rightarrow> (bytes \<times> bytes) res" where
  "build_luks2_volume C enc master slot_key kdf_text ssize =
     (let dig_salt = replicate 16 0x22;
          dig = pbkdf2_sha256 C master dig_salt L2_DIG_ITER 32
      in bindR (af_split C Sha256 master 64 L2_STRIPES 0x5a) (\<lambda>m.
         bindR (xts_encrypt C slot_key m 512 0) (\<lambda>material.
         let plain = known_plain ssize in
         bindR (xts_encrypt C master plain ssize 0) (\<lambda>payload.
         let json = bytes_of_string (build_luks2_text enc dig_salt dig kdf_text ssize)
         in if \<not> length json < 4096 then Panic ''assertion failed: json.len() < 4096''
            else Ok (luks2_area 4096 json @ material @
                     replicate (unat L2_SEG_OFF - unat L2_AREA_OFF - length material) 0 @ payload, plain)))))"

text \<open>\<open>build_luks2_json\<close>: any document, and no key material; a text beyond the image is a panic.\<close>

definition build_luks2_json :: "bytes \<Rightarrow> bytes res" where
  "build_luks2_json json =
     (if 12288 < length json then Panic ''range end index out of range''
      else Ok (take 4096 (luks2_area 4096 json) @ json @ replicate (12288 - length json) 0))"

text \<open>The keyslot, the segment and the header that the text describes.\<close>

definition build_slot2 :: "Luks2Kdf \<Rightarrow> Luks2Keyslot" where
  "build_slot2 k =
     \<lparr>slot_id = ''0'', key_size = 64, af_stripes = of_nat L2_STRIPES, af_hash = ''sha256'', area_offset = L2_AREA_OFF,
      area_size = 512, area_encryption = ''aes-xts-plain64'', kdf = k\<rparr>"

definition build_segment2 :: "usize \<Rightarrow> Luks2Segment" where
  "build_segment2 ssize =
     \<lparr>segment_id = ''0'', segment_offset = L2_SEG_OFF, encryption = ''aes-xts-plain64'',
      segment_sector_size = ssize, iv_tweak = 0\<rparr>"

definition build_digest2 :: "crypto_api \<Rightarrow> bytes \<Rightarrow> Luks2Digest" where
  "build_digest2 C master =
     \<lparr>digest_kind = ''pbkdf2'', digest_hash = ''sha256'', digest_iterations = L2_DIG_ITER,
      digest_salt = replicate 16 0x22,
      digest_value = pbkdf2_sha256 C master (replicate 16 0x22) L2_DIG_ITER 32, digest_keyslots = [''0'']\<rparr>"

definition build_header2 :: "crypto_api \<Rightarrow> bytes \<Rightarrow> Luks2Kdf \<Rightarrow> usize \<Rightarrow> Luks2Header" where
  "build_header2 C master k ssize =
     \<lparr>version2 = 2, hdr_size = 8192, keyslots2 = [build_slot2 k], segments = [build_segment2 ssize],
      digests = [build_digest2 C master]\<rparr>"

text \<open>The document of that text, its objects in ascending order of their keys; \<open>num\<close> makes a number of the JSON crate.\<close>

definition build_doc2 :: "(nat \<Rightarrow> 'n) \<Rightarrow> (bytes \<Rightarrow> string) \<Rightarrow> 'n Value \<Rightarrow> crypto_api \<Rightarrow> bytes \<Rightarrow> usize \<Rightarrow> 'n Value" where
  "build_doc2 num enc kdf_doc C master ssize =
     Object [(''digests'', Object [(''0'', Object [
         (''digest'', String (enc (pbkdf2_sha256 C master (replicate 16 0x22) L2_DIG_ITER 32))), (''hash'', String ''sha256''),
         (''iterations'', Number (num (unat L2_DIG_ITER))), (''keyslots'', Array [String ''0'']),
         (''salt'', String (enc (replicate 16 0x22))), (''segments'', Array [String ''0'']), (''type'', String ''pbkdf2'')])]),
       (''keyslots'', Object [(''0'', Object [
         (''af'', Object [(''hash'', String ''sha256''), (''stripes'', Number (num L2_STRIPES)), (''type'', String ''luks1'')]),
         (''area'', Object [(''encryption'', String ''aes-xts-plain64''), (''key_size'', Number (num 64)),
            (''offset'', json_num (unat L2_AREA_OFF)), (''size'', json_num 512), (''type'', String ''raw'')]),
         (''kdf'', kdf_doc), (''key_size'', Number (num 64))])]),
       (''segments'', Object [(''0'', Object [(''encryption'', String ''aes-xts-plain64''), (''iv_tweak'', json_num 0),
         (''offset'', json_num (unat L2_SEG_OFF)), (''sector_size'', Number (num ssize)), (''size'', String ''dynamic''),
         (''type'', String ''crypt'')])])]"

lemma build_doc2_ok: "value_ok kdf_doc \<Longrightarrow> value_ok (build_doc2 num enc kdf_doc C master ssize)"
  by (simp add: build_doc2_def json_num_def)

lemma split_xts [simp]: "split_encryption ''aes-xts-plain64'' = (''aes'', ''xts-plain64'')"
  by (simp add: split_encryption_def)

lemma build_doc2_header:
  assumes "json_ok J" and "\<And>x. b64_decode J (enc x) = Some x" and "\<And>n. n \<le> u64_MAX \<Longrightarrow> number_as_u64 J (num n) = Some (of_nat n)"
    and "parse_kdf J kdf_doc = Some k" and "ssize \<le> usize_MAX"
  shows "header2_of J 8192 (build_doc2 num enc kdf_doc C master ssize) = build_header2 C master k ssize"
  using assms
  by (simp add: header2_of_def build_doc2_def build_header2_def entries_def json_reads parse_keyslot_def parse_segment_def
      parse_digest_def List.map_filter_simps build_slot2_def build_segment2_def build_digest2_def L2_defs unat_of_nat)

lemma build_format2_ok:
  assumes "crypto_ok C" and "length master = 64" and "kdf_key C k pw 64 = Some slot_key" and "512 \<le> ssize" "ssize \<le> isize_MAX"
  shows "format2_ok C Sha256 4096 (build_header2 C master k ssize) (build_slot2 k) (build_segment2 ssize) master slot_key pw"
  using assms
  by (simp add: format2_ok_def build_header2_def build_slot2_def build_segment2_def crypt_segment_def hash_of_name_def
      L2_defs MAX_STRIPES_def digest_accepts_def build_digest2_def pbkdf2_sha256_def max_one crypto_okD)

text \<open>The image of the fixture is an image of the general form.\<close>

lemma build_luks2_image:
  assumes "crypto_ok C" and "length master = 64"
    and "json = bytes_of_string (build_luks2_text enc (replicate 16 0x22)
      (pbkdf2_sha256 C master (replicate 16 0x22) L2_DIG_ITER 32) kdf_text ssize)" and "length json < 4096"
  shows "build_luks2_volume C enc master slot_key kdf_text ssize =
     bindR (luks2_image C Sha256 4096 json (build_slot2 k) (build_segment2 ssize) master slot_key 0x5a (known_plain ssize))
       (\<lambda>img. Ok (img, known_plain ssize))"
proof -
  show ?thesis
    using assms(4) unfolding assms(3)
    by (simp add: build_luks2_volume_def luks2_image_def key_area_def Let_def build_slot2_def bindR_assoc
        build_segment2_def L2_defs LUKS2_BIN_HDR_LEN_def)
qed

text \<open>The fixture under the sample cryptography and the sample JSON crates.\<close>

definition sample_kdf :: Luks2Kdf where
  "sample_kdf = Pbkdf2 ''sha256'' 5 (replicate 16 0x88)"

definition sample_slot_key :: bytes where
  "sample_slot_key = pbkdf2_hmac sample_crypto Sha256 PASS (replicate 16 0x88) 5 64"

definition sample_doc2 :: "usize \<Rightarrow> nat Value" where
  "sample_doc2 ssize = build_doc2 id string_of_bytes (kdf_json string_of_bytes sample_kdf) sample_crypto (replicate 64 9) ssize"

definition sample_json2 :: "usize \<Rightarrow> nat json_api" where
  "sample_json2 ssize = sample_json (sample_doc2 ssize)"

lemma sample_document: "from_slice (sample_json2 ssize) [123, 125] = Some (sample_doc2 ssize)"
  by (simp add: sample_json2_def sample_json_def)

lemma sample_header2_of:
  "ssize \<le> usize_MAX \<Longrightarrow>
   header2_of (sample_json2 ssize) 8192 (sample_doc2 ssize) = build_header2 sample_crypto (replicate 64 9) sample_kdf ssize"
  unfolding sample_doc2_def sample_json2_def
  by (rule build_doc2_header, rule sample_json_ok, rule sample_json_ok, simp add: sample_json_def)
    (auto intro!: parse_kdf_json sample_json_ok simp: sample_kdf_def simp del: kdf_json.simps)

lemma sample_kdf_key: "kdf_key sample_crypto sample_kdf PASS 64 = Some sample_slot_key"
  by (simp add: kdf_key_def sample_kdf_def sample_slot_key_def hash_of_name_def max_one)

lemma sample_format2:
  "512 \<le> ssize \<Longrightarrow> ssize \<le> isize_MAX \<Longrightarrow>
   format2_ok sample_crypto Sha256 4096 (build_header2 sample_crypto (replicate 64 9) sample_kdf ssize) (build_slot2 sample_kdf)
     (build_segment2 ssize) (replicate 64 9) sample_slot_key PASS"
  by (rule build_format2_ok) (simp_all add: sample_kdf_key)

lemma sample_supported2: "supported2 sample_crypto (build_header2 sample_crypto (replicate 64 9) sample_kdf ssize) PASS"
  by (simp add: supported2_def slot2_ready_def build_header2_def build_slot2_def kdf_ready_def sample_kdf_def
      kdf_key_def hash_of_name_def L2_defs MAX_STRIPES_def digest_ready_def build_digest2_def pbkdf2_sha256_def crypto_okD
      MAX_KEY_BYTES_def)

text \<open>A plaintext of whole sectors can be encrypted.\<close>

lemma xts_encrypt_plain:
  assumes "length key = 64" and "ssize dvd length plain" and "16 \<le> ssize" and "ssize \<le> 2 ^ 32" and "length plain \<le> 2 ^ 32"
  shows "xts_encrypt C key plain ssize 0 = Ok (xts_units C key plain ssize 0)"
proof -
  have "unit_step ssize \<le> 2 ^ 32" using assms(4) by (auto simp: unit_step_def intro: le_trans [OF div_le_dividend])
  then have "length plain * unit_step ssize \<le> 2 ^ 32 * 2 ^ 32" using assms(5) by (rule mult_le_mono [rotated])
  then have "tweaks_fit ssize (length plain) 0" using assms(3,4) by (simp add: tweaks_fit_def)
  with assms show ?thesis by (intro xts_encrypt_value) simp_all
qed

lemma sample_image2:
  assumes "512 \<le> ssize" and "ssize \<le> 4096" and "ssize dvd len" and "len \<le> 4096"
  shows "\<exists>img. luks2_image sample_crypto Sha256 4096 [123, 125] (build_slot2 sample_kdf) (build_segment2 ssize)
     (replicate 64 9) sample_slot_key 0x5a (known_plain len) = Ok img \<and> length img \<le> isize_MAX"
proof -
  have f: "format2_ok sample_crypto Sha256 4096 (build_header2 sample_crypto (replicate 64 9) sample_kdf ssize) (build_slot2 sample_kdf)
     (build_segment2 ssize) (replicate 64 9) sample_slot_key PASS"
    using assms by (intro sample_format2) simp_all
  have "xts_encrypt sample_crypto (replicate 64 9) (known_plain len) ssize 0 =
      Ok (xts_units sample_crypto (replicate 64 9) (known_plain len) ssize 0)"
    using assms by (intro xts_encrypt_plain) simp_all
  then have enc: "xts_encrypt sample_crypto (replicate 64 9) (known_plain len) (segment_sector_size (build_segment2 ssize))
      (iv_tweak (build_segment2 ssize)) = Ok (xts_units sample_crypto (replicate 64 9) (known_plain len) ssize 0)"
    by (simp add: build_segment2_def)
  have "length (luks2_area 4096 [123, 125]) = 4096 + 4096" by (rule luks2_area_parts) (simp_all add: json_text_ok_def)
  then obtain img pre where img: "luks2_image sample_crypto Sha256 4096 [123, 125] (build_slot2 sample_kdf) (build_segment2 ssize)
     (replicate 64 9) sample_slot_key 0x5a (known_plain len) = Ok img"
    "img = pre @ xts_units sample_crypto (replicate 64 9) (known_plain len) ssize 0" "length pre = 12288"
    using luks2_image_parts [OF sample_crypto_ok f enc, of "[123, 125]" "0x5a"]
    by (auto simp: build_segment2_def L2_defs)
  then show ?thesis using assms(4) by (auto simp: length_xts_units)
qed

lemma sample_run2:
  obtains img p w' where "length img \<le> isize_MAX" "version_of img = 2" "hdr_size_of img \<le> isize_MAX"
    "parse2 (sample_json2 512) (hdr_area_of img) = Ok (build_header2 sample_crypto (replicate 64 9) sample_kdf 512)"
    "unlock_with_passphrase_within sample_crypto (sample_json2 512) cursor_reader PASS 5 (sample_world img) = Some (Ok p, w')"
proof -
  obtain img where img: "luks2_image sample_crypto Sha256 4096 [123, 125] (build_slot2 sample_kdf) (build_segment2 512)
       (replicate 64 9) sample_slot_key 0x5a (known_plain 1024) = Ok img" "length img \<le> isize_MAX"
    using sample_image2 [of 512 1024] by auto
  have side: "json_text_ok 4096 [123, 125]" "segment_sector_size (build_segment2 512) dvd length (known_plain 1024)"
    "header2_of (sample_json2 512) (of_nat (4096 + 4096)) (sample_doc2 512) = build_header2 sample_crypto (replicate 64 9) sample_kdf 512"
    by (simp_all add: json_text_ok_def build_segment2_def known_plain_def sample_header2_of)
  have f: "format2_ok sample_crypto Sha256 4096 (build_header2 sample_crypto (replicate 64 9) sample_kdf 512)
      (build_slot2 sample_kdf) (build_segment2 512) (replicate 64 9) sample_slot_key PASS"
    by (rule sample_format2) simp_all
  note built = luks2_image_unlocks [OF sample_crypto_ok f side(1) _ sample_document side(3,2) img]
  obtain p w' where "unlock_with_passphrase_within sample_crypto (sample_json2 512) cursor_reader PASS 5 (sample_world img) = Some (Ok p, w')"
    using luks2_image_run [OF sample_crypto_ok f side(1) _ sample_document side(3,2) img sample_supported2,
        of "sample_world img" 5] by auto
  with img(2) built(1,3,4) that show thesis by auto
qed

text \<open>A container whose only digest is empty.\<close>

definition weak_header2 :: Luks2Header where
  "weak_header2 =
     \<lparr>version2 = 2, hdr_size = 16384, keyslots2 = [(build_slot2 sample_kdf)\<lparr>area_offset := 16384\<rparr>],
      segments = [build_segment2 512], digests = [(build_digest2 sample_crypto [])\<lparr>digest_value := []\<rparr>]\<rparr>"

definition weak_json :: "nat json_api" where
  "weak_json = sample_json (header2_json string_of_bytes [''0''] weak_header2)"

definition weak_image :: bytes where
  "weak_image = luks2_area 12288 [123, 125] @ replicate 1536 0"

lemma weak_container:
  "length weak_image = 17920" "version_of weak_image = 2" "hdr_size_of weak_image = 16384"
  "parse2 weak_json (hdr_area_of weak_image) = Ok weak_header2" "supported2 sample_crypto weak_header2 pw"
proof -
  have t: "json_text_ok 12288 [123, 125]" by (simp add: json_text_ok_def)
  note head = luks2_area_head [OF t _ weak_image_def]
  show "version_of weak_image = 2" "hdr_size_of weak_image = 16384" using head by simp_all
  show "length weak_image = 17920" using luks2_area_parts(1) [OF t] by (simp add: weak_image_def)
  have "header2_wf weak_header2"
    by (simp add: header2_wf_def weak_header2_def build_slot2_def build_segment2_def sample_kdf_def)
  then have "header2_of weak_json (hdr_size weak_header2) (header2_json string_of_bytes [''0''] weak_header2) = weak_header2"
    unfolding weak_json_def by (intro header2_of_json sample_json_ok) (simp_all add: weak_header2_def)
  moreover have "from_slice weak_json [123, 125] = Some (header2_json string_of_bytes [''0''] weak_header2)"
    by (simp add: weak_json_def sample_json_def)
  ultimately show "parse2 weak_json (hdr_area_of weak_image) = Ok weak_header2"
    using parse2_area [OF t, of weak_json] head(4) by (simp add: weak_header2_def)
  show "supported2 sample_crypto weak_header2 pw"
    by (simp add: supported2_def slot2_ready_def weak_header2_def build_slot2_def kdf_ready_def sample_kdf_def kdf_key_def
      hash_of_name_def L2_defs MAX_STRIPES_def MAX_KEY_BYTES_def digest_ready_def build_digest2_def)
qed

end
