(* ===== verification/Fuzz.thy ===== *)
theory Fuzz
  imports Fixtures2
begin

text \<open>
  The fuzz targets of \<^verbatim>\<open>core/fuzz/fuzz_targets\<close>.  Each states an invariant, that its calls never
  panic on any input; the theorems show for which inputs it holds.  A target discards the results
  of its calls, so its value is \<open>Ok ()\<close> or a panic.
\<close>

section \<open>The targets\<close>

definition fuzz_luks1_header :: "bytes \<Rightarrow> unit res" where
  "fuzz_luks1_header data =
     (case Header1.parse data of
        Ok hdr \<Rightarrow>
          let n = length (active_keyslots hdr) in
          bindR (payload_byte_offset hdr) (\<lambda>off.
          let marks = map (\<lambda>slot. (is_active slot, is_disabled slot)) (keyslots hdr) in Ok ())
      | Err e \<Rightarrow> Ok ()
      | Panic q \<Rightarrow> Panic q)"

definition fuzz_luks2_header :: "'n json_api \<Rightarrow> bytes \<Rightarrow> unit res" where
  "fuzz_luks2_header J data =
     (case parse2 J data of
        Ok hdr \<Rightarrow> let seg = crypt_segment hdr in Ok ()
      | Err e \<Rightarrow> Ok ()
      | Panic q \<Rightarrow> Panic q)"

definition fuzz_af_merge :: "crypto_api \<Rightarrow> bytes \<Rightarrow> unit res" where
  "fuzz_af_merge C data =
     (if length data < 3 then Ok ()
      else
      let sel = unat (data ! 0) mod 4;
          hspec = (if sel = 0 then ''sha1'' else if sel = 1 then ''sha256''
                   else if sel = 2 then ''sha512'' else ''unsupported-hash'');
          block_size = unat (data ! 1);
          strps = unat (data ! 2);
          material = drop 3 data
      in case merge C hspec material block_size strps of Panic q \<Rightarrow> Panic q | _ \<Rightarrow> Ok ())"

text \<open>The container is an in-memory cursor; the unlocked payload is read once.\<close>

definition fuzz_unlock :: "crypto_api \<Rightarrow> 'n json_api \<Rightarrow> bytes \<Rightarrow> clock \<Rightarrow> unit res option" where
  "fuzz_unlock C J data c =
     (case over_fresh (cursor_new data) (unlock_with_passphrase C J cursor_reader (bytes_of_string ''luks-TEST'')) c of
        None \<Rightarrow> None
      | Some (Ok vol, _) \<Rightarrow>
          (case read_at C cursor_reader 0 (replicate 512 0) vol of
             None \<Rightarrow> None
           | Some (Panic q, _) \<Rightarrow> Some (Panic q)
           | Some _ \<Rightarrow> Some (Ok ()))
      | Some (Err e, _) \<Rightarrow> Some (Ok ())
      | Some (Panic q, _) \<Rightarrow> Some (Panic q))"

section \<open>The payload of a parsed container\<close>

lemma parsed_segment_tweak:
  assumes "parse2 J data = Ok h" and "g \<in> set (segments h)"
  shows "unat (iv_tweak g) \<le> u64_MAX"
proof -
  obtain root where "segments h = entries J root ''segments'' (\<lambda>(k, v). parse_segment J k v)"
    using assms(1) by (auto simp: parse2_def outcome_simps Let_def split: if_splits)
  then obtain k v where "parse_segment J k v = Some g"
    using assms(2) by (auto simp: entries_def unwrap_or_def List.map_filter_def split: option.splits)
  then obtain x :: u64 where "iv_tweak g = ucast x" by (auto simp: parse_segment_def bind_eq_Some_conv)
  then show ?thesis using unat_le_u64(2) [of x] by (simp add: unsigned_ucast_eq unsigned_take_bit_eq take_bit_nat_eq_self)
qed

text \<open>The sector sizes of the data segments can be allocated.\<close>

definition sectors_fit :: "'n json_api \<Rightarrow> bytes \<Rightarrow> bool" where
  "sectors_fit J img \<longleftrightarrow>
     (case parse2 J (hdr_area_of img) of
        Ok h \<Rightarrow> list_all (\<lambda>g. segment_sector_size g \<le> isize_MAX) (segments h)
      | _ \<Rightarrow> True)"

lemma unlocked_geometry:
  assumes C: "crypto_ok C" and spec: "unlock_spec C J img pw = Ok q" and fit: "version_of img = 2 \<Longrightarrow> sectors_fit J img"
  shows "geometry_ok q \<and> xts_cipher (dp_master_key q) \<noteq> None"
proof (cases "version_of img = 1")
  case True
  with spec have "unlock1_spec C img pw = Ok q" by (simp add: unlock_spec_def split: if_splits)
  then show ?thesis
  proof (rule unlock1_spec_Ok)
    fix h mk assume h: "first_open (open_slot1 C h img pw) (active_keyslots h) = Some mk" "q = payload1 h mk (of_nat (length img)) ()"
    obtain slot where "open_slot1 C h img pw slot = Some mk" using first_open_Some [OF h(1)] by blast
    then have "length mk = 32 \<or> length mk = 64" using open_slot1_Some [OF C] by blast
    with h(2) show ?thesis by (auto simp: geometry_ok_def payload1_def xts_cipher_def)
  qed
next
  case False
  with spec have two: "version_of img = 2" "unlock2_spec C J img pw = Ok q"
    by (auto simp: unlock_spec_def split: if_splits)
  from two(2) show ?thesis
  proof (rule unlock2_spec_Ok)
    fix h g mk
    assume h: "parse2 J (hdr_area_of img) = Ok h" "crypt_segment h = Some g"
      "first_open (open_slot2 C h img pw) (keyslots2 h) = Some mk" "q = payload2 g mk (of_nat (length img)) ()"
    have g: "g \<in> set (segments h)" using h(2) by (auto simp: crypt_segment_def find_Some_iff)
    obtain slot where "open_slot2 C h img pw slot = Some mk" using first_open_Some [OF h(3)] by blast
    then have "length mk = 32 \<or> length mk = 64" using open_slot2_Some [OF C] by fastforce
    moreover have "segment_sector_size g \<le> isize_MAX" using fit [OF two(1)] h(1) g by (simp add: sectors_fit_def list_all_iff)
    moreover note parsed_segment_tweak [OF h(1) g]
    ultimately show ?thesis using h(4) by (auto simp: geometry_ok_def payload2_def xts_cipher_def)
  qed
qed

lemma forget_fields:
  "geometry_ok (forget p) = geometry_ok p" "dp_master_key (forget p) = dp_master_key p"
  by (simp_all add: geometry_ok_def forget_def)

text \<open>The first sector of a payload can be asked for.\<close>

lemma first_sector:
  assumes "crypto_ok C" and "geometry_ok p" and "xts_cipher (dp_master_key p) \<noteq> None"
    and "length (cur_data (dp_reader p)) \<le> isize_MAX"
  shows "\<exists>x p'. read_at C cursor_reader 0 (replicate 512 0) p = Some (x, p') \<and> \<not> is_Panic x"
proof -
  have n: "512 \<le> dp_sector_size p" using assms(2) by (simp add: geometry_ok_def)
  then have "511 div dp_sector_size p = 0" by simp
  then have range: "range_ok p (unat (0 :: u64)) (length (replicate 512 0 :: bytes))"
    using unsigned_less [of "dp_payload_offset p", where 'a = nat] by (simp add: range_ok_def)
  show ?thesis
  proof (cases "dp_cipher_mode p = ''xts-plain64''")
    case True
    with assms(2,3) have "payload_ok p" by (simp add: payload_ok_def geometry_ok_def)
    from cursor.read_at_in_range [OF assms(1) this assms(4) range] show ?thesis by auto
  next
    case False
    have "replicate 512 0 \<noteq> ([] :: bytes)" by simp
    from cursor.read_at_refused [OF assms(2,4) this range False, of C] show ?thesis by auto
  qed
qed

section \<open>Properties\<close>

text \<open>
  C14.  The invariants of the fuzz targets for the two header parsers and for the anti-forensic merge
  hold on every input: no call panics, with any JSON and base64 crates and any digests of the right
  size.
\<close>

theorem parser_targets_never_panic:
  assumes "crypto_ok C"
  shows "fuzz_luks1_header data = Ok () \<and> fuzz_luks2_header J data = Ok () \<and> fuzz_af_merge C data = Ok ()"
proof (intro conjI)
  show "fuzz_luks1_header data = Ok ()"
    using parse_no_panic [of data] by (auto simp: fuzz_luks1_header_def payload_offset_value split: outcome.split)
  show "fuzz_luks2_header J data = Ok ()"
    using parse2_no_panic [of J data] by (auto simp: fuzz_luks2_header_def split: outcome.split)
  have "area_fits (unat b) (unat s)" for b s :: u8
  proof -
    have "unat s * unat b \<le> 256 * 256"
      using unsigned_less [of b, where 'a = nat] unsigned_less [of s, where 'a = nat] by (intro mult_le_mono) simp_all
    then show ?thesis using unsigned_less [of b, where 'a = nat] by (simp add: area_fits_def)
  qed
  then have "\<not> is_Panic (merge C hspec m (unat b) (unat s))" for hspec m and b s :: u8
    by (rule merge_cases [OF assms, of "unat b" "unat s" hspec m]) auto
  moreover have "(case x of Panic q \<Rightarrow> Panic q | _ \<Rightarrow> Ok ()) = (Ok () :: unit res)" if "\<not> is_Panic x" for x :: "bytes res"
    using that by (cases x) simp_all
  ultimately show "fuzz_af_merge C data = Ok ()" by (simp only: fuzz_af_merge_def Let_def if_cancel simp_thms)
qed

theorem parser_targets_never_panic_witness:
  "fuzz_luks1_header [1, 2] = Ok () \<and> fuzz_luks2_header (sample_json Null) [3] = Ok () \<and>
   fuzz_af_merge sample_crypto [1, 4, 3, 9, 9, 9, 9, 9] = Ok ()"
  using parser_targets_never_panic [OF sample_crypto_ok(1)] by blast

text \<open>
  C13.  The invariant of the fuzz target for the whole pipeline, unlocking and one read, holds on every
  LUKS1 container and on every other input that is not LUKS2, and on a LUKS2 container whose header
  size and sector sizes can be allocated: the target returns without a panic, whatever the clock.
\<close>

theorem unlock_target_never_panics:
  assumes "crypto_ok C" and "length data \<le> isize_MAX"
    and "version_of data = 2 \<Longrightarrow> hdr_size_of data \<le> isize_MAX \<and> sectors_fit J data"
  shows "fuzz_unlock C J data c = Some (Ok ())"
proof -
  let ?pw = "bytes_of_string ''luks-TEST''" and ?w = "\<lparr>reading = reading c, tick = tick c, rd_state = cursor_new data\<rparr>"
  have img: "cur_data (rd_state ?w) = data" by (simp add: cursor_new_def)
  obtain x w' where run: "unlock_with_passphrase C J cursor_reader ?pw ?w = Some (x, w')"
    "agrees (cursor.calm C J ?pw UNLOCK_BUDGET ?w) (unlock_spec C J data ?pw) (map_outcome forget id x)"
    "\<And>p. x = Ok p \<Longrightarrow> cur_data (dp_reader p) = data"
    using cursor.unlock_within_spec [of C ?w J ?pw UNLOCK_BUDGET] assms img
    unfolding unlock_with_passphrase_def cursor.entry_ok_def cursor.world_step_def cursor.same_source_def
    by (metis (no_types, lifting))
  show ?thesis
  proof (cases x)
    case (Ok p)
    then have "unlock_spec C J data ?pw = Ok (forget p)" using run(2) by simp
    from unlocked_geometry [OF assms(1) this] assms(3) have "geometry_ok p" "xts_cipher (dp_master_key p) \<noteq> None"
      by (simp_all add: forget_fields)
    moreover have "length (cur_data (dp_reader p)) \<le> isize_MAX" using run(3) [OF Ok] assms(2) by simp
    ultimately obtain y p' where "read_at C cursor_reader 0 (replicate 512 0) p = Some (y, p')" "\<not> is_Panic y"
      using first_sector [OF assms(1)] by blast
    with run(1) Ok show ?thesis by (cases y) (simp_all add: fuzz_unlock_def over_fresh_def)
  next
    case (Err e)
    with run(1) show ?thesis by (simp add: fuzz_unlock_def over_fresh_def)
  qed (use run(2) in simp)
qed

theorem unlock_target_never_panics_witness:
  "fuzz_unlock sample_crypto weak_json weak_image \<lparr>reading = (\<lambda>n. n), tick = 0\<rparr> = Some (Ok ())"
  by (rule unlock_target_never_panics)
    (simp_all add: weak_container sectors_fit_def, simp add: weak_header2_def build_segment2_def)

end
