(* ===== verification/Vfs_Fixtures.thy ===== *)
theory Vfs_Fixtures
  imports Fixtures2
begin

text \<open>
  The fixtures of the test module of \<^verbatim>\<open>core/src/vfs.rs\<close>, and the adapter on a formatted container:
  from the encrypted image through detection, the credentials and unlocking to reads of the
  decrypted image.
\<close>

section \<open>The fixtures of the tests\<close>

definition vfs_plain :: bytes where
  "vfs_plain = concat (map (\<lambda>s. replicate 512 (of_nat s)) [0..<3])"

definition vfs_build_luks1 :: "crypto_api \<Rightarrow> bytes \<Rightarrow> bytes res" where
  "vfs_build_luks1 C master = luks1_image C Sha256 (build_header C master) build_slot0 master PASS 0x5a vfs_plain"

definition vfs_master :: bytes where
  "vfs_master = map (\<lambda>x. of_nat x * 7 + 3) [0..<64]"

definition fixed_creds :: "Credential list \<Rightarrow> EncryptionScheme \<Rightarrow> string \<Rightarrow> Credential list" where
  "fixed_creds creds sch target = creds"

section \<open>Opening a formatted container\<close>

lemma mem_layer:
  assumes "length img \<le> isize_MAX"
  obtains l where "LuksLayer_new mem_source img = Some (Ok l)" "encrypted l = img" "layer_len l = of_nat (length img)"
    "scheme l = (if take 6 img = LUKS_MAGIC \<and> 8 \<le> length img \<and> version_of img = 1 then Luks1 else Luks2)"
proof -
  have "img_len mem_source img = of_nat (length img)" by (simp add: mem_source_def)
  with mem.layer_new [OF assms] show thesis
    by (intro that [of "\<lparr>encrypted = img, layer_len = of_nat (length img), layer_scheme =
        (if take 6 img = LUKS_MAGIC \<and> 8 \<le> length img \<and> version_of img = 1 then Luks1 else Luks2)\<rparr>"])
      (auto simp: scheme_def)
qed

lemma luks1_image_magic:
  assumes "crypto_ok C" and "xts_inverse C" and "format_ok C D h slot master"
    and "luks1_image C D h slot master pw filler plain = Ok img"
  shows "take 6 img = LUKS_MAGIC"
proof -
  have "take 592 img = encode_luks1 h"
    using luks1_image_built [OF assms] by blast
  then have "take 6 (take 592 img) = LUKS_MAGIC" by (simp add: encode_luks1_def)
  then show ?thesis by simp
qed

context byte_reader
begin

lemma open_formatted:
  fixes fresh :: 'r and c :: clock
  assumes C: "crypto_ok C" "xts_inverse C" and f: "format_ok C D h slot master" and plain: "512 dvd length plain"
    and img: "luks1_image C D h slot master pw filler plain = Ok img" "length img \<le> isize_MAX" and sup: "supported1 h"
    and fresh: "inv fresh" "content fresh = img" and calm: "still c"
    and creds: "List.map_filter passphrase_of creds = pw # pws"
  shows "\<exists>src c'. open_loop C J dbg R fresh creds None c = Some (Ok src, c') \<and> reading c' = reading c \<and>
     source_ok C src \<and> view C (inner src) = plain"
proof -
  note built = luks1_image_unlocks [OF C f plain img]
  have spec: "unlock_spec C J img pw = Ok (payload1 h master (of_nat (length img)) ())"
    using built(1-3) by (simp add: unlock_spec_def)
  have "Header1.parse (take 592 img) = Ok h" using luks1_image_built [OF C f img(1)] by blast
  then have "\<forall>p. image_supported C J img p" using sup built(1) by (simp add: image_supported_def image_supported1_def)
  then obtain x c' where x: "open_loop C J dbg R fresh creds None c = Some (x, c')" "reading c' = reading c"
    "case x of Ok src \<Rightarrow> opened C J img fresh creds src | Err _ \<Rightarrow> True | Panic _ \<Rightarrow> False"
    "map_outcome (\<lambda>s. forget (inner s)) id x = Ok (payload1 h master (of_nat (length img)) ())"
    using open_loop_spec [OF C(1) fresh(1), of J dbg creds None c] fresh(2) calm creds spec built(1) by auto
  then obtain src where run: "open_loop C J dbg R fresh creds None c = Some (Ok src, c')" "reading c' = reading c"
    "opened C J img fresh creds src" "forget (inner src) = payload1 h master (of_nat (length img)) ()"
    by (cases x) auto
  then have eq: "inner src = payload1 h master (of_nat (length img)) (dp_reader (inner src))"
    by (cases "inner src") (simp add: forget_def payload1_def)
  have "payload_ok (inner src)" "plaintext C (inner src) img = plain"
    using built(4,5) [of "dp_reader (inner src)"] eq by simp_all
  with run fresh C(1) show ?thesis
    by (auto simp: opened_def same_source_def source_ok_def view_ok_def view_def)
qed

lemma layer_formatted:
  fixes source_cursor :: "bytes \<Rightarrow> u64 \<Rightarrow> u64 \<Rightarrow> 'r" and c :: clock and offset :: u64
  assumes view: "inv (source_cursor img 0 (of_nat (length img)))" "content (source_cursor img 0 (of_nat (length img))) = img"
    and C: "crypto_ok C" "xts_inverse C" and f: "format_ok C D h slot master" and plain: "512 dvd length plain"
    and img: "luks1_image C D h slot master pw filler plain = Ok img" "length img \<le> isize_MAX"
    and calm: "supported1 h" "still c" and creds: "List.map_filter passphrase_of creds = pw # pws" and buf: "length buf \<le> isize_MAX"
  shows "\<exists>l src c' s. LuksLayer_new mem_source img = Some (Ok l) \<and> scheme l = Luks1 \<and>
     open_layer C J dbg R source_cursor (fixed_creds creds) l c = Some (Ok src, c') \<and>
     unat (source_len_of src) = length plain \<and>
     source_read_at C dbg R offset buf src =
       Some (Ok (min (length buf) (length plain - unat offset),
         take (length buf) (drop (unat offset) plain) @ drop (min (length buf) (length plain - unat offset)) buf), s)"
proof -
  note built = luks1_image_unlocks [OF C f plain img]
  obtain l where l: "LuksLayer_new mem_source img = Some (Ok l)" "encrypted l = img" "layer_len l = of_nat (length img)"
    "scheme l = Luks1"
    using mem_layer [OF img(2)] luks1_image_magic [OF C f img(1)] built(1,2) by metis
  obtain src c' where src: "open_loop C J dbg R (source_cursor img 0 (of_nat (length img))) creds None c = Some (Ok src, c')"
    "source_ok C src" "view C (inner src) = plain"
    using open_formatted [OF C f plain img calm(1) view calm(2) creds] by blast
  have "creds \<noteq> []" using creds by (auto simp: List.map_filter_simps)
  then have "open_layer C J dbg R source_cursor (fixed_creds creds) l c = Some (Ok src, c')"
    using src(1) l by (simp add: open_layer_def fixed_creds_def Let_def)
  moreover have "unat (source_len_of src) = length plain"
    using src(2,3) by (auto simp: source_ok_def source_len_of_def view_def)
  ultimately show ?thesis using l source_read [OF src(2) buf, of dbg offset] src(3) by auto
qed

end

section \<open>Properties\<close>

text \<open>
  C12.  The adapter decrypts: over a formatted LUKS1 container in memory, the layer detects LUKS1, and
  with a credential source whose first wired credential is the passphrase (unwired ones are skipped)
  opening it on a calm run returns a source of the length of the data, every read of which delivers
  the data that was encrypted.  The view that \<open>SourceCursor\<close> gives of the image is assumed to be a
  reader of its bytes.
\<close>

theorem layer_decrypts_container:
  fixes source_cursor :: "bytes \<Rightarrow> u64 \<Rightarrow> u64 \<Rightarrow> 'r" and c :: clock and offset :: u64
  assumes "byte_reader R content pos retries ready" and "ready (source_cursor img 0 (of_nat (length img)))"
    and "content (source_cursor img 0 (of_nat (length img))) = img"
    and "crypto_ok C" and "xts_inverse C" and "format_ok C D h slot master" and "512 dvd length plain"
    and "luks1_image C D h slot master pw filler plain = Ok img" and "length img \<le> isize_MAX"
    and "supported1 h" and "still c" and "List.map_filter passphrase_of creds = pw # pws" and "length buf \<le> isize_MAX"
  shows "\<exists>l src c' s. LuksLayer_new mem_source img = Some (Ok l) \<and> scheme l = Luks1 \<and>
     open_layer C J dbg R source_cursor (fixed_creds creds) l c = Some (Ok src, c') \<and>
     unat (source_len_of src) = length plain \<and>
     source_read_at C dbg R offset buf src =
       Some (Ok (min (length buf) (length plain - unat offset),
         take (length buf) (drop (unat offset) plain) @ drop (min (length buf) (length plain - unat offset)) buf), s)"
  using assms(2-13) by (rule byte_reader.layer_formatted [OF assms(1)])

theorem layer_decrypts_container_witness:
  "\<exists>img l src c' s. vfs_build_luks1 sample_crypto vfs_master = Ok img \<and>
     LuksLayer_new mem_source img = Some (Ok l) \<and> scheme l = Luks1 \<and>
     open_layer sample_crypto (sample_json Null) (\<lambda>t. t) cursor_reader (\<lambda>s off len. cursor_new s)
       (fixed_creds [OtherCredential, KeyBytes PASS]) l \<lparr>reading = (\<lambda>n. 0), tick = 0\<rparr> = Some (Ok src, c') \<and>
     source_read_at sample_crypto (\<lambda>t. t) cursor_reader 510 (replicate 4 9) src = Some (Ok (4, [0, 0, 1, 1]), s)"
proof -
  have m: "length vfs_master = 64" by (simp add: vfs_master_def)
  have len: "length vfs_plain = 1536" by (simp add: vfs_plain_def numeral_3_eq_3 upt_rec)
  have four: "take 4 (drop 510 vfs_plain) = [0, 0, 1, 1]"
    by (simp add: vfs_plain_def numeral_3_eq_3 upt_rec) (simp add: numeral_eq_Suc)
  note f = build_format_ok [OF sample_crypto_ok(1) m]
  obtain img pre where img: "luks1_image sample_crypto Sha256 (build_header sample_crypto vfs_master) build_slot0 vfs_master PASS 0x5a vfs_plain = Ok img"
    "img = pre @ xts_units sample_crypto vfs_master vfs_plain 512 0" "length pre = 2048"
    using luks1_image_parts [OF sample_crypto_ok f xts_encrypt_sectors [OF m], of vfs_plain PASS "0x5a"] len by (auto simp: build_header_def L1_defs)
  have "length img \<le> isize_MAX"
    using img(2,3) len length_xts_units [OF sample_crypto_ok(1)] by simp
  then show ?thesis
    using layer_decrypts_container [OF cursor.byte_reader_axioms, of "\<lambda>s off len. cursor_new s" img sample_crypto Sha256
        "build_header sample_crypto vfs_master" build_slot0 vfs_master vfs_plain PASS "0x5a" "\<lparr>reading = (\<lambda>n. 0), tick = 0\<rparr>"
        "[OtherCredential, KeyBytes PASS]" "[]" "replicate 4 9" "sample_json Null" "\<lambda>t. t" 510]
      f img(1) len four
    by (auto simp: cursor_new_def build_supported still_def List.map_filter_simps vfs_build_luks1_def)
qed

end
