(* ===== verification/Causes.thy ===== *)
theory Causes
  imports Entry
begin

text \<open>
  Why unlocking fails.  A cause is a fact about the container, the budget and the clock that
  justifies an error and the values the error carries.  \<open>throws\<close> is a postcondition on the errors of
  a program, with one rule per construct; every error of the keyslot loops, and with them of the
  entry point, has its cause.
\<close>

section \<open>Errors of a program\<close>

text \<open>From a state in \<open>I\<close> the program stays in \<open>I\<close>, and an error it ends with satisfies \<open>P\<close>.\<close>

definition throws :: "('s \<Rightarrow> bool) \<Rightarrow> ('e \<Rightarrow> bool) \<Rightarrow> ('s, 'e, 'a) prog \<Rightarrow> bool" where
  "throws I P m \<longleftrightarrow> (\<forall>s x s'. I s \<longrightarrow> m s = Some (x, s') \<longrightarrow> I s' \<and> (\<forall>e. x = Err e \<longrightarrow> P e))"

lemma throwsD: "throws I P m \<Longrightarrow> I s \<Longrightarrow> m s = Some (Err e, s') \<Longrightarrow> P e"
  by (auto simp: throws_def)

lemma throws_run: "throws I P m \<Longrightarrow> I s \<Longrightarrow> m s = Some (x, s') \<Longrightarrow> I s'"
  by (auto simp: throws_def)

lemma throws_ret: "throws I P (ret x)"
  by (simp add: throws_def)

lemma throws_fail: "P e \<Longrightarrow> throws I P (fail e)"
  by (simp add: throws_def)

lemma throws_liftR: "(\<And>e. m = Err e \<Longrightarrow> P e) \<Longrightarrow> throws I P (liftR m)"
  by (simp add: throws_def)

lemma throws_bindM:
  assumes "throws I P m" and "\<And>x s s'. I s \<Longrightarrow> m s = Some (Ok x, s') \<Longrightarrow> throws I P (f x)"
  shows "throws I P (bindM m f)"
  unfolding throws_def
proof (intro allI impI)
  fix s y t assume s: "I s" and run: "bindM m f s = Some (y, t)"
  show "I t \<and> (\<forall>e. y = Err e \<longrightarrow> P e)"
  proof (cases "m s")
    case None
    with run show ?thesis by (simp add: bindM_run)
  next
    case (Some r)
    obtain x s' where m: "m s = Some (x, s')" using Some by (cases r) auto
    have s': "I s'" by (rule throws_run [OF assms(1) s m])
    show ?thesis
    proof (cases x)
      case (Ok v)
      with m run have "f v s' = Some (y, t)" by simp
      moreover have "throws I P (f v)" using assms(2) s m Ok by blast
      ultimately show ?thesis using s' by (auto simp: throws_def)
    qed (use m run s' throwsD [OF assms(1) s] in auto)
  qed
qed

lemma throws_bind_liftR:
  assumes "\<And>e. m = Err e \<Longrightarrow> P e" and "\<And>x. m = Ok x \<Longrightarrow> throws I P (f x)"
  shows "throws I P (bindM (liftR m) f)"
  using assms by (cases m) (auto simp: throws_def)

lemma throws_if: "(b \<Longrightarrow> throws I P m) \<Longrightarrow> (\<not> b \<Longrightarrow> throws I P m') \<Longrightarrow> throws I P (if b then m else m')"
  by simp

lemma throws_weaken: "throws I P m \<Longrightarrow> (\<And>e. P e \<Longrightarrow> Q e) \<Longrightarrow> throws I Q m"
  by (auto simp: throws_def)

section \<open>Causes\<close>

text \<open>The deadline: \<open>n\<close> keyslots, the time \<open>d\<close> for all of them, and two readings of the clock that far apart.\<close>

fun deadline_cause :: "(nat \<Rightarrow> instant) \<Rightarrow> duration \<Rightarrow> nat \<Rightarrow> LuksError \<Rightarrow> bool" where
  "deadline_cause clk d n (UnlockBudgetExceeded tried secs) \<longleftrightarrow>
     tried < n \<and> secs = as_secs d \<and> (\<exists>i j. d \<le> clk j - clk i)"
| "deadline_cause clk d n _ \<longleftrightarrow> False"

text \<open>
  A calibration run between two consecutive readings of the clock projects a cost, by \<open>f\<close>, over an
  allowance of at most the ceiling of a single derivation.
\<close>

definition over_allowance :: "(nat \<Rightarrow> instant) \<Rightarrow> (duration \<Rightarrow> duration) \<Rightarrow> nat \<Rightarrow> nat \<Rightarrow> bool" where
  "over_allowance clk f proj secs \<longleftrightarrow>
     (\<exists>k left. left \<le> DERIVATION_BUDGET \<and> secs = as_secs left \<and>
        left < f (clk (Suc k) - clk k) \<and> proj = as_secs (f (clk (Suc k) - clk k)))"

text \<open>
  A derivation by PBKDF2 of \<open>n\<close> bytes: the length is over the ceiling, the hash has no implementation, or
  the iterations would take too long.
\<close>

fun pbkdf2_cause :: "(nat \<Rightarrow> instant) \<Rightarrow> string \<Rightarrow> u32 \<Rightarrow> nat \<Rightarrow> LuksError \<Rightarrow> bool" where
  "pbkdf2_cause clk h iters n (KeyLengthExceeded r m) \<longleftrightarrow> r = n \<and> m = MAX_KEY_BYTES \<and> m < r"
| "pbkdf2_cause clk h iters n (Unsupported what v) \<longleftrightarrow> what = ''hash'' \<and> v = h \<and> hash_of_name h = None"
| "pbkdf2_cause clk h iters n (DerivationBudgetExceeded i proj secs) \<longleftrightarrow>
     i = max iters 1 \<and> CALIBRATION_ITERS < i \<and> over_allowance clk (\<lambda>d. pbkdf2_projection d i) proj secs"
| "pbkdf2_cause clk h iters n _ \<longleftrightarrow> False"

text \<open>A derivation by Argon2; the crate may refuse the parameters for one pass or for all of them.\<close>

fun argon2_cause :: "crypto_api \<Rightarrow> (nat \<Rightarrow> instant) \<Rightarrow> Argon2Params \<Rightarrow> bytes \<Rightarrow> nat \<Rightarrow> LuksError \<Rightarrow> bool" where
  "argon2_cause C clk p pw n (KeyLengthExceeded r m) \<longleftrightarrow> r = n \<and> m = MAX_KEY_BYTES \<and> m < r"
| "argon2_cause C clk p pw n (DerivationMemoryExceeded r m) \<longleftrightarrow> r = memory p \<and> m = MAX_ARGON2_MEMORY_KIB \<and> m < r"
| "argon2_cause C clk p pw n (Unsupported what v) \<longleftrightarrow>
     what = ''argon2 variant'' \<and> v = kind p \<and> argon2_of_name (kind p) = None \<or>
     (\<exists>A t. argon2_of_name (kind p) = Some A \<and> (t = 1 \<or> t = time p) \<and>
        (what = ''argon2 params'' \<and> argon2_params C (memory p) t (cpus p) n = Some v \<or>
         what = ''argon2'' \<and> argon2_hash C A (memory p) t (cpus p) pw (argon_salt p) n = Inl v))"
| "argon2_cause C clk p pw n (DerivationBudgetExceeded i proj secs) \<longleftrightarrow>
     i = time p \<and> 1 < i \<and> over_allowance clk (\<lambda>d. argon2_projection d i) proj secs"
| "argon2_cause C clk p pw n _ \<longleftrightarrow> False"

definition kdf_cause :: "crypto_api \<Rightarrow> (nat \<Rightarrow> instant) \<Rightarrow> Luks2Kdf \<Rightarrow> bytes \<Rightarrow> nat \<Rightarrow> LuksError \<Rightarrow> bool" where
  "kdf_cause C clk k pw n e \<longleftrightarrow>
     (case k of
        Argon2 knd t m c slt \<Rightarrow>
          argon2_cause C clk \<lparr>kind = knd, time = t, memory = m, cpus = c, argon_salt = slt\<rparr> pw n e
      | Pbkdf2 h iters slt \<Rightarrow> pbkdf2_cause clk h iters n e)"

text \<open>An area of key material for a key of \<open>kb\<close> bytes in \<open>k\<close> stripes.\<close>

fun area_cause :: "string \<Rightarrow> string \<Rightarrow> nat \<Rightarrow> nat \<Rightarrow> LuksError \<Rightarrow> bool" where
  "area_cause mode h kb k (ImplausibleStripes s m b) \<longleftrightarrow> s = k \<and> m = MAX_STRIPES \<and> b = kb \<and> m < s"
| "area_cause mode h kb k (Unsupported what v) \<longleftrightarrow>
     what = ''cipher mode'' \<and> v = mode \<and> mode \<noteq> ''xts-plain64'' \<or>
     what = ''xts key size'' \<and> v = show_nat kb @ '' bytes'' \<and> kb \<noteq> 32 \<and> kb \<noteq> 64 \<or>
     what = ''hash'' \<and> v = h \<and> hash_of_name h = None"
| "area_cause mode h kb k _ \<longleftrightarrow> False"

text \<open>The keyslots of the two versions; a LUKS2 digest counts when it refers to the keyslot.\<close>

definition slot1_cause :: "(nat \<Rightarrow> instant) \<Rightarrow> Luks1Header \<Rightarrow> Keyslot \<Rightarrow> LuksError \<Rightarrow> bool" where
  "slot1_cause clk h slot e \<longleftrightarrow>
     pbkdf2_cause clk (hash_spec h) (iterations slot) (unat (key_bytes h)) e \<or>
     area_cause (cipher_mode h) (hash_spec h) (unat (key_bytes h)) (unat (stripes slot)) e \<or>
     pbkdf2_cause clk (hash_spec h) (mk_digest_iter h) 20 e"

definition slot2_cause :: "crypto_api \<Rightarrow> (nat \<Rightarrow> instant) \<Rightarrow> Luks2Header \<Rightarrow> bytes \<Rightarrow> Luks2Keyslot \<Rightarrow> LuksError \<Rightarrow> bool" where
  "slot2_cause C clk h pw slot e \<longleftrightarrow>
     kdf_cause C clk (kdf slot) pw (key_size slot) e \<or>
     area_cause (snd (split_encryption (area_encryption slot))) (af_hash slot) (key_size slot)
       (unat (af_stripes slot)) e \<or>
     (\<exists>dig \<in> set (digests h). slot_id slot \<in> set (digest_keyslots dig) \<and>
        pbkdf2_cause clk (digest_hash dig) (digest_iterations dig) (length (digest_value dig)) e)"

text \<open>The loops over the keyslots of the container \<open>img\<close>.\<close>

definition recover1_cause ::
  "crypto_api \<Rightarrow> (nat \<Rightarrow> instant) \<Rightarrow> duration \<Rightarrow> Luks1Header \<Rightarrow> bytes \<Rightarrow> bytes \<Rightarrow> LuksError \<Rightarrow> bool" where
  "recover1_cause C clk d h img pw e \<longleftrightarrow>
     e = AuthenticationFailed \<and> (\<forall>slot \<in> set (active_keyslots h). open_slot1 C h img pw slot = None) \<or>
     deadline_cause clk d (length (active_keyslots h)) e \<or>
     (\<exists>slot \<in> set (active_keyslots h). slot1_cause clk h slot e)"

definition recover2_cause ::
  "crypto_api \<Rightarrow> (nat \<Rightarrow> instant) \<Rightarrow> duration \<Rightarrow> Luks2Header \<Rightarrow> bytes \<Rightarrow> bytes \<Rightarrow> LuksError \<Rightarrow> bool" where
  "recover2_cause C clk d h img pw e \<longleftrightarrow>
     e = AuthenticationFailed \<and> (\<forall>slot \<in> set (keyslots2 h). open_slot2 C h img pw slot = None) \<or>
     deadline_cause clk d (length (keyslots2 h)) e \<or>
     (\<exists>slot \<in> set (keyslots2 h). slot2_cause C clk h pw slot e)"

text \<open>The entry point.\<close>

definition unlock_cause ::
  "crypto_api \<Rightarrow> 'n json_api \<Rightarrow> (nat \<Rightarrow> instant) \<Rightarrow> duration \<Rightarrow> bytes \<Rightarrow> bytes \<Rightarrow> LuksError \<Rightarrow> bool" where
  "unlock_cause C J clk d img pw e \<longleftrightarrow>
     (if length img < 8 then e = Io eof_error
      else if version_of img = 1 then
        (if length img < 592 then e = Io eof_error
         else case Header1.parse (take 592 img) of
           Ok h \<Rightarrow> if active_keyslots h = [] then e = NoActiveKeyslot else recover1_cause C clk d h img pw e
         | Err e' \<Rightarrow> e = e'
         | Panic _ \<Rightarrow> False)
      else if version_of img = 2 then
        (if length img < 4096 then e = Io eof_error
         else case parse2 J (hdr_area_of img) of
           Ok h \<Rightarrow> if crypt_segment h = None \<or> keyslots2 h = [] then e = NoActiveKeyslot
                   else recover2_cause C clk d h img pw e
         | Err e' \<Rightarrow> e = e'
         | Panic _ \<Rightarrow> False)
      else if take 6 img = LUKS_MAGIC then e = UnsupportedVersion (version_of img)
      else e = NotLuks (take 6 img))"

section \<open>Derivations\<close>

lemma over_allowanceI:
  "left \<le> DERIVATION_BUDGET \<Longrightarrow> left < f (calibration_time s) \<Longrightarrow>
   over_allowance (reading s) f (as_secs (f (calibration_time s))) (as_secs left)"
  unfolding over_allowance_def calibration_time_def by blast

lemma remaining_left: "remaining d t s = Some (Ok left, s') \<Longrightarrow> left \<le> DERIVATION_BUDGET"
  by (auto simp: remaining_value Let_def split: if_splits)

lemma remaining_late:
  assumes "remaining d t s = Some (Err e, s')" and "t < n" and "started d = reading s i"
  shows "deadline_cause (reading s) (total d) n e"
proof -
  have "e = UnlockBudgetExceeded t (as_secs (total d))" "total d \<le> reading s (tick s) - reading s i"
    using assms(1,3) by (auto simp: remaining_value Let_def not_less split: if_splits)
  with assms(2) show ?thesis by (simp only: deadline_cause.simps) blast
qed

lemma derive_key_refused:
  assumes "derive_key_within C h pw slt iters n left s = Some (Err e, s')" and "left \<le> DERIVATION_BUDGET"
  shows "pbkdf2_cause (reading s) h iters n e"
  using assms over_allowanceI [of left "\<lambda>d. pbkdf2_projection d (max iters 1)" s]
  by (auto simp: derive_key_value Let_def split: if_splits option.splits)

lemma argon2_run_refused:
  assumes "argon2_run C A p pw n t (replicate n 0) = Err e" and "argon2_of_name (kind p) = Some A" and "t = 1 \<or> t = time p"
  shows "argon2_cause C clk p pw n e"
  using assms by (auto simp: argon2_run_def split: option.splits sum.splits)

lemma derive_argon2_refused:
  assumes "derive_key_argon2_within C p pw n left s = Some (Err e, s')" and "left \<le> DERIVATION_BUDGET"
  shows "argon2_cause C (reading s) p pw n e"
proof (cases "argon2_of_name (kind p)")
  case (Some A)
  note run = assms(1) [unfolded derive_argon2_value Some option.case Let_def]
  show ?thesis
  proof (cases "MAX_KEY_BYTES < n \<or> MAX_ARGON2_MEMORY_KIB < memory p")
    case False
    with run argon2_run_refused [OF _ Some] assms(2) over_allowanceI [of left "\<lambda>d. argon2_projection d (time p)" s] show ?thesis
      by (auto split: if_splits outcome.splits)
  qed (use run in \<open>auto split: if_splits\<close>)
qed (use assms in \<open>auto simp: derive_argon2_value\<close>)

lemma derive_slot_key_refused:
  assumes "derive_slot_key C pw slot left s = Some (Err e, s')" and "left \<le> DERIVATION_BUDGET"
  shows "kdf_cause C (reading s) (kdf slot) pw (key_size slot) e"
  using assms derive_argon2_refused derive_key_refused
  by (auto simp: derive_slot_key_def kdf_cause_def split: Luks2Kdf.splits)


lemma bindR_eq_Err: "bindR m f = Err e \<longleftrightarrow> m = Err e \<or> (\<exists>x. m = Ok x \<and> f x = Err e)"
  by (cases m) auto

lemma mapR_no_Err: "(\<And>x e. f x \<noteq> Err e) \<Longrightarrow> mapR f xs \<noteq> Err e"
  by (induction xs) (auto simp: bindR_eq_Err)

lemma decrypt_units_no_Err: "decrypt_units dec buf n base step \<noteq> (Err e :: bytes res)"
proof -
  have "decrypt_unit dec base step uc \<noteq> Err e" for uc e
    by (cases uc) (auto simp: decrypt_unit_def bindR_eq_Err chk_mul_def chk_add_def split: if_splits)
  from mapR_no_Err [of "decrypt_unit dec base step", OF this] show ?thesis by (auto simp: decrypt_units_def bindR_eq_Err)
qed

text \<open>The steps of an area of a key that is not too long.\<close>

lemma area_refused:
  assumes "n \<le> MAX_KEY_BYTES"
  shows "material_len n k = Err e \<Longrightarrow> area_cause mode h n k e"
    and "xts_decrypt_area C mode key buf 512 0 = Err e \<Longrightarrow> length key = n \<Longrightarrow> area_cause mode h n k e"
    and "merge C h plain n k = Err e \<Longrightarrow> crypto_ok C \<Longrightarrow> area_cause mode h n k e"
proof -
  show "area_cause mode h n k e" if "material_len n k = Err e"
    using material_len_cases [OF assms, of k] that by (auto simp: material_len_def split: if_splits)
  show "area_cause mode h n k e" if "xts_decrypt_area C mode key buf 512 0 = Err e" "length key = n"
    using that decrypt_units_no_Err by (auto simp: xts_decrypt_area_def Let_def split: if_splits)
  show "area_cause mode h n k e" if "merge C h plain n k = Err e" "crypto_ok C"
  proof (cases "MAX_STRIPES < k")
    case False
    then have "area_fits n k" using material_len_cases [OF assms, of k] by blast
    then have "hash_of_name h = None" using merge_cases [OF that(2), of n k h plain] that(1) False by fastforce
    with that(1) False show ?thesis by (cases "hash_of_name h") (auto simp: merge_by_name)
  qed (use that in \<open>auto simp: merge_by_name\<close>)
qed

section \<open>The keyslot loops\<close>

context byte_reader
begin

lemma throws_clock:
  assumes "\<And>w. \<exists>x w'. m w = Some (x, w') \<and> clock_ahead w w'"
    and "\<And>w e w'. world_step w0 w \<Longrightarrow> m w = Some (Err e, w') \<Longrightarrow> P e"
  shows "throws (world_step w0) P m"
  unfolding throws_def
proof (intro allI impI)
  fix w x w' assume w: "world_step w0 w" "m w = Some (x, w')"
  then have "clock_ahead w w'" using assms(1) [of w] by auto
  then have "world_step w w'" by (rule world_step_clock [OF world_stepD(1) [OF w(1)]])
  with w assms(2) show "world_step w0 w' \<and> (\<forall>e. x = Err e \<longrightarrow> P e)" by (auto intro: world_step_trans)
qed

lemma throws_remaining:
  assumes "t < n" and "started dl = reading w0 i" and "\<And>e. deadline_cause (reading w0) (total dl) n e \<Longrightarrow> P e"
  shows "throws (world_step w0) P (remaining dl t)"
proof (rule throws_clock)
  fix w :: "'r world"
  show "\<exists>x w'. remaining dl t w = Some (x, w') \<and> clock_ahead w w'" by (simp add: remaining_value Let_def)
next
  fix w :: "'r world" and e w'
  assume w: "world_step w0 w" and "remaining dl t w = Some (Err e, w')"
  moreover have rd: "reading w = reading w0" using w by (simp add: world_step_def)
  ultimately show "P e" using remaining_late [of dl t w e w' n i] assms by simp
qed

lemma throws_derive_key:
  assumes "left \<le> DERIVATION_BUDGET" and "\<And>e. pbkdf2_cause (reading w0) h iters n e \<Longrightarrow> P e"
  shows "throws (world_step w0) P (derive_key_within C h pw slt iters n left)"
proof (rule throws_clock)
  fix w :: "'r world"
  show "\<exists>x w'. derive_key_within C h pw slt iters n left w = Some (x, w') \<and> clock_ahead w w'"
    using derive_key_returns by blast
next
  fix w :: "'r world" and e w'
  assume "world_step w0 w" and run: "derive_key_within C h pw slt iters n left w = Some (Err e, w')"
  then have "reading w = reading w0" by (simp add: world_step_def)
  then show "P e" using derive_key_refused [OF run assms(1)] assms(2) by simp
qed

lemma throws_slot_key:
  assumes "left \<le> DERIVATION_BUDGET" and "\<And>e. kdf_cause C (reading w0) (kdf slot) pw (key_size slot) e \<Longrightarrow> P e"
  shows "throws (world_step w0) P (derive_slot_key C pw slot left)"
proof (rule throws_clock)
  fix w :: "'r world"
  show "\<exists>x w'. derive_slot_key C pw slot left w = Some (x, w') \<and> clock_ahead w w'"
    by (cases rule: derive_slot_key_cases [of C slot pw left w]) auto
next
  fix w :: "'r world" and e w'
  assume "world_step w0 w" and run: "derive_slot_key C pw slot left w = Some (Err e, w')"
  then have "reading w = reading w0" by (simp add: world_step_def)
  then show "P e" using derive_slot_key_refused [OF run assms(1)] assms(2) by simp
qed

text \<open>Reading an area of key material raises no error of its own.\<close>

lemma throws_area_prog:
  assumes C: "crypto_ok C" and n: "n \<le> MAX_KEY_BYTES" "length key = n"
    and P: "\<And>e. area_cause mode h n k e \<Longrightarrow> P e"
    and "throws (world_step w0) P skip" and "\<And>mk. throws (world_step w0) P (go mk)"
  shows "throws (world_step w0) P (area_prog C R mode h key n k off skip go)"
  unfolding throws_def
proof (intro allI impI)
  fix w x w' assume w: "world_step w0 w" "area_prog C R mode h key n k off skip go w = Some (x, w')"
  show "world_step w0 w' \<and> (\<forall>e. x = Err e \<longrightarrow> P e)"
  proof (cases rule: material_len_cases [OF n(1), of k, case_names Ok Err])
    case (Err e)
    with w P area_refused(1) [OF n(1), of k e mode h] show ?thesis by (auto simp: area_prog_def)
  next
    case (Ok len)
    let ?mat = "take len (drop (unat off) (content (rd_state w)))"
    let ?rest = "bindM (liftR (xts_decrypt_area C mode key ?mat 512 0)) (\<lambda>plain. bindM (liftR (merge C h plain n k)) go)"
    obtain w1 where w1: "world_step w w1" "area_prog C R mode h key n k off skip go w = (if length ?mat < len then skip w1 else ?rest w1)"
      using area_prog_run [OF world_stepD(1) [OF w(1)] Ok(1), of C mode h key off skip go] Ok(2) by auto
    have "throws (world_step w0) P ?rest"
    proof (rule throws_bind_liftR)
      show "P e" if "xts_decrypt_area C mode key ?mat 512 0 = Err e" for e
        using area_refused(2) [OF n(1) that n(2)] by (rule P)
      show "throws (world_step w0) P (bindM (liftR (merge C h plain n k)) go)" for plain
      proof (rule throws_bind_liftR)
        show "P e" if "merge C h plain n k = Err e" for e using area_refused(3) [OF n(1) that C] by (rule P)
      qed (rule assms(6))
    qed
    moreover have "world_step w0 w1" using w(1) w1(1) by (rule world_step_trans)
    ultimately show ?thesis
      using w(2) w1(2) assms(5) unfolding throws_def by (cases "length ?mat < len") metis+
  qed
qed


text \<open>A derivation behind a check of the deadline, with what follows it.\<close>

lemma throws_timed:
  assumes "throws (world_step w0) P (remaining dl t)"
    and "\<And>left. left \<le> DERIVATION_BUDGET \<Longrightarrow> throws (world_step w0) P (m left)"
    and "\<And>left key (w :: 'r world) w'. m left w = Some (Ok key, w') \<Longrightarrow> throws (world_step w0) P (f key)"
  shows "throws (world_step w0) P (bindM (remaining dl t) (\<lambda>left. bindM (m left) f))"
  by (rule throws_bindM [OF assms(1)], rule throws_bindM) (use assms(2,3) remaining_left in blast)+

lemma recover_loop1_pass_throws:
  fixes w0 :: "'r world"
  assumes C: "crypto_ok C" and rem: "throws (world_step w0) P (remaining dl t)"
    and P: "\<And>e. slot1_cause (reading w0) h slot e \<Longrightarrow> P e"
    and skip: "throws (world_step w0) P (recover_loop1 C R h pw (unat (key_bytes h)) dl slots)"
  shows "throws (world_step w0) P (recover_loop1 C R h pw (unat (key_bytes h)) dl ((t, slot) # slots))"
proof -
  let ?kb = "unat (key_bytes h)" and ?off = "ucast (key_material_offset slot) * 512 :: u64"
  let ?go = "\<lambda>candidate. bindM (remaining dl t) (\<lambda>left2.
     bindM (derive_key_within C (hash_spec h) candidate (mk_digest_salt h) (mk_digest_iter h) MK_DIGEST_LEN left2)
       (\<lambda>dig. if dig = mk_digest h then ret candidate else recover_loop1 C R h pw ?kb dl slots))"
  let ?area = "\<lambda>key. area_prog C R (cipher_mode h) (hash_spec h) key ?kb (unat (stripes slot)) ?off
     (recover_loop1 C R h pw ?kb dl slots) ?go"
  have P': "P e" if "pbkdf2_cause (reading w0) (hash_spec h) (iterations slot) ?kb e \<or>
      area_cause (cipher_mode h) (hash_spec h) ?kb (unat (stripes slot)) e \<or>
      pbkdf2_cause (reading w0) (hash_spec h) (mk_digest_iter h) 20 e" for e
    using that P by (simp add: slot1_cause_def)
  have go: "throws (world_step w0) P (?go mk)" for mk
  proof (rule throws_timed [OF rem])
    show "throws (world_step w0) P (derive_key_within C (hash_spec h) mk (mk_digest_salt h) (mk_digest_iter h) MK_DIGEST_LEN left2)"
      if "left2 \<le> DERIVATION_BUDGET" for left2
      using that P' by (intro throws_derive_key) (auto simp: MK_DIGEST_LEN_def)
  qed (intro throws_if throws_ret skip)
  have "throws (world_step w0) P (bindM (remaining dl t) (\<lambda>left.
      bindM (derive_key_within C (hash_spec h) pw (salt slot) (iterations slot) ?kb left) ?area))"
  proof (rule throws_timed [OF rem])
    show "throws (world_step w0) P (derive_key_within C (hash_spec h) pw (salt slot) (iterations slot) ?kb left)"
      if "left \<le> DERIVATION_BUDGET" for left
      using that P' by (intro throws_derive_key) auto
    show "throws (world_step w0) P (?area key)"
      if "derive_key_within C (hash_spec h) pw (salt slot) (iterations slot) ?kb left w = Some (Ok key, w')" for left key and w w' :: "'r world"
      by (rule throws_area_prog [OF C derive_key_Ok(1) [OF that] derive_key_Ok_length [OF C that] P' skip go]) simp
  qed
  then show ?thesis by (simp add: area_prog_def sector_product)
qed

text \<open>The loops: a list of numbered slots, the numbers below \<open>n\<close>.\<close>

lemma keyslot_loop_throws:
  fixes loop :: "(usize \<times> 'k) list \<Rightarrow> ('r world, LuksError, bytes) prog"
  assumes "loop [] = fail AuthenticationFailed" and "P AuthenticationFailed"
    and "\<And>t k ks. t < n \<Longrightarrow> k \<in> set slots \<Longrightarrow> throws (world_step w0) P (loop ks) \<Longrightarrow>
      throws (world_step w0) P (loop ((t, k) # ks))"
    and "\<forall>(t, k) \<in> set ks. t < n \<and> k \<in> set slots"
  shows "throws (world_step w0) P (loop ks)"
  using assms(4) by (induction ks) (auto simp: assms(1-3) throws_fail)

lemma recover_master_key1_throws:
  fixes w0 :: "'r world"
  assumes C: "crypto_ok C" and dl: "started dl = reading w0 i"
  shows "throws (world_step w0) (\<lambda>e. e \<noteq> AuthenticationFailed \<longrightarrow>
      recover1_cause C (reading w0) (total dl) h img pw e) (recover_master_key1 C R h pw (unat (key_bytes h)) dl)"
  unfolding recover_master_key1_def
proof (rule keyslot_loop_throws [where slots = "active_keyslots h" and n = "length (active_keyslots h)"])
  show "throws (world_step w0) (\<lambda>e. e \<noteq> AuthenticationFailed \<longrightarrow> recover1_cause C (reading w0) (total dl) h img pw e)
      (recover_loop1 C R h pw (unat (key_bytes h)) dl ((t, k) # ks))"
    if "t < length (active_keyslots h)" "k \<in> set (active_keyslots h)"
      "throws (world_step w0) (\<lambda>e. e \<noteq> AuthenticationFailed \<longrightarrow> recover1_cause C (reading w0) (total dl) h img pw e)
        (recover_loop1 C R h pw (unat (key_bytes h)) dl ks)" for t k ks
    using that(2) by (intro recover_loop1_pass_throws [OF C throws_remaining [OF that(1) dl] _ that(3)])
      (auto simp: recover1_cause_def)
qed (auto simp: in_set_enumerate_eq fun_eq_iff)

lemma check_digests_throws:
  fixes w0 :: "'r world"
  assumes "throws (world_step w0) P (remaining dl t)"
    and "\<And>d e. d \<in> set ds \<Longrightarrow> sid \<in> set (digest_keyslots d) \<Longrightarrow>
      pbkdf2_cause (reading w0) (digest_hash d) (digest_iterations d) (length (digest_value d)) e \<Longrightarrow> P e"
  shows "throws (world_step w0) P (check_digests C dl t sid mk ds)"
  using assms(2)
proof (induction ds)
  case Nil
  then show ?case by (simp add: throws_def)
next
  case (Cons d ds)
  have IH: "throws (world_step w0) P (check_digests C dl t sid mk ds)" using Cons.prems by (intro Cons.IH) auto
  have "throws (world_step w0) P (bindM (remaining dl t) (\<lambda>left.
      bindM (derive_key_within C (digest_hash d) mk (digest_salt d) (digest_iterations d) (length (digest_value d)) left)
       (\<lambda>v. if v = digest_value d then ret True else check_digests C dl t sid mk ds)))"
    if "sid \<in> set (digest_keyslots d)"
    by (rule throws_timed [OF assms(1)]) (auto intro!: throws_derive_key Cons.prems [OF _ that] throws_ret IH)
  with IH show ?case by (auto simp: list_ex_iff)
qed


lemma recover_loop2_pass_throws:
  fixes w0 :: "'r world"
  assumes C: "crypto_ok C" and rem: "throws (world_step w0) P (remaining dl t)"
    and P: "\<And>e. slot2_cause C (reading w0) h pw slot e \<Longrightarrow> P e"
    and skip: "throws (world_step w0) P (recover_loop2 C R h pw dl slots)"
  shows "throws (world_step w0) P (recover_loop2 C R h pw dl ((t, slot) # slots))"
proof -
  let ?mode = "snd (split_encryption (area_encryption slot))"
  let ?go = "\<lambda>candidate. bindM (check_digests C dl t (slot_id slot) candidate (digests h)) (\<lambda>ok.
     if ok then ret candidate else recover_loop2 C R h pw dl slots)"
  let ?area = "\<lambda>key. area_prog C R ?mode (af_hash slot) key (key_size slot) (unat (af_stripes slot)) (area_offset slot)
     (recover_loop2 C R h pw dl slots) ?go"
  have P': "P e" if "kdf_cause C (reading w0) (kdf slot) pw (key_size slot) e \<or>
      area_cause ?mode (af_hash slot) (key_size slot) (unat (af_stripes slot)) e" for e
    using that P by (auto simp: slot2_cause_def)
  have "throws (world_step w0) P (check_digests C dl t (slot_id slot) mk (digests h))" for mk
    using P by (intro check_digests_throws [OF rem]) (auto simp: slot2_cause_def)
  then have go: "throws (world_step w0) P (?go mk)" for mk
    by (rule throws_bindM) (intro throws_if throws_ret skip)
  have "throws (world_step w0) P (bindM (remaining dl t) (\<lambda>left. bindM (derive_slot_key C pw slot left) ?area))"
  proof (rule throws_timed [OF rem])
    show "throws (world_step w0) P (derive_slot_key C pw slot left)" if "left \<le> DERIVATION_BUDGET" for left
      using that P' by (intro throws_slot_key) auto
    show "throws (world_step w0) P (?area key)"
      if "derive_slot_key C pw slot left w = Some (Ok key, w')" for left key and w w' :: "'r world"
    proof -
      have "key_size slot \<le> MAX_KEY_BYTES" "length key = key_size slot"
        using that by (cases rule: derive_slot_key_cases [of C slot pw left w]; auto simp: length_kdf_key [OF C])+
      then show ?thesis by (rule throws_area_prog [OF C _ _ P' skip go]) simp
    qed
  qed
  then show ?thesis by (simp add: area_prog_def Let_def)
qed

lemma recover_master_key2_throws:
  fixes w0 :: "'r world"
  assumes C: "crypto_ok C" and dl: "started dl = reading w0 i"
  shows "throws (world_step w0) (\<lambda>e. e \<noteq> AuthenticationFailed \<longrightarrow>
      recover2_cause C (reading w0) (total dl) h img pw e) (recover_master_key2 C R h pw dl)"
  unfolding recover_master_key2_def
proof (rule keyslot_loop_throws [where slots = "keyslots2 h" and n = "length (keyslots2 h)"])
  show "throws (world_step w0) (\<lambda>e. e \<noteq> AuthenticationFailed \<longrightarrow> recover2_cause C (reading w0) (total dl) h img pw e)
      (recover_loop2 C R h pw dl ((t, k) # ks))"
    if "t < length (keyslots2 h)" "k \<in> set (keyslots2 h)"
      "throws (world_step w0) (\<lambda>e. e \<noteq> AuthenticationFailed \<longrightarrow> recover2_cause C (reading w0) (total dl) h img pw e)
        (recover_loop2 C R h pw dl ks)" for t k ks
    using that(2) by (intro recover_loop2_pass_throws [OF C throws_remaining [OF that(1) dl] _ that(3)])
      (auto simp: recover2_cause_def)
qed (auto simp: in_set_enumerate_eq fun_eq_iff)


section \<open>The entry point\<close>

lemma recover1_error:
  fixes w :: "'r world"
  assumes C: "crypto_ok C" and inv: "inv (rd_state w)" and dl: "started dl = reading w i"
    and run: "recover_master_key1 C R h pw (unat (key_bytes h)) dl w = Some (Err e, w')"
  shows "recover1_cause C (reading w) (total dl) h (content (rd_state w)) pw e"
proof (cases "e = AuthenticationFailed")
  case True
  with recover_master_key1_spec [OF C inv, of h pw dl] run show ?thesis
    by (cases "first_open (open_slot1 C h (content (rd_state w)) pw) (active_keyslots h)")
      (auto simp: recover1_cause_def first_open_None)
next
  case False
  have "world_step w w" using inv by (intro world_step_clock) simp_all
  from throwsD [OF recover_master_key1_throws [OF C dl] this run] False show ?thesis by blast
qed

lemma recover2_error:
  fixes w :: "'r world"
  assumes C: "crypto_ok C" and inv: "inv (rd_state w)" and dl: "started dl = reading w i"
    and run: "recover_master_key2 C R h pw dl w = Some (Err e, w')"
  shows "recover2_cause C (reading w) (total dl) h (content (rd_state w)) pw e"
proof (cases "e = AuthenticationFailed")
  case True
  with recover_master_key2_spec [OF C inv, of h pw dl] run show ?thesis
    by (cases "first_open (open_slot2 C h (content (rd_state w)) pw) (keyslots2 h)")
      (auto simp: recover2_cause_def first_open_None)
next
  case False
  have "world_step w w" using inv by (intro world_step_clock) simp_all
  from throwsD [OF recover_master_key2_throws [OF C dl] this run] False show ?thesis by blast
qed

text \<open>The end of the run raises no error.\<close>

lemma finish_error:
  assumes "world_step w w1" and "m w = Some (x, w1)"
    and "bindM m (\<lambda>mk. bindM (with_reader (seek_to R (End 0))) (\<lambda>n. bindM the_reader (\<lambda>r. ret (f mk n r)))) w = Some (Err e, w')"
  shows "x = Err e"
proof (cases x)
  case (Ok mk)
  with assms(2,3) finish [OF world_stepD(1) [OF assms(1)], of "f mk"] show ?thesis by auto
qed (use assms(2,3) in auto)

lemma finish1_error:
  fixes w :: "'r world"
  assumes C: "crypto_ok C" and inv: "inv (rd_state w)" and dl: "started dl = reading w i"
    and run: "finish1 C pw dl h w = Some (Err e, w')"
  shows "if active_keyslots h = [] then e = NoActiveKeyslot
     else recover1_cause C (reading w) (total dl) h (content (rd_state w)) pw e"
proof (cases "active_keyslots h = []")
  case False
  obtain x w1 where rec: "recover_master_key1 C R h pw (unat (key_bytes h)) dl w = Some (x, w1)" "world_step w w1"
    using recover_master_key1_spec [OF C inv, of h pw dl] by blast
  have "bindM (recover_master_key1 C R h pw (unat (key_bytes h)) dl) (\<lambda>mk. bindM (with_reader (seek_to R (End 0)))
      (\<lambda>n. bindM the_reader (\<lambda>r. ret (payload1 h mk n r)))) w = Some (Err e, w')"
    using run False by (simp add: finish1_def)
  then have "x = Err e" by (rule finish_error [of w w1 "recover_master_key1 C R h pw (unat (key_bytes h)) dl", OF rec(2,1)])
  with rec(1) False recover1_error [OF C inv dl] show ?thesis by simp
qed (use run in \<open>simp add: finish1_def\<close>)

lemma finish2_error:
  fixes w :: "'r world"
  assumes C: "crypto_ok C" and inv: "inv (rd_state w)" and dl: "started dl = reading w i"
    and run: "finish2 C pw dl h w = Some (Err e, w')"
  shows "if crypt_segment h = None \<or> keyslots2 h = [] then e = NoActiveKeyslot
     else recover2_cause C (reading w) (total dl) h (content (rd_state w)) pw e"
proof (cases "crypt_segment h = None \<or> keyslots2 h = []")
  case False
  then obtain g where g: "crypt_segment h = Some g" "keyslots2 h \<noteq> []" by auto
  obtain x w1 where rec: "recover_master_key2 C R h pw dl w = Some (x, w1)" "world_step w w1"
    using recover_master_key2_spec [OF C inv, of h pw dl] by blast
  have "bindM (recover_master_key2 C R h pw dl) (\<lambda>mk. bindM (with_reader (seek_to R (End 0)))
      (\<lambda>n. bindM the_reader (\<lambda>r. ret (payload2 g mk n r)))) w = Some (Err e, w')"
    using run g by (simp add: finish2_def)
  then have "x = Err e" by (rule finish_error [of w w1 "recover_master_key2 C R h pw dl", OF rec(2,1)])
  with rec(1) g recover2_error [OF C inv dl] show ?thesis by simp
qed (use run in \<open>cases "crypt_segment h"; auto simp: finish2_def\<close>)

text \<open>The causes of the two versions, from the bytes of the container.\<close>

lemma unlock1_error:
  fixes w :: "'r world"
  assumes C: "crypto_ok C" and inv: "inv (rd_state w)" and v: "version_of (content (rd_state w)) = 1" "8 \<le> length (content (rd_state w))"
    and run: "unlock1_with_passphrase_within C R pw budget w = Some (Err e, w')"
  shows "unlock_cause C J (reading w) budget (content (rd_state w)) pw e"
proof -
  let ?dl = "\<lparr>started = reading w (tick w), total = budget\<rparr>" and ?w1 = "w\<lparr>tick := Suc (tick w)\<rparr>"
  let ?img = "content (rd_state w)"
  obtain w2 where w2: "world_step ?w1 w2" "Some (Err e, w') =
      (if length ?img < 592 then Some (Err (Io eof_error), w2)
       else bindM (liftR (Header1.parse (take 592 ?img))) (finish1 C pw ?dl) w2)"
    using unlock1_start [of ?w1 C pw ?dl] inv run by (auto simp: unlock1_with_passphrase_within_def deadline_run)
  have src: "inv (rd_state w2)" "content (rd_state w2) = ?img" "reading w2 = reading w"
    using w2(1) world_stepD [OF w2(1)] by (auto simp: world_step_def)
  show ?thesis
  proof (cases "Header1.parse (take 592 ?img)")
    case (Ok h)
    with w2(2) v finish1_error [OF C src(1), of ?dl "tick w" pw h e w'] src(2,3) show ?thesis
      by (auto simp: unlock_cause_def split: if_splits)
  qed (use w2(2) v in \<open>auto simp: unlock_cause_def split: if_splits\<close>)
qed

lemma unlock2_error:
  fixes w :: "'r world"
  assumes C: "crypto_ok C" and inv: "inv (rd_state w)" and v: "version_of (content (rd_state w)) = 2" "8 \<le> length (content (rd_state w))"
    and run: "unlock2_with_passphrase_within C J R pw budget w = Some (Err e, w')"
  shows "unlock_cause C J (reading w) budget (content (rd_state w)) pw e"
proof -
  let ?dl = "\<lparr>started = reading w (tick w), total = budget\<rparr>" and ?w1 = "w\<lparr>tick := Suc (tick w)\<rparr>"
  let ?img = "content (rd_state w)"
  obtain w2 where w2: "world_step ?w1 w2" "Some (Err e, w') =
      (if length ?img < 4096 then Some (Err (Io eof_error), w2)
       else if isize_MAX < hdr_size_of ?img then Some (Panic ''capacity overflow'', w2)
       else bindM (liftR (parse2 J (hdr_area_of ?img))) (finish2 C pw ?dl) w2)"
    using unlock2_start [of ?w1 C J pw ?dl] inv run by (auto simp: unlock2_with_passphrase_within_def deadline_run)
  have src: "inv (rd_state w2)" "content (rd_state w2) = ?img" "reading w2 = reading w"
    using w2(1) world_stepD [OF w2(1)] by (auto simp: world_step_def)
  show ?thesis
  proof (cases "parse2 J (hdr_area_of ?img)")
    case (Ok h)
    with w2(2) v finish2_error [OF C src(1), of ?dl "tick w" pw h e w'] src(2,3) show ?thesis
      by (auto simp: unlock_cause_def split: if_splits)
  qed (use w2(2) v in \<open>auto simp: unlock_cause_def split: if_splits\<close>)
qed

lemma unlock_error:
  fixes w :: "'r world"
  assumes C: "crypto_ok C" and inv: "inv (rd_state w)"
    and run: "unlock_with_passphrase_within C J R pw budget w = Some (Err e, w')"
  shows "unlock_cause C J (reading w) budget (content (rd_state w)) pw e"
proof -
  let ?img = "content (rd_state w)"
  obtain w1 where w1: "world_step w w1" "Some (Err e, w') =
     (if length ?img < 8 then Some (Err (Io eof_error), w1)
      else if version_of ?img = 1 then unlock1_with_passphrase_within C R pw budget w1
      else if version_of ?img = 2 then unlock2_with_passphrase_within C J R pw budget w1
      else if take 6 ?img = LUKS_MAGIC then Some (Err (UnsupportedVersion (version_of ?img)), w1)
      else Some (Err (NotLuks (take 6 ?img)), w1))"
    using dispatch [OF inv, of C J pw budget] run by auto
  have src: "inv (rd_state w1)" "content (rd_state w1) = ?img" "reading w1 = reading w"
    using w1(1) world_stepD [OF w1(1)] by (auto simp: world_step_def)
  note one = unlock1_error [OF C src(1), of pw budget e w' J, unfolded src(2,3)]
  note two = unlock2_error [OF C src(1), of J pw budget e w', unfolded src(2,3)]
  consider "length ?img < 8" | "8 \<le> length ?img" "version_of ?img = 1" | "8 \<le> length ?img" "version_of ?img = 2"
    | "8 \<le> length ?img" "version_of ?img \<noteq> 1" "version_of ?img \<noteq> 2" by linarith
  then show ?thesis
    by cases (use w1(2) one two in \<open>simp_all add: unlock_cause_def split: if_splits\<close>)
qed

end

end
