(* ===== verification/Test_Support.thy ===== *)
theory Test_Support
  imports Crypto Header2
begin

text \<open>
  What the unit tests of the crate are made of: assertions, \<open>unwrap\<close>, \<open>matches!\<close>, and buffers that
  are written field by field.  A test is a computation without a result; it passes when it is \<open>Ok ()\<close>,
  and a failed assertion is a \<open>Panic\<close>, as in the source.
\<close>

section \<open>Assertions\<close>

definition assert_that :: "bool \<Rightarrow> unit res" where
  "assert_that b = (if b then Ok () else Panic ''assertion failed'')"

text \<open>Several assertions, in order.\<close>

fun assert_all :: "bool list \<Rightarrow> unit res" where
  "assert_all [] = Ok ()"
| "assert_all (b # bs) = bindR (assert_that b) (\<lambda>_. assert_all bs)"

text \<open>\<open>Result::unwrap\<close> and \<open>expect\<close>, \<open>Result::unwrap_err\<close> and \<open>expect_err\<close>.\<close>

fun unwrap :: "'a res \<Rightarrow> 'a res" where
  "unwrap (Ok x) = Ok x"
| "unwrap (Err e) = Panic ''called `Result::unwrap()` on an `Err` value''"
| "unwrap (Panic q) = Panic q"

fun unwrap_err :: "'a res \<Rightarrow> LuksError res" where
  "unwrap_err (Ok x) = Panic ''called `Result::unwrap_err()` on an `Ok` value''"
| "unwrap_err (Err e) = Ok e"
| "unwrap_err (Panic q) = Panic q"

text \<open>\<open>assert!(matches!(m, Err(pattern)))\<close>, with the pattern as a predicate.\<close>

fun assert_err :: "(LuksError \<Rightarrow> bool) \<Rightarrow> 'a res \<Rightarrow> unit res" where
  "assert_err P (Ok x) = Panic ''assertion failed''"
| "assert_err P (Err e) = assert_that (P e)"
| "assert_err P (Panic q) = Panic q"

text \<open>\<open>Unsupported { what: w, .. }\<close>.\<close>

definition unsupported :: "string \<Rightarrow> LuksError \<Rightarrow> bool" where
  "unsupported w e \<longleftrightarrow> is_Unsupported e \<and> err_what e = w"

text \<open>\<open>vec[i]\<close> and \<open>Option::unwrap\<close>.\<close>

definition index_at :: "'a list \<Rightarrow> usize \<Rightarrow> 'a res" where
  "index_at xs i = (if i < length xs then Ok (xs ! i) else Panic ''index out of bounds'')"

fun unwrap_some :: "'a option \<Rightarrow> 'a res" where
  "unwrap_some (Some x) = Ok x"
| "unwrap_some None = Panic ''called `Option::unwrap()` on a `None` value''"

text \<open>A raw string literal that spans several lines.\<close>

definition lines_of :: "string list \<Rightarrow> string" where
  "lines_of ls = join [CHR 0x0A] ls"

lemma bytes_of_string_eq_iff [simp]: "bytes_of_string s = bytes_of_string t \<longleftrightarrow> s = t"
  by (metis string_of_bytes_of_string)

text \<open>\<open>str::contains\<close>.\<close>

definition contains :: "string \<Rightarrow> string \<Rightarrow> bool" where
  "contains s t \<longleftrightarrow> list_ex (\<lambda>i. take (length t) (drop i s) = t) [0..<Suc (length s)]"

lemma containsI: "contains (a @ t @ b) t"
  unfolding contains_def list_ex_iff by (rule bexI [of _ "length a"]) auto

lemma assert_that_Ok [simp]: "assert_that b = Ok () \<longleftrightarrow> b"
  by (simp add: assert_that_def)

lemma assert_that_True [simp]: "assert_that True = Ok ()"
  by simp

lemma assert_all_Ok [simp]: "assert_all bs = Ok () \<longleftrightarrow> list_all (\<lambda>b. b) bs"
  by (induction bs) (auto simp: outcome_simps)

declare assert_all.simps(2) [simp del]

lemma assert_all_True [simp]: "assert_all (True # bs) = assert_all bs"
  by (simp add: assert_all.simps(2))

text \<open>The same over the clock: a test is a program, which passes when it returns \<open>Ok ()\<close>.\<close>

definition on_result :: "('a res \<Rightarrow> 'b res) \<Rightarrow> ('s, LuksError, 'a) prog \<Rightarrow> ('s, LuksError, 'b) prog" where
  "on_result f m = (\<lambda>s. map_option (\<lambda>(x, s'). (f x, s')) (m s))"

definition passes :: "('s, LuksError, unit) prog \<Rightarrow> 's \<Rightarrow> bool" where
  "passes t s \<longleftrightarrow> (\<exists>s'. t s = Some (Ok (), s'))"

lemma on_result_run [simp]: "m s = Some (x, s') \<Longrightarrow> on_result f m s = Some (f x, s')"
  by (simp add: on_result_def)

lemma passesI: "t s = Some (Ok (), s') \<Longrightarrow> passes t s"
  by (auto simp: passes_def)

section \<open>Buffers\<close>

text \<open>\<open>buf[lo..hi].copy_from_slice(src)\<close>, one statement after the other.\<close>

fun writes :: "(usize \<times> usize \<times> bytes) list \<Rightarrow> bytes \<Rightarrow> bytes res" where
  "writes [] buf = Ok buf"
| "writes ((lo, hi, src) # ws) buf = bindR (copy_into buf lo hi src) (writes ws)"

text \<open>Fields that are written in ascending order into zeros are set between zeros.\<close>

fun spread :: "usize \<Rightarrow> (usize \<times> usize \<times> bytes) list \<Rightarrow> usize \<Rightarrow> bytes" where
  "spread at [] len = replicate (len - at) 0"
| "spread at ((lo, hi, src) # ws) len = replicate (lo - at) 0 @ src @ spread hi ws len"

fun ascending :: "usize \<Rightarrow> (usize \<times> usize \<times> bytes) list \<Rightarrow> usize \<Rightarrow> bool" where
  "ascending at [] len \<longleftrightarrow> at \<le> len"
| "ascending at ((lo, hi, src) # ws) len \<longleftrightarrow> at \<le> lo \<and> hi = lo + length src \<and> ascending hi ws len"

lemma ascending_le: "ascending at ws len \<Longrightarrow> at \<le> len"
  by (induction at ws len rule: ascending.induct) auto

lemma writes_spread_from:
  "ascending at ws len \<Longrightarrow> length pre = at \<Longrightarrow>
   writes ws (pre @ replicate (len - at) 0) = Ok (pre @ spread at ws len)"
proof (induction at ws len arbitrary: pre rule: spread.induct)
  case (2 at lo hi src ws len)
  then have le: "at \<le> lo" "hi = lo + length src" "hi \<le> len" by (auto dest: ascending_le)
  have "copy_into (pre @ replicate (len - at) 0) lo hi src =
      (Ok ((pre @ replicate (lo - at) 0 @ src) @ replicate (len - hi) 0) :: bytes res)"
    using le "2.prems"(2) by (simp add: copy_into_def)
  moreover have "writes ws ((pre @ replicate (lo - at) 0 @ src) @ replicate (len - hi) 0) =
      Ok ((pre @ replicate (lo - at) 0 @ src) @ spread hi ws len)"
    using "2.prems" le by (intro "2.IH") auto
  ultimately show ?case by simp
qed simp

lemma writes_spread: "ascending 0 ws len \<Longrightarrow> writes ws (replicate len 0) = Ok (spread 0 ws len)"
  using writes_spread_from [of 0 ws len "[]"] by simp

lemma length_spread: "ascending at ws len \<Longrightarrow> length (spread at ws len) = len - at"
proof (induction at ws len rule: spread.induct)
  case (2 at lo hi src ws len)
  then show ?case using ascending_le [of hi ws len] by auto
qed simp

lemma spread_longer:
  "ascending at ws m \<Longrightarrow> m \<le> n \<Longrightarrow> spread at ws n = spread at ws m @ replicate (n - m) 0"
  by (induction at ws m rule: spread.induct) (simp_all add: replicate_add [symmetric])

end
