(* ===== verification/Tests_Headers.thy ===== *)
theory Tests_Headers
  imports Test_Support
begin

text \<open>
  The unit tests of \<^verbatim>\<open>core/src/bytes.rs\<close>, \<^verbatim>\<open>core/src/header.rs\<close> and \<^verbatim>\<open>core/src/header2.rs\<close>, one
  definition per test.
\<close>

section \<open>Byte readers\<close>

definition be_readers_bounds_check :: "unit res" where
  "be_readers_bounds_check =
     (let d = [0x00, 0x01, 0x00, 0x00, 0x00, 0x2a] in
      bindR (be_u16 d 0) (\<lambda>a.
      bindR (be_u32 d 2) (\<lambda>b.
      bindR (be_u16 d 100) (\<lambda>c.
      bindR (be_u32 d 100) (\<lambda>e.
      assert_all [a = 1, b = 42, c = 0, e = 0])))))"

definition bytes_n_and_cstr :: "unit res" where
  "bytes_n_and_cstr =
     (let d = bytes_of_string ''aes'' @ [0, 0, 0, 0, 0] @ bytes_of_string ''rest'' in
      bindR (cstr d 0 8) (\<lambda>a.
      bindR (bytes_n 3 d 0) (\<lambda>b.
      bindR (bytes_n 4 d 100) (\<lambda>c.
      bindR (cstr d 100 8) (\<lambda>e.
      assert_all [a = ''aes'', b = bytes_of_string ''aes'', c = replicate 4 0, e = []])))))"

section \<open>The LUKS1 header\<close>

text \<open>\<open>build_header\<close>: one active and one disabled keyslot, the others zero.\<close>

definition header_writes :: "(usize \<times> usize \<times> bytes) list" where
  "header_writes =
     (let b = 208; b1 = 208 + KEYSLOT_LEN in
      [(0, 6, LUKS_MAGIC), (6, 8, to_be_bytes 2 (1 :: u16)), (8, 11, bytes_of_string ''aes''),
       (40, 51, bytes_of_string ''xts-plain64''), (72, 78, bytes_of_string ''sha256''),
       (104, 108, to_be_bytes 4 (4096 :: u32)), (108, 112, to_be_bytes 4 (64 :: u32)),
       (112, 132, replicate 20 0xAB), (132, 164, replicate 32 0xCD), (164, 168, to_be_bytes 4 (1000 :: u32)),
       (168, 204, bytes_of_string ''b22690e1-a392-4ecc-83b1-c1cf21200116''),
       (b, b + 4, to_be_bytes 4 KEY_ENABLED), (b + 4, b + 8, to_be_bytes 4 (50000 :: u32)),
       (b + 8, b + 40, replicate 32 0x11), (b + 40, b + 44, to_be_bytes 4 (8 :: u32)),
       (b + 44, b + 48, to_be_bytes 4 (4000 :: u32)),
       (b1, b1 + 4, to_be_bytes 4 KEY_DISABLED)])"

definition build_header1 :: "bytes res" where
  "build_header1 = writes header_writes (replicate LUKS1_PHDR_LEN 0)"

definition parses_luks1_header_fields :: "unit res" where
  "parses_luks1_header_fields =
     bindR build_header1 (\<lambda>d.
     bindR (unwrap (Header1.parse d)) (\<lambda>h.
     bindR (payload_byte_offset h) (\<lambda>off.
     assert_all
       [version h = 1, cipher_name h = ''aes'', cipher_mode h = ''xts-plain64'', hash_spec h = ''sha256'',
        payload_offset h = 4096, off = 4096 * 512, key_bytes h = 64, mk_digest h = replicate 20 0xAB,
        mk_digest_salt h = replicate 32 0xCD, mk_digest_iter h = 1000,
        uuid h = ''b22690e1-a392-4ecc-83b1-c1cf21200116''])))"

definition parses_keyslots_and_active_filter :: "unit res" where
  "parses_keyslots_and_active_filter =
     bindR build_header1 (\<lambda>d.
     bindR (unwrap (Header1.parse d)) (\<lambda>h.
     assert_all
       [is_active (keyslots h ! 0), iterations (keyslots h ! 0) = 50000, salt (keyslots h ! 0) = replicate 32 0x11,
        key_material_offset (keyslots h ! 0) = 8, stripes (keyslots h ! 0) = 4000,
        \<not> is_active (keyslots h ! 1), is_disabled (keyslots h ! 1), length (active_keyslots h) = 1]))"

definition rejects_non_luks :: "unit res" where
  "rejects_non_luks =
     bindR (unwrap_err (Header1.parse (replicate LUKS1_PHDR_LEN 0))) (\<lambda>err. assert_that (is_NotLuks err))"

definition rejects_bad_version :: "unit res" where
  "rejects_bad_version =
     bindR build_header1 (\<lambda>h.
     bindR (copy_into h 6 8 (to_be_bytes 2 (9 :: u16))) (\<lambda>h.
     bindR (unwrap_err (Header1.parse h)) (\<lambda>err. assert_that (err = UnsupportedVersion 9))))"

definition rejects_truncated :: "unit res" where
  "rejects_truncated =
     bindR build_header1 (\<lambda>h.
     bindR (unwrap_err (Header1.parse (take 100 h))) (\<lambda>err. assert_that (is_MalformedHeader err)))"

section \<open>They pass\<close>

lemma reader_tests: "be_readers_bounds_check = Ok ()" "bytes_n_and_cstr = Ok ()"
proof -
  show "be_readers_bounds_check = Ok ()"
    by (simp add: be_readers_bounds_check_def be16.read_default be32.read_default reader_values)
      (simp add: from_be_bytes_def)
  have pad: "bytes_of_string ''aes'' @ [0, 0, 0, 0, 0] = pad_field 8 ''aes''" by (simp add: pad_field_def numeral_eq_Suc)
  have "cstr (pad_field 8 ''aes'' @ bytes_of_string ''rest'') 0 8 = Ok ''aes''"
    by (rule str.read_front) (simp_all add: text_fits_def is_ascii_def)
  then have "cstr (bytes_of_string ''aes'' @ [0, 0, 0, 0, 0] @ bytes_of_string ''rest'') 0 8 = Ok ''aes''"
    using pad by (metis append.assoc)
  then show "bytes_n_and_cstr = Ok ()"
    by (simp add: bytes_n_and_cstr_def bytes_n_value raw.read_default str.read_default Let_def)
qed


definition header_bytes :: bytes where
  "header_bytes = spread 0 header_writes 592"

lemma build_header1_bytes: "build_header1 = Ok header_bytes" "length header_bytes = 592"
  "take 6 header_bytes = LUKS_MAGIC"
proof -
  have "ascending 0 header_writes 592" by (simp add: header_writes_def header1_consts)
  then show "build_header1 = Ok header_bytes"
    by (simp add: build_header1_def header_bytes_def LUKS1_PHDR_LEN_def writes_spread)
  show "length header_bytes = 592" "take 6 header_bytes = LUKS_MAGIC"
    by (simp_all add: header_bytes_def header_writes_def header1_consts)
qed

lemma header_bytes_fields:
  "version (header_at header_bytes) = 1" "cipher_name (header_at header_bytes) = ''aes''"
  "cipher_mode (header_at header_bytes) = ''xts-plain64''" "hash_spec (header_at header_bytes) = ''sha256''"
  "payload_offset (header_at header_bytes) = 4096" "key_bytes (header_at header_bytes) = 64"
  "mk_digest (header_at header_bytes) = replicate 20 0xAB" "mk_digest_salt (header_at header_bytes) = replicate 32 0xCD"
  "mk_digest_iter (header_at header_bytes) = 1000"
  "uuid (header_at header_bytes) = ''b22690e1-a392-4ecc-83b1-c1cf21200116''"
  by (simp_all add: header_at_def header_bytes_def header_writes_def header1_consts text_at_def takeWhile_pad
      from_utf8_lossy_ascii is_ascii_def)

lemma header_bytes_slots:
  "slot_at header_bytes 208 = \<lparr>active = KEY_ENABLED, iterations = 50000, salt = replicate 32 0x11,
     key_material_offset = 8, stripes = 4000\<rparr>"
  "active (slot_at header_bytes 256) = KEY_DISABLED"
  "active (slot_at header_bytes 304) = 0" "active (slot_at header_bytes 352) = 0" "active (slot_at header_bytes 400) = 0"
  "active (slot_at header_bytes 448) = 0" "active (slot_at header_bytes 496) = 0" "active (slot_at header_bytes 544) = 0"
  by (simp_all add: slot_at_def header_bytes_def header_writes_def header1_consts)

lemma header_bytes_active: "active_keyslots (header_at header_bytes) = [slot_at header_bytes 208]"
  by (simp add: active_keyslots_def header_at_def is_active_def header_bytes_slots KEY_ENABLED_def KEY_DISABLED_def upt_rec)

lemma header_tests:
  "parses_luks1_header_fields = Ok ()" "parses_keyslots_and_active_filter = Ok ()"
  "rejects_non_luks = Ok ()" "rejects_bad_version = Ok ()" "rejects_truncated = Ok ()"
proof -
  have parse: "Header1.parse header_bytes = Ok (header_at header_bytes)"
    using build_header1_bytes(2,3) header_bytes_fields(1) by (simp add: parse_value)
  show "parses_luks1_header_fields = Ok ()"
    by (simp add: parses_luks1_header_fields_def build_header1_bytes parse payload_byte_offset_def sector_product header_bytes_fields)
  have "keyslots (header_at header_bytes) ! 0 = slot_at header_bytes 208" "keyslots (header_at header_bytes) ! 1 = slot_at header_bytes 256"
    by (simp_all add: header_at_def)
  then show "parses_keyslots_and_active_filter = Ok ()"
    by (simp add: parses_keyslots_and_active_filter_def build_header1_bytes parse header_bytes_active header_bytes_slots
        is_active_def is_disabled_def KEY_ENABLED_def KEY_DISABLED_def)
  show "rejects_non_luks = Ok ()" by (simp add: rejects_non_luks_def parse_value header1_consts)
  show "rejects_truncated = Ok ()"
    using build_header1_bytes(2,3) by (simp add: rejects_truncated_def build_header1_bytes(1) parse_value)
  let ?h = "take 6 header_bytes @ to_be_bytes 2 (9 :: u16) @ drop 8 header_bytes"
  have "length ?h = 592" "take 6 ?h = LUKS_MAGIC" "version (header_at ?h) = 9"
    using build_header1_bytes(2,3) by (simp_all add: header_at_def)
  then have "Header1.parse ?h = Err (UnsupportedVersion 9)" by (simp add: parse_value)
  then show "rejects_bad_version = Ok ()"
    by (simp add: rejects_bad_version_def build_header1_bytes copy_into_Ok)
qed

section \<open>The LUKS2 header\<close>

text \<open>The texts of the tests.\<close>

definition KDF_SALT :: string where
  "KDF_SALT = ''pUcL4RKUCh/iGgNoo6PW95eKTZm6RsS4Ds7Kn4gCdVs=''"

definition DIGEST_SALT :: string where
  "DIGEST_SALT = ''IUaJeXA4vB2CruGetgh6GOlfgvB2WoD2UzWGb2K6KLc=''"

definition DIGEST_TEXT :: string where
  "DIGEST_TEXT = ''yqVonIxK8BFwHFIsUaacNsXcz65r6EnYBVgF2fDPgps=''"

definition ORACLE_JSON :: string where
  \<open>ORACLE_JSON = lines_of
     [''{'',
      ''      "keyslots":{"0":{"type":"luks2","key_size":64,'',
      ''        "af":{"type":"luks1","stripes":4000,"hash":"sha256"},'',
      ''        "area":{"type":"raw","offset":"32768","size":"258048","encryption":"aes-xts-plain64","key_size":64},'',
      ''        "kdf":{"type":"argon2id","time":4,"memory":32,"cpus":1,"salt":"'' @ KDF_SALT @ ''"}}},'',
      ''      "segments":{"0":{"type":"crypt","offset":"16777216","size":"dynamic","iv_tweak":"0","encryption":"aes-xts-plain64","sector_size":4096}},'',
      ''      "digests":{"0":{"type":"pbkdf2","keyslots":["0"],"segments":["0"],"hash":"sha256","iterations":1000,'',
      ''        "salt":"'' @ DIGEST_SALT @ ''","digest":"'' @ DIGEST_TEXT @ ''"}}}'']\<close>

definition PBKDF2_JSON :: string where
  \<open>PBKDF2_JSON = lines_of
     [''{"keyslots":{"0":{"key_size":32,'',
      ''          "af":{"stripes":4000,"hash":"sha1"},'',
      ''          "area":{"offset":"32768","size":"128000","encryption":"aes-xts-plain64"},'',
      ''          "kdf":{"type":"pbkdf2","hash":"sha256","iterations":50000,"salt":"'' @ DIGEST_SALT @ ''"}}},'',
      ''          "segments":{},"digests":{}}'']\<close>

definition BOOL_JSON :: string where
  \<open>BOOL_JSON = lines_of
     [''{"keyslots":{"0":{"key_size":true,'',
      ''          "af":{"stripes":4000,"hash":"sha256"},'',
      ''          "area":{"offset":"32768","size":"128000","encryption":"aes-xts-plain64"},'',
      ''          "kdf":{"type":"pbkdf2","hash":"sha256","iterations":5,"salt":"AAAA"}}},'',
      ''          "segments":{},"digests":{}}'']\<close>

definition SCRYPT_JSON :: string where
  \<open>SCRYPT_JSON = lines_of
     [''{"keyslots":{"0":{"key_size":64,'',
      ''          "af":{"stripes":4000,"hash":"sha256"},'',
      ''          "area":{"offset":"32768","size":"128000","encryption":"aes-xts-plain64"},'',
      ''          "kdf":{"type":"scrypt","salt":"AAAA"}}},'',
      ''          "segments":{},"digests":{}}'']\<close>

definition parses_luks2_keyslot_segment_digest :: "'n json_api \<Rightarrow> unit res" where
  "parses_luks2_keyslot_segment_digest J =
     bindR (bindR (build_luks2 (bytes_of_string ORACLE_JSON)) (\<lambda>b. unwrap (parse2 J b))) (\<lambda>h.
     bindR (assert_all [version2 h = 2, length (keyslots2 h) = 1]) (\<lambda>_.
     bindR (index_at (keyslots2 h) 0) (\<lambda>k.
     bindR (assert_all [key_size k = 64, af_stripes k = 4000, area_offset k = 32768,
              area_encryption k = ''aes-xts-plain64'']) (\<lambda>_.
     bindR (case kdf k of
              Argon2 knd t m c slt \<Rightarrow> assert_all [knd = ''argon2id'', (t, m, c) = (4, 32, 1), length slt = 32]
            | Pbkdf2 _ _ _ \<Rightarrow> Panic ''expected argon2id'') (\<lambda>_.
     bindR (unwrap_some (crypt_segment h)) (\<lambda>seg.
     bindR (assert_all [segment_offset seg = 16777216, segment_sector_size seg = 4096, iv_tweak seg = 0,
              length (digests h) = 1]) (\<lambda>_.
     bindR (index_at (digests h) 0) (\<lambda>d.
     assert_all [digest_kind d = ''pbkdf2'', length (digest_value d) = 32, digest_keyslots d = [''0'']]))))))))"

definition rejects_non_luks2 :: "'n json_api \<Rightarrow> unit res" where
  "rejects_non_luks2 J =
     bindR (unwrap_err (parse2 J (replicate 5000 0))) (\<lambda>err. assert_that (is_NotLuks err))"

definition rejects_wrong_version :: "'n json_api \<Rightarrow> unit res" where
  "rejects_wrong_version J =
     bindR (build_luks2 (bytes_of_string ORACLE_JSON)) (\<lambda>b.
     bindR (copy_into b 6 8 (to_be_bytes 2 (1 :: u16))) (\<lambda>b.
     bindR (unwrap_err (parse2 J b)) (\<lambda>err. assert_that (err = UnsupportedVersion 1))))"

definition rejects_bad_json :: "'n json_api \<Rightarrow> unit res" where
  "rejects_bad_json J =
     bindR (build_luks2 (bytes_of_string ''{not valid json'')) (\<lambda>b.
     bindR (unwrap_err (parse2 J b)) (\<lambda>err. assert_that (is_MalformedHeader err)))"

definition parses_pbkdf2_keyslot_variant :: "'n json_api \<Rightarrow> unit res" where
  "parses_pbkdf2_keyslot_variant J =
     bindR (bindR (build_luks2 (bytes_of_string PBKDF2_JSON)) (\<lambda>b. unwrap (parse2 J b))) (\<lambda>h.
     bindR (index_at (keyslots2 h) 0) (\<lambda>k.
     case kdf k of
       Pbkdf2 hsh iters slt \<Rightarrow> assert_all [hsh = ''sha256'', iters = 50000, length slt = 32]
     | Argon2 _ _ _ _ _ \<Rightarrow> Panic ''expected pbkdf2''))"

definition as_u64_non_numeric_field_defaults_zero :: "'n json_api \<Rightarrow> unit res" where
  "as_u64_non_numeric_field_defaults_zero J =
     bindR (bindR (build_luks2 (bytes_of_string BOOL_JSON)) (\<lambda>b. unwrap (parse2 J b))) (\<lambda>h.
     bindR (assert_that (length (keyslots2 h) = 1)) (\<lambda>_.
     bindR (index_at (keyslots2 h) 0) (\<lambda>k.
     assert_that (key_size k = 0))))"

definition unknown_kdf_type_drops_keyslot :: "'n json_api \<Rightarrow> unit res" where
  "unknown_kdf_type_drops_keyslot J =
     bindR (bindR (build_luks2 (bytes_of_string SCRYPT_JSON)) (\<lambda>b. unwrap (parse2 J b))) (\<lambda>h.
     assert_that (keyslots2 h = []))"

text \<open>
  The documents of the texts, and what the tests rely on: the JSON crate parses each text to its
  document and refuses the malformed one, a number is read back, and the base64 crate decodes the
  texts of 44 characters, one of them padding, to 32 bytes.
\<close>

definition pbkdf2_doc :: "(nat \<Rightarrow> 'n) \<Rightarrow> string \<Rightarrow> nat \<Rightarrow> string \<Rightarrow> 'n Value" where
  "pbkdf2_doc num h iters slt =
     Object [(''hash'', String h), (''iterations'', Number (num iters)), (''salt'', String slt), (''type'', String ''pbkdf2'')]"

definition slot_doc :: "'n Value \<Rightarrow> string \<Rightarrow> (nat \<Rightarrow> 'n) \<Rightarrow> 'n Value \<Rightarrow> 'n Value" where
  "slot_doc ks h num kdf_doc =
     Object [(''digests'', Object []),
       (''keyslots'', Object [(''0'', Object [
         (''af'', Object [(''hash'', String h), (''stripes'', Number (num 4000))]),
         (''area'', Object [(''encryption'', String ''aes-xts-plain64''), (''offset'', String ''32768''), (''size'', String ''128000'')]),
         (''kdf'', kdf_doc), (''key_size'', ks)])]),
       (''segments'', Object [])]"

definition oracle_doc :: "(nat \<Rightarrow> 'n) \<Rightarrow> 'n Value" where
  "oracle_doc num =
     Object [(''digests'', Object [(''0'', Object [(''digest'', String DIGEST_TEXT), (''hash'', String ''sha256''),
         (''iterations'', Number (num 1000)), (''keyslots'', Array [String ''0'']), (''salt'', String DIGEST_SALT),
         (''segments'', Array [String ''0'']), (''type'', String ''pbkdf2'')])]),
       (''keyslots'', Object [(''0'', Object [
         (''af'', Object [(''hash'', String ''sha256''), (''stripes'', Number (num 4000)), (''type'', String ''luks1'')]),
         (''area'', Object [(''encryption'', String ''aes-xts-plain64''), (''key_size'', Number (num 64)),
            (''offset'', String ''32768''), (''size'', String ''258048''), (''type'', String ''raw'')]),
         (''kdf'', Object [(''cpus'', Number (num 1)), (''memory'', Number (num 32)), (''salt'', String KDF_SALT),
            (''time'', Number (num 4)), (''type'', String ''argon2id'')]),
         (''key_size'', Number (num 64)), (''type'', String ''luks2'')])]),
       (''segments'', Object [(''0'', Object [(''encryption'', String ''aes-xts-plain64''), (''iv_tweak'', String ''0''),
         (''offset'', String ''16777216''), (''sector_size'', Number (num 4096)), (''size'', String ''dynamic''),
         (''type'', String ''crypt'')])])]"

definition header2_texts :: "(nat \<Rightarrow> 'n) \<Rightarrow> (string \<times> 'n Value) list" where
  "header2_texts num =
     [(ORACLE_JSON, oracle_doc num),
      (PBKDF2_JSON, slot_doc (Number (num 32)) ''sha1'' num (pbkdf2_doc num ''sha256'' 50000 DIGEST_SALT)),
      (BOOL_JSON, slot_doc (Bool True) ''sha256'' num (pbkdf2_doc num ''sha256'' 5 ''AAAA'')),
      (SCRYPT_JSON, slot_doc (Number (num 64)) ''sha256'' num (Object [(''salt'', String ''AAAA''), (''type'', String ''scrypt'')]))]"

text \<open>The documents are in the order of the JSON crate.\<close>

lemma header2_texts_ordered: "list_all (\<lambda>(s, doc). value_ok doc) (header2_texts num)"
  by (simp add: header2_texts_def oracle_doc_def slot_doc_def pbkdf2_doc_def less_list_code less_char_def)

definition header2_texts_ok :: "'n json_api \<Rightarrow> (nat \<Rightarrow> 'n) \<Rightarrow> bool" where
  "header2_texts_ok J num \<longleftrightarrow>
     list_all (\<lambda>(s, doc). from_slice J (bytes_of_string s) = Some doc) (header2_texts num) \<and>
     from_slice J (bytes_of_string ''{not valid json'') = None \<and>
     (\<forall>n. n \<le> u64_MAX \<longrightarrow> number_as_u64 J (num n) = Some (of_nat n)) \<and>
     (\<forall>t \<in> {KDF_SALT, DIGEST_SALT, DIGEST_TEXT}. \<exists>bs. b64_decode J t = Some bs \<and> length bs = 32)"

lemmas header2_text_defs = lines_of_def ORACLE_JSON_def PBKDF2_JSON_def BOOL_JSON_def SCRYPT_JSON_def
  KDF_SALT_def DIGEST_SALT_def DIGEST_TEXT_def

text \<open>The texts fit into the area and have no zero byte.\<close>

lemma ascii_text_ok:
  assumes "length s \<le> n" and "CHR 0x00 \<notin> set s"
  shows "json_text_ok n (bytes_of_string s)"
  using assms by (auto simp: json_text_ok_def bytes_of_string_def zero_byte_of_char)

lemma header2_texts_fit:
  "json_text_ok 12288 (bytes_of_string ORACLE_JSON)" "json_text_ok 12288 (bytes_of_string PBKDF2_JSON)"
  "json_text_ok 12288 (bytes_of_string BOOL_JSON)" "json_text_ok 12288 (bytes_of_string SCRYPT_JSON)"
  "json_text_ok 12288 (bytes_of_string ''{not valid json'')"
  by (intro ascii_text_ok; simp add: header2_text_defs)+

lemma build_luks2_text: "json_text_ok 12288 json \<Longrightarrow> build_luks2 json = Ok (luks2_area 12288 json)"
  by (simp add: build_luks2_def json_text_ok_def)

lemma build_luks2_parses:
  assumes "json_text_ok 12288 json" and "from_slice J json = Some doc"
  shows "bindR (build_luks2 json) (\<lambda>b. unwrap (parse2 J b)) = Ok (header2_of J 16384 doc)"
  using parse2_area [OF assms(1) _ assms(2)] by (simp add: build_luks2_text [OF assms(1)])

lemma texts_decode:
  assumes "json_ok J" and "header2_texts_ok J num" and "t \<in> {KDF_SALT, DIGEST_SALT, DIGEST_TEXT}"
  shows "length (b64 J (String t)) = 32"
  using assms by (auto simp: b64_def json_okD header2_texts_ok_def)

lemmas doc_reads = header2_of_def entries_def json_okD get_str_def parse_keyslot_def parse_kdf_def parse_segment_def
  parse_digest_def List.map_filter_simps

lemma number_reads:
  "header2_texts_ok J num \<Longrightarrow> n \<le> u64_MAX \<Longrightarrow> as_u64 J (Number (num n)) = of_nat n"
  by (simp add: header2_texts_ok_def)

lemma show_nat_values:
  "show_nat 32768 = ''32768''" "show_nat 128000 = ''128000''" "show_nat 258048 = ''258048''"
  "show_nat 16777216 = ''16777216''" "show_nat 0 = ''0''"
  by (simp_all add: show_nat_def digits_rev.simps char_of_def bit_0)

lemma decimal_reads:
  "as_u64 J (String ''32768'') = 32768" "as_u64 J (String ''128000'') = 128000" "as_u64 J (String ''258048'') = 258048"
  "as_u64 J (String ''16777216'') = 16777216" "as_u64 J (String ''0'') = 0"
  using as_u64_num [of 32768 J] as_u64_num [of 128000 J] as_u64_num [of 258048 J] as_u64_num [of 16777216 J] as_u64_num [of 0 J]
  by (simp_all add: json_num_def show_nat_values)

lemma header2_tests:
  assumes J: "json_ok J" and num: "header2_texts_ok J num"
  shows "parses_luks2_keyslot_segment_digest J = Ok ()" "rejects_non_luks2 J = Ok ()" "rejects_wrong_version J = Ok ()"
    "rejects_bad_json J = Ok ()" "parses_pbkdf2_keyslot_variant J = Ok ()"
    "as_u64_non_numeric_field_defaults_zero J = Ok ()" "unknown_kdf_type_drops_keyslot J = Ok ()"
proof -
  note texts = num [unfolded header2_texts_ok_def header2_texts_def, simplified] and fit = header2_texts_fit
  note reads = doc_reads number_reads [OF num] decimal_reads texts_decode [OF J num] J index_at_def
  have 1: "bindR (build_luks2 (bytes_of_string ORACLE_JSON)) (\<lambda>b. unwrap (parse2 J b)) = Ok (header2_of J 16384 (oracle_doc num))"
    using texts by (intro build_luks2_parses fit) simp
  show "parses_luks2_keyslot_segment_digest J = Ok ()"
    by (simp add: parses_luks2_keyslot_segment_digest_def 1 oracle_doc_def reads crypt_segment_def del: as_u64.simps)
  show "parses_pbkdf2_keyslot_variant J = Ok ()"
    using build_luks2_parses [OF fit(2), of J] texts
    by (simp add: parses_pbkdf2_keyslot_variant_def slot_doc_def pbkdf2_doc_def reads del: as_u64.simps)
  show "as_u64_non_numeric_field_defaults_zero J = Ok ()"
    using build_luks2_parses [OF fit(3), of J] texts
    by (simp add: as_u64_non_numeric_field_defaults_zero_def slot_doc_def pbkdf2_doc_def reads)
  show "unknown_kdf_type_drops_keyslot J = Ok ()"
    using build_luks2_parses [OF fit(4), of J] texts
    by (simp add: unknown_kdf_type_drops_keyslot_def slot_doc_def pbkdf2_doc_def reads)
  show "rejects_non_luks2 J = Ok ()" by (simp add: rejects_non_luks2_def parse2_value)
  let ?b = "luks2_area 12288 (bytes_of_string ORACLE_JSON)"
  have parts: "length ?b = 16384" "take 6 ?b = LUKS_MAGIC" using luks2_area_parts [OF fit(1)] by simp_all
  let ?w = "take 6 ?b @ to_be_bytes 2 (1 :: u16) @ drop 8 ?b"
  have "parse2 J ?w = Err (UnsupportedVersion 1)" using parts(1,2) by (simp add: parse2_value)
  then show "rejects_wrong_version J = Ok ()" using parts(1) by (simp add: rejects_wrong_version_def copy_into_Ok build_luks2_text [OF fit(1)])
  show "rejects_bad_json J = Ok ()"
    using luks2_area_parts [OF fit(5)] texts by (simp add: rejects_bad_json_def parse2_value build_luks2_text [OF fit(5)])
qed

section \<open>The suite\<close>

text \<open>
  The unit tests of the parsers pass: of the byte readers, of the LUKS1 header and of the LUKS2
  header.  They pass with every JSON and base64 crate that parses the texts of the tests to their
  documents and decodes their salts and digests to 32 bytes.
\<close>

lemma header_test_suite_passes:
  assumes "json_ok J" and "header2_texts_ok J num"
  shows "list_all (\<lambda>t. t = Ok ())
     [be_readers_bounds_check, bytes_n_and_cstr,
      parses_luks1_header_fields, parses_keyslots_and_active_filter, rejects_non_luks, rejects_bad_version, rejects_truncated,
      parses_luks2_keyslot_segment_digest J, rejects_non_luks2 J, rejects_wrong_version J, rejects_bad_json J,
      parses_pbkdf2_keyslot_variant J, as_u64_non_numeric_field_defaults_zero J, unknown_kdf_type_drops_keyslot J]"
  using header2_tests [OF assms] by (simp add: reader_tests header_tests)

text \<open>An instance of the JSON crates that knows the texts of the tests.\<close>

definition texts_json :: "nat json_api" where
  "texts_json = (sample_json Null)
     \<lparr>from_slice := map_of (map (\<lambda>(s, doc). (bytes_of_string s, doc)) (header2_texts id)),
      b64_decode := (\<lambda>t. Some (replicate 32 7))\<rparr>"

lemma header2_texts_differ:
  "ORACLE_JSON \<noteq> PBKDF2_JSON" "ORACLE_JSON \<noteq> BOOL_JSON" "ORACLE_JSON \<noteq> SCRYPT_JSON" "PBKDF2_JSON \<noteq> BOOL_JSON"
  "PBKDF2_JSON \<noteq> SCRYPT_JSON" "BOOL_JSON \<noteq> SCRYPT_JSON" "''{not valid json'' \<noteq> ORACLE_JSON"
  "''{not valid json'' \<noteq> PBKDF2_JSON" "''{not valid json'' \<noteq> BOOL_JSON" "''{not valid json'' \<noteq> SCRYPT_JSON"
  by (simp_all add: header2_text_defs)

lemma header_test_suite_passes_witness:
  "parses_luks2_keyslot_segment_digest texts_json = Ok () \<and> rejects_bad_json texts_json = Ok () \<and>
   unknown_kdf_type_drops_keyslot texts_json = Ok ()"
proof -
  have "json_ok texts_json" by (simp add: json_ok_def texts_json_def sample_json_def)
  moreover have "header2_texts_ok texts_json id"
    using header2_texts_differ header2_texts_differ [symmetric]
    by (simp add: header2_texts_ok_def header2_texts_def texts_json_def sample_json_def)
  ultimately show ?thesis using header_test_suite_passes [of texts_json id] by simp
qed

end
