(* ===== verification/Tests_Crypto.thy ===== *)
theory Tests_Crypto
  imports Test_Support
begin

unbundle bit_operations_syntax

text \<open>
  The unit tests of \<^verbatim>\<open>core/src/af.rs\<close> and \<^verbatim>\<open>core/src/crypto.rs\<close>, one definition per test.  A test
  that derives keys is a program over the clock.
\<close>

section \<open>The anti-forensic splitter\<close>

text \<open>The body of a round trip.\<close>

definition split_then_merge :: "crypto_api \<Rightarrow> hash_alg \<Rightarrow> string \<Rightarrow> bytes \<Rightarrow> usize \<Rightarrow> usize \<Rightarrow> u8 \<Rightarrow> unit res" where
  "split_then_merge C D hspec master n s filler =
     bindR (af_split C D master n s filler) (\<lambda>material.
     bindR (unwrap (merge C hspec material n s)) (\<lambda>back.
     assert_that (back = master)))"

definition split_then_merge_roundtrips_sha256 :: "crypto_api \<Rightarrow> unit res" where
  "split_then_merge_roundtrips_sha256 C =
     split_then_merge C Sha256 ''sha256'' (map of_nat [0..<64]) 64 4000 0x5a"

definition split_then_merge_roundtrips_sha1_partial_chunk :: "crypto_api \<Rightarrow> unit res" where
  "split_then_merge_roundtrips_sha1_partial_chunk C =
     split_then_merge C Sha1 ''sha1'' (map (\<lambda>x. of_nat x * 3) [0..<32]) 32 100 0x33"

definition split_then_merge_roundtrips_sha512 :: "crypto_api \<Rightarrow> unit res" where
  "split_then_merge_roundtrips_sha512 C =
     split_then_merge C Sha512 ''sha512'' (map (\<lambda>x. of_nat x XOR 0xa5) [0..<64]) 64 500 0x77"

definition unsupported_hash_errors :: "crypto_api \<Rightarrow> unit res" where
  "unsupported_hash_errors C = assert_err (unsupported ''hash'') (merge C ''md5'' (replicate 64 0) 64 1)"

definition material_len_rounds_to_sector :: "unit res" where
  "material_len_rounds_to_sector =
     bindR (unwrap (material_len 64 4000)) (\<lambda>a.
     bindR (assert_that (a = 256000)) (\<lambda>_.
     bindR (unwrap (material_len 64 1)) (\<lambda>b.
     assert_that (b = 512))))"

abbreviation u32_MAX :: nat where
  "u32_MAX \<equiv> 4294967295"

definition an_absurd_stripe_count_is_refused_before_sizing_a_buffer :: "(string \<Rightarrow> string) \<Rightarrow> unit res" where
  "an_absurd_stripe_count_is_refused_before_sizing_a_buffer dbg =
     bindR (unwrap_err (material_len 64 u32_MAX)) (\<lambda>err.
     assert_that (contains (to_string dbg err) (show_nat u32_MAX)))"

definition merge_refuses_an_absurd_stripe_count_without_looping :: "crypto_api \<Rightarrow> unit res" where
  "merge_refuses_an_absurd_stripe_count_without_looping C =
     assert_err is_ImplausibleStripes (merge C ''sha256'' (replicate 64 0) 64 u32_MAX)"

definition a_real_stripe_count_still_merges :: "crypto_api \<Rightarrow> unit res" where
  "a_real_stripe_count_still_merges C =
     split_then_merge C Sha256 ''sha256'' (replicate 64 0x5A) 64 4000 0xA5"

section \<open>AES-XTS\<close>

text \<open>
  \<open>enc A k1 k2 buf n first\<close> is \<open>Xts128<A>::encrypt_area\<close> with \<open>get_tweak_default\<close>, a function of the
  crate \<^verbatim>\<open>xts-mode\<close> that only these tests call: it encrypts consecutive sectors of \<open>n\<close> bytes, from
  sector number \<open>first\<close>, under the little-endian sector number.
\<close>

type_synonym area_encrypter = "aes_alg \<Rightarrow> bytes \<Rightarrow> bytes \<Rightarrow> bytes \<Rightarrow> usize \<Rightarrow> u128 \<Rightarrow> bytes"

definition encrypt_area_ok :: "crypto_api \<Rightarrow> area_encrypter \<Rightarrow> bool" where
  "encrypt_area_ok C enc \<longleftrightarrow>
     (\<forall>A k1 k2 buf n first. 16 \<le> n \<longrightarrow> n dvd length buf \<longrightarrow>
        enc A k1 k2 buf n first = units_ref (encrypt_sector C A k1 k2) buf n (unat first) 1)"

definition xts_area_roundtrip_512_units :: "crypto_api \<Rightarrow> area_encrypter \<Rightarrow> unit res" where
  "xts_area_roundtrip_512_units C enc =
     (let key = replicate 64 0x24;
          plain = map (\<lambda>i. of_nat i XOR 0x3c) [0..<1024];
          buf = enc Aes256 (take 32 key) (drop 32 key) plain 512 5
      in bindR (unwrap (xts_decrypt_area C ''xts-plain64'' key buf 512 5)) (\<lambda>buf.
         assert_that (buf = plain)))"

definition xts_area_4096_unit_uses_512_based_tweak :: "crypto_api \<Rightarrow> unit res" where
  "xts_area_4096_unit_uses_512_based_tweak C =
     (let key = replicate 64 0x51;
          plain = replicate 4096 7;
          buf = encrypt_sector C Aes256 (take 32 key) (drop 32 key) (to_le_bytes 16 (8 :: u128)) plain
      in bindR (unwrap (xts_decrypt_area C ''xts-plain64'' key buf 4096 8)) (\<lambda>buf.
         assert_that (buf = plain)))"

definition xts_rejects_bad_mode_and_keysize :: "crypto_api \<Rightarrow> unit res" where
  "xts_rejects_bad_mode_and_keysize C =
     (let buf = replicate 512 0 in
      bindR (assert_err (unsupported ''cipher mode'') (xts_decrypt_area C ''cbc-essiv'' (replicate 64 0) buf 512 0)) (\<lambda>_.
      assert_err (unsupported ''xts key size'') (xts_decrypt_area C ''xts-plain64'' (replicate 48 0) buf 512 0)))"

definition xts_area_roundtrip_128bit_key :: "crypto_api \<Rightarrow> area_encrypter \<Rightarrow> unit res" where
  "xts_area_roundtrip_128bit_key C enc =
     (let key = replicate 32 0x91;
          plain = map (\<lambda>i. of_nat i + 1) [0..<512];
          buf = enc Aes128 (take 16 key) (drop 16 key) plain 512 0
      in bindR (unwrap (xts_decrypt_area C ''xts-plain64'' key buf 512 0)) (\<lambda>buf.
         assert_that (buf = plain)))"

section \<open>Key derivation\<close>

text \<open>
  A worker thread whose answer is awaited with \<open>recv_timeout\<close>: an answer after the limit is a failure.
\<close>

definition behind_watchdog :: "duration \<Rightarrow> (clock, LuksError, 'a) prog \<Rightarrow> (clock, LuksError, 'a) prog" where
  "behind_watchdog limit m =
     bindM instant_now (\<lambda>t.
     bindM m (\<lambda>x.
     bindM (elapsed t) (\<lambda>e.
     if limit < e then liftR (Panic ''did not return in time'') else ret x)))"

text \<open>\<open>matches!(r, Err(pattern))\<close>.\<close>

fun matches_err :: "(LuksError \<Rightarrow> bool) \<Rightarrow> 'a res \<Rightarrow> bool res" where
  "matches_err P (Ok x) = Ok False"
| "matches_err P (Err e) = Ok (P e)"
| "matches_err P (Panic q) = Panic q"

definition absurd_iteration_count_is_refused_rather_than_run :: "crypto_api \<Rightarrow> (clock, LuksError, unit) prog" where
  "absurd_iteration_count_is_refused_rather_than_run C =
     bindM (behind_watchdog (from_secs 60)
       (on_result (matches_err (\<lambda>e. is_DerivationBudgetExceeded e \<and> err_iterations e = 0xFFFFFFFF))
         (derive_key_within C ''sha1'' (bytes_of_string ''luks-TEST'') (bytes_of_string ''salt'') 0xFFFFFFFF 32 DERIVATION_BUDGET)))
       (\<lambda>refused. liftR (assert_that refused))"

definition a_realistic_iteration_count_still_derives :: "crypto_api \<Rightarrow> (clock, LuksError, unit) prog" where
  "a_realistic_iteration_count_still_derives C =
     (let derive = on_result unwrap
        (derive_key_within C ''sha256'' (bytes_of_string ''password'') (bytes_of_string ''salt'') 200000 32 DERIVATION_BUDGET)
      in bindM derive (\<lambda>k.
         bindM (liftR (assert_that (length k = 32))) (\<lambda>_.
         bindM derive (\<lambda>again. liftR (assert_that (k = again))))))"

text \<open>\<open>hex\<close>.\<close>

definition hex :: "bytes \<Rightarrow> string" where
  "hex b = concat (map hex_byte b)"

definition KNOWN_KEY :: string where
  "KNOWN_KEY = ''120fb6cffcf8b32c43e7225256c4f837a86548c92ccc35480805987cb70be17b''"

definition derive_key_matches_known_pbkdf2_sha256 :: "crypto_api \<Rightarrow> (clock, LuksError, unit) prog" where
  "derive_key_matches_known_pbkdf2_sha256 C =
     bindM (on_result unwrap
       (derive_key_within C ''sha256'' (bytes_of_string ''password'') (bytes_of_string ''salt'') 1 32 DERIVATION_BUDGET))
       (\<lambda>k. liftR (assert_that (hex k = KNOWN_KEY)))"

definition derive_key_rejects_unknown_hash :: "crypto_api \<Rightarrow> (clock, LuksError, unit) prog" where
  "derive_key_rejects_unknown_hash C =
     on_result (assert_err (unsupported ''hash''))
       (derive_key_within C ''md5'' (bytes_of_string ''x'') (bytes_of_string ''y'') 1 16 DERIVATION_BUDGET)"

definition derive_key_refuses_an_implausible_key_length_before_calibrating ::
  "crypto_api \<Rightarrow> (clock, LuksError, unit) prog" where
  "derive_key_refuses_an_implausible_key_length_before_calibrating C =
     bindM instant_now (\<lambda>started.
     bindM (on_result unwrap_err
       (derive_key_within C ''sha256'' (bytes_of_string ''luks-TEST'') (replicate 32 0) 50000 0x10101010 DERIVATION_BUDGET)) (\<lambda>err.
     bindM (elapsed started) (\<lambda>e.
     liftR (assert_all [is_KeyLengthExceeded err, e < from_secs 2]))))"

definition real_master_key_lengths_are_still_accepted :: "crypto_api \<Rightarrow> (clock, LuksError, unit) prog" where
  "real_master_key_lengths_are_still_accepted C =
     (let try = (\<lambda>n. on_result unwrap
        (derive_key_within C ''sha256'' (bytes_of_string ''pw'') (replicate 32 0) 1 n DERIVATION_BUDGET))
      in bindM (try 16) (\<lambda>_. bindM (try 32) (\<lambda>_. bindM (try 64) (\<lambda>_. ret ()))))"

text \<open>Argon2: the parameters of the tests differ in time, memory and salt.\<close>

definition argon2id :: "u32 \<Rightarrow> u32 \<Rightarrow> bytes \<Rightarrow> Argon2Params" where
  "argon2id t m slt = \<lparr>kind = ''argon2id'', time = t, memory = m, cpus = 1, argon_salt = slt\<rparr>"

definition absurd_argon2_memory_is_refused_before_allocating ::
  "crypto_api \<Rightarrow> (string \<Rightarrow> string) \<Rightarrow> (clock, LuksError, unit) prog" where
  "absurd_argon2_memory_is_refused_before_allocating C dbg =
     bindM (on_result unwrap_err
       (derive_key_argon2_within C (argon2id 1 0xFFFFFFFF (replicate 16 0x11)) (bytes_of_string ''pw'') 64 DERIVATION_BUDGET)) (\<lambda>err.
     liftR (assert_all [is_DerivationMemoryExceeded err, contains (to_string dbg err) (show_nat u32_MAX)]))"

definition absurd_argon2_time_is_refused_rather_than_run :: "crypto_api \<Rightarrow> (clock, LuksError, unit) prog" where
  "absurd_argon2_time_is_refused_rather_than_run C =
     bindM (behind_watchdog (from_secs 60)
       (on_result (matches_err is_DerivationBudgetExceeded)
         (derive_key_argon2_within C (argon2id 0xFFFFFFFF 64 (replicate 16 0x11)) (bytes_of_string ''pw'') 64 DERIVATION_BUDGET)))
       (\<lambda>refused. liftR (assert_that refused))"

definition a_realistic_argon2_cost_still_derives :: "crypto_api \<Rightarrow> (clock, LuksError, unit) prog" where
  "a_realistic_argon2_cost_still_derives C =
     (let derive = on_result unwrap
        (derive_key_argon2_within C (argon2id 4 65536 (replicate 16 0x11)) (bytes_of_string ''pw'') 64 DERIVATION_BUDGET)
      in bindM derive (\<lambda>k.
         bindM (liftR (assert_that (length k = 64))) (\<lambda>_.
         bindM derive (\<lambda>again. liftR (assert_that (k = again))))))"

definition argon2id_derives_and_rejects_unknown :: "crypto_api \<Rightarrow> (clock, LuksError, unit) prog" where
  "argon2id_derives_and_rejects_unknown C =
     (let p = argon2id 1 32 (replicate 16 0x11) in
      bindM (on_result unwrap (derive_key_argon2_within C p (bytes_of_string ''pw'') 64 DERIVATION_BUDGET)) (\<lambda>k.
      bindM (liftR (assert_that (length k = 64))) (\<lambda>_.
      on_result (assert_err (unsupported ''argon2 variant''))
        (derive_key_argon2_within C (p\<lparr>kind := ''scrypt''\<rparr>) (bytes_of_string ''pw'') 64 DERIVATION_BUDGET))))"

definition argon2_rejects_invalid_params :: "crypto_api \<Rightarrow> (clock, LuksError, unit) prog" where
  "argon2_rejects_invalid_params C =
     on_result (assert_err (unsupported ''argon2 params''))
       (derive_key_argon2_within C (argon2id 1 0 (replicate 16 0x11)) (bytes_of_string ''pw'') 32 DERIVATION_BUDGET)"

definition argon2_rejects_short_salt :: "crypto_api \<Rightarrow> (clock, LuksError, unit) prog" where
  "argon2_rejects_short_salt C =
     on_result (assert_err (unsupported ''argon2''))
       (derive_key_argon2_within C (argon2id 1 32 (replicate 4 0)) (bytes_of_string ''pw'') 32 DERIVATION_BUDGET)"

definition derive_key_argon2_refuses_an_implausible_key_length :: "crypto_api \<Rightarrow> (clock, LuksError, unit) prog" where
  "derive_key_argon2_refuses_an_implausible_key_length C =
     on_result (assert_err is_KeyLengthExceeded)
       (derive_key_argon2_within C (argon2id 1 32 (replicate 16 0)) (bytes_of_string ''pw'') 0x10101010 DERIVATION_BUDGET)"

section \<open>They pass\<close>

lemma split_then_merge_passes:
  assumes "crypto_ok C" and "length master = n" and "n * s \<le> isize_MAX" and "0 < s" and "s \<le> MAX_STRIPES"
    and "hash_of_name hspec = Some D"
  shows "split_then_merge C D hspec master n s filler = Ok ()"
proof -
  obtain m where m: "af_split C D master n s filler = Ok m" "\<forall>rest. merge C hspec (m @ rest) n s = Ok master"
    using merge_af_split [OF assms(1) _ assms(3-6), of master filler] assms(2) by auto
  have "merge C hspec m n s = Ok master" using spec [OF m(2), of "[]"] by simp
  with m(1) show ?thesis by (simp add: split_then_merge_def)
qed

lemma af_tests:
  assumes "crypto_ok C"
  shows "split_then_merge_roundtrips_sha256 C = Ok ()" "split_then_merge_roundtrips_sha1_partial_chunk C = Ok ()"
    "split_then_merge_roundtrips_sha512 C = Ok ()" "a_real_stripe_count_still_merges C = Ok ()"
    "unsupported_hash_errors C = Ok ()" "material_len_rounds_to_sector = Ok ()"
    "an_absurd_stripe_count_is_refused_before_sizing_a_buffer dbg = Ok ()"
    "merge_refuses_an_absurd_stripe_count_without_looping C = Ok ()"
proof -
  note roundtrip = split_then_merge_passes [OF assms]
  show "split_then_merge_roundtrips_sha256 C = Ok ()"
    unfolding split_then_merge_roundtrips_sha256_def by (rule roundtrip) (simp_all add: area_fits_def MAX_STRIPES_def hash_of_name_def)
  show "split_then_merge_roundtrips_sha1_partial_chunk C = Ok ()"
    unfolding split_then_merge_roundtrips_sha1_partial_chunk_def by (rule roundtrip) (simp_all add: area_fits_def MAX_STRIPES_def hash_of_name_def)
  show "split_then_merge_roundtrips_sha512 C = Ok ()"
    unfolding split_then_merge_roundtrips_sha512_def by (rule roundtrip) (simp_all add: area_fits_def MAX_STRIPES_def hash_of_name_def)
  show "a_real_stripe_count_still_merges C = Ok ()"
    unfolding a_real_stripe_count_still_merges_def by (rule roundtrip) (simp_all add: area_fits_def MAX_STRIPES_def hash_of_name_def)
  show "unsupported_hash_errors C = Ok ()"
    by (simp add: unsupported_hash_errors_def merge_def MAX_STRIPES_def unsupported_def)
  show "material_len_rounds_to_sector = Ok ()"
    by (simp add: material_len_rounds_to_sector_def material_len_def MAX_STRIPES_def checked_mul_def div_ceil_def usize_mul_def)
  have "contains (to_string dbg (ImplausibleStripes u32_MAX m b)) (show_nat u32_MAX)" for m b
    using containsI [of "''keyslot declares ''" "show_nat u32_MAX"] by simp
  then show "an_absurd_stripe_count_is_refused_before_sizing_a_buffer dbg = Ok ()"
    by (simp add: an_absurd_stripe_count_is_refused_before_sizing_a_buffer_def material_len_def MAX_STRIPES_def del: to_string.simps)
  show "merge_refuses_an_absurd_stripe_count_without_looping C = Ok ()"
    by (simp add: merge_refuses_an_absurd_stripe_count_without_looping_def merge_def MAX_STRIPES_def)
qed

lemma xts_tests:
  assumes C: "crypto_ok C" "xts_inverse C" and enc: "encrypt_area_ok C enc"
  shows "xts_area_roundtrip_512_units C enc = Ok ()" "xts_area_4096_unit_uses_512_based_tweak C = Ok ()"
    "xts_area_roundtrip_128bit_key C enc = Ok ()" "xts_rejects_bad_mode_and_keysize C = Ok ()"
proof -
  have undo: "units_ref (decrypt_sector C A k1 k2) (units_ref (encrypt_sector C A k1 k2) buf n b st) n b st = buf"
    if "0 < n" for A k1 k2 buf n b st
    using that C by (intro units_ref_inverse) (auto simp: xts_inverse_def crypto_okD)
  have area: "enc A k1 k2 buf 512 first = units_ref (encrypt_sector C A k1 k2) buf 512 (unat first) 1"
    if "512 dvd length buf" for A k1 k2 buf first
    using enc that by (simp add: encrypt_area_ok_def)
  have len: "length (units_ref (encrypt_sector C A k1 k2) buf n b st) = length buf" for A k1 k2 buf n b st
    using C by (intro length_units_ref) (simp add: crypto_okD)
  show "xts_area_roundtrip_512_units C enc = Ok ()"
    by (simp add: xts_area_roundtrip_512_units_def Let_def area xts_decrypt_area_value len tweaks_fit_def unit_step_def
        xts_cipher_def undo)
  show "xts_area_roundtrip_128bit_key C enc = Ok ()"
    by (simp add: xts_area_roundtrip_128bit_key_def Let_def area xts_decrypt_area_value len tweaks_fit_def unit_step_def
        xts_cipher_def undo)
  have one: "units_ref (decrypt_sector C A k1 k2) c 4096 8 8 = decrypt_sector C A k1 k2 (to_le_bytes 16 (8 :: u128)) c"
    if "length c = 4096" for A k1 k2 c
    using units_ref_single [of c 4096 "decrypt_sector C A k1 k2" 8 8] that by simp
  show "xts_area_4096_unit_uses_512_based_tweak C = Ok ()"
    using C by (simp add: xts_area_4096_unit_uses_512_based_tweak_def Let_def xts_decrypt_area_value crypto_okD tweaks_fit_def
        unit_step_def xts_cipher_def one xts_inverse_def)
  show "xts_rejects_bad_mode_and_keysize C = Ok ()"
    by (simp add: xts_rejects_bad_mode_and_keysize_def xts_decrypt_area_def unsupported_def Let_def)
qed

text \<open>
  What the derivation tests rely on.  The clock advances between two readings by no less than 140
  microseconds, which is what 20000 rounds of PBKDF2 or one pass of Argon2 take at the very least,
  and by no more than a second.  The crate \<^verbatim>\<open>argon2\<close> accepts one lane and a memory cost from 8 blocks
  on, refuses less, and refuses a salt below 8 bytes.  \<open>known_answer\<close> says that the crate
  \<^verbatim>\<open>pbkdf2\<close> derives the published key, which no test but its own depends on.
\<close>

definition ordinary :: "'x clock_scheme \<Rightarrow> bool" where
  "ordinary s \<longleftrightarrow> (\<forall>n. 140000 \<le> reading s (Suc n) - reading s n \<and> reading s (Suc n) - reading s n \<le> nanos_per_sec)"

definition argon2_documented :: "crypto_api \<Rightarrow> bool" where
  "argon2_documented C \<longleftrightarrow>
     (\<forall>m t n. 8 \<le> unat m \<longrightarrow> 1 \<le> t \<longrightarrow> 4 \<le> n \<longrightarrow> n \<le> 1024 \<longrightarrow> argon2_params C m t 1 n = None) \<and>
     (\<forall>m t n. unat m < 8 \<longrightarrow> argon2_params C m t 1 n \<noteq> None) \<and>
     (\<forall>A m t pw slt n. argon2_params C m t 1 n = None \<longrightarrow> 8 \<le> length slt \<longrightarrow> length slt \<le> 64 \<longrightarrow> length pw \<le> 64 \<longrightarrow>
        (\<exists>out. argon2_hash C A m t 1 pw slt n = Inr out)) \<and>
     (\<forall>A m t pw slt n. argon2_params C m t 1 n = None \<longrightarrow> length slt < 8 \<longrightarrow> (\<exists>e. argon2_hash C A m t 1 pw slt n = Inl e))"

definition known_answer :: "crypto_api \<Rightarrow> bool" where
  "known_answer C \<longleftrightarrow>
     hex (pbkdf2_hmac C Sha256 (bytes_of_string ''password'') (bytes_of_string ''salt'') 1 32) = KNOWN_KEY"

lemma ordinary_gap:
  assumes "ordinary s"
  shows "140000 \<le> calibration_time s" "calibration_time s \<le> nanos_per_sec"
  using assms by (simp_all add: ordinary_def calibration_time_def)

lemma ordinary_tick [simp]: "ordinary (s\<lparr>tick := n\<rparr>) = ordinary s"
  by (simp add: ordinary_def)

lemma ordinary_three: "ordinary s \<Longrightarrow> reading s (Suc (Suc (Suc k))) - reading s k \<le> 3 * nanos_per_sec"
proof -
  assume "ordinary s"
  then have "reading s (Suc n) \<le> reading s n + nanos_per_sec" for n unfolding ordinary_def by (metis add.commute le_diff_conv)
  from this [of k] this [of "Suc k"] this [of "Suc (Suc k)"] show ?thesis by simp
qed

text \<open>A derivation that needs no calibration, and one that does.\<close>

lemma derive_now:
  assumes "hash_of_name h = Some D" and "n \<le> MAX_KEY_BYTES" and "max iters 1 \<le> CALIBRATION_ITERS"
  shows "derive_key_within C h pw slt iters n budget s = Some (Ok (pbkdf2_hmac C D pw slt (max iters 1) n), s)"
  using assms by (simp add: derive_key_value not_less [symmetric])

lemma pbkdf2_projection_value:
  "d * unat i \<le> u128_MAX \<Longrightarrow> d * unat i div 20000 \<le> u64_MAX \<Longrightarrow> pbkdf2_projection d i = d * unat i div 20000"
  by (simp add: pbkdf2_projection_def sat_mul_u128_def nanos_clamped_def CALIBRATION_ITERS_def min_def)

lemma argon2_projection_value:
  "d * unat i \<le> u64_MAX \<Longrightarrow> argon2_projection d i = d * unat i"
  by (simp add: argon2_projection_def sat_mul_u128_def nanos_clamped_def min_def)

lemma pbkdf2_tests:
  fixes s :: clock
  assumes C: "crypto_ok C" and s: "ordinary s"
  shows "passes (absurd_iteration_count_is_refused_rather_than_run C) s"
    and "passes (a_realistic_iteration_count_still_derives C) s"
    and "passes (derive_key_matches_known_pbkdf2_sha256 C) s \<longleftrightarrow> known_answer C"
    and "passes (derive_key_rejects_unknown_hash C) s"
    and "passes (derive_key_refuses_an_implausible_key_length_before_calibrating C) s"
    and "passes (real_master_key_lengths_are_still_accepted C) s"
proof -
  have sha: "hash_of_name ''sha256'' = Some Sha256" "hash_of_name ''sha1'' = Some Sha1" "hash_of_name ''md5'' = None"
    by (simp_all add: hash_of_name_def)
  show "passes (derive_key_matches_known_pbkdf2_sha256 C) s \<longleftrightarrow> known_answer C"
    by (simp add: passes_def derive_key_matches_known_pbkdf2_sha256_def derive_now [OF sha(1)] key_consts known_answer_def bindM_run)
  show "passes (derive_key_rejects_unknown_hash C) s"
    by (intro passesI [of _ _ s]) (simp add: derive_key_rejects_unknown_hash_def derive_key_value sha key_consts unsupported_def on_result_def)
  show "passes (real_master_key_lengths_are_still_accepted C) s"
    by (intro passesI [of _ _ s])
      (simp add: real_master_key_lengths_are_still_accepted_def Let_def derive_now [OF sha(1)] key_consts bindM_run)
  show "passes (derive_key_refuses_an_implausible_key_length_before_calibrating C) s"
    using ordinary_gap(2) [OF s] by (intro passesI)
      (simp add: derive_key_refuses_an_implausible_key_length_before_calibrating_def derive_key_value key_consts bindM_run
        from_secs_def calibration_time_def)
  have ten: "pbkdf2_projection (calibration_time t) 200000 \<le> DERIVATION_BUDGET" if "ordinary t" for t :: clock
    using ordinary_gap(2) [OF that] by (subst pbkdf2_projection_value) (simp_all add: DERIVATION_BUDGET_def from_secs_def)
  show "passes (a_realistic_iteration_count_still_derives C) s"
    using ten [OF s] ten [of "s\<lparr>tick := tick s + 2\<rparr>"] s C
    by (intro passesI) (simp add: a_realistic_iteration_count_still_derives_def derive_key_value sha key_consts bindM_run
        Let_def not_less [symmetric] crypto_okD)
  have long: "DERIVATION_BUDGET < pbkdf2_projection (calibration_time t) 0xFFFFFFFF" if "ordinary t" for t :: clock
    using ordinary_gap [OF that] by (subst pbkdf2_projection_value) (simp_all add: DERIVATION_BUDGET_def from_secs_def)
  show "passes (absurd_iteration_count_is_refused_rather_than_run C) s"
    using long [of "s\<lparr>tick := Suc (tick s)\<rparr>"] s ordinary_three [OF s, of "tick s"]
    by (intro passesI [of _ _ "s\<lparr>tick := tick s + 4\<rparr>"]) (simp add: absurd_iteration_count_is_refused_rather_than_run_def behind_watchdog_def derive_key_value sha
        key_consts bindM_run Let_def from_secs_def)
qed

lemma argon2_accepts:
  assumes "argon2_documented C" and "8 \<le> unat m" and "1 \<le> t" and "length slt = 16" and "length pw \<le> 64"
    and "4 \<le> n" and "n \<le> 1024"
  shows "\<exists>out. argon2_run C A (argon2id t' m slt) pw n t (replicate n 0) = Ok out"
proof -
  have ok: "argon2_params C m t 1 n = None" using assms by (simp add: argon2_documented_def)
  moreover obtain out where "argon2_hash C A m t 1 pw slt n = Inr out"
    using assms(1,4,5) ok by (fastforce simp: argon2_documented_def)
  ultimately show ?thesis by (simp add: argon2_run_def argon2id_def)
qed

lemma argon2id_simps [simp]:
  "kind (argon2id t m slt) = ''argon2id''" "time (argon2id t m slt) = t" "memory (argon2id t m slt) = m"
  "argon2_of_name ''argon2id'' = Some Argon2id" "argon2_of_name ''scrypt'' = None"
  by (simp_all add: argon2id_def argon2_of_name_def)

lemma argon2_tests:
  fixes s :: clock
  assumes C: "crypto_ok C" and s: "ordinary s" and doc: "argon2_documented C"
  shows "passes (absurd_argon2_memory_is_refused_before_allocating C dbg) s"
    and "passes (absurd_argon2_time_is_refused_rather_than_run C) s"
    and "passes (a_realistic_argon2_cost_still_derives C) s"
    and "passes (argon2id_derives_and_rejects_unknown C) s"
    and "passes (argon2_rejects_invalid_params C) s"
    and "passes (argon2_rejects_short_salt C) s"
    and "passes (derive_key_argon2_refuses_an_implausible_key_length C) s"
proof -
  let ?salt = "replicate 16 0x11 :: bytes" and ?pw = "bytes_of_string ''pw''"
  have run: "\<exists>out. argon2_run C Argon2id (argon2id t' m ?salt) ?pw 64 t (replicate 64 0) = Ok out \<and> length out = 64"
    if "8 \<le> unat m" "1 \<le> t" for m t t'
    using argon2_accepts [OF doc that, of ?salt ?pw 64] argon2_run_Ok_length [OF C] by fastforce
  have "contains (to_string dbg (DerivationMemoryExceeded 0xFFFFFFFF m)) (show_nat u32_MAX)" for m
    using containsI [of "''argon2 keyslot asks for ''" "show_nat u32_MAX"] by simp
  then show "passes (absurd_argon2_memory_is_refused_before_allocating C dbg) s"
    by (intro passesI [of _ _ s]) (simp add: absurd_argon2_memory_is_refused_before_allocating_def derive_argon2_value key_consts
        bindM_run on_result_def del: to_string.simps)
  show "passes (derive_key_argon2_refuses_an_implausible_key_length C) s"
    by (intro passesI [of _ _ s]) (simp add: derive_key_argon2_refuses_an_implausible_key_length_def derive_argon2_value key_consts)
  have "argon2_params C 0 1 1 32 \<noteq> None" using doc by (simp add: argon2_documented_def)
  then show "passes (argon2_rejects_invalid_params C) s"
    by (intro passesI [of _ _ s]) (auto simp: argon2_rejects_invalid_params_def derive_argon2_value key_consts argon2_run_def
        argon2id_def unsupported_def)
  have ok: "argon2_params C 32 1 1 32 = None" using doc by (simp add: argon2_documented_def)
  moreover obtain e where "argon2_hash C Argon2id 32 1 1 ?pw (replicate 4 0) 32 = Inl e"
    using doc ok by (fastforce simp: argon2_documented_def)
  ultimately show "passes (argon2_rejects_short_salt C) s"
    by (intro passesI [of _ _ s]) (simp add: argon2_rejects_short_salt_def derive_argon2_value key_consts argon2_run_def
        argon2id_def unsupported_def)
  obtain k where "argon2_run C Argon2id (argon2id 1 32 ?salt) ?pw 64 1 (replicate 64 0) = Ok k" "length k = 64"
    using run [of 32 1 1] by auto
  then show "passes (argon2id_derives_and_rejects_unknown C) s"
    by (intro passesI [of _ _ s]) (simp add: argon2id_derives_and_rejects_unknown_def derive_argon2_value key_consts Let_def
        bindM_run unsupported_def on_result_def)
  obtain k1 where one: "argon2_run C Argon2id (argon2id 0xFFFFFFFF 64 ?salt) ?pw 64 1 (replicate 64 0) = Ok k1"
    using run [of 64 1] by auto
  have "DERIVATION_BUDGET < argon2_projection (calibration_time t) 0xFFFFFFFF" if "ordinary t" for t :: clock
    using ordinary_gap [OF that] by (subst argon2_projection_value) (simp_all add: DERIVATION_BUDGET_def from_secs_def)
  then show "passes (absurd_argon2_time_is_refused_rather_than_run C) s"
    using one s ordinary_three [OF s, of "tick s"]
    by (intro passesI [of _ _ "s\<lparr>tick := tick s + 4\<rparr>"]) (simp add: absurd_argon2_time_is_refused_rather_than_run_def
        behind_watchdog_def derive_argon2_value key_consts bindM_run Let_def from_secs_def)
  obtain k4 k5 where four: "argon2_run C Argon2id (argon2id 4 65536 ?salt) ?pw 64 1 (replicate 64 0) = Ok k4"
    "argon2_run C Argon2id (argon2id 4 65536 ?salt) ?pw 64 4 (replicate 64 0) = Ok k5" "length k5 = 64"
    using run [of 65536 1 4] run [of 65536 4 4] by auto
  have "argon2_projection (calibration_time t) 4 \<le> DERIVATION_BUDGET" if "ordinary t" for t :: clock
    using ordinary_gap(2) [OF that] by (subst argon2_projection_value) (simp_all add: DERIVATION_BUDGET_def from_secs_def)
  then show "passes (a_realistic_argon2_cost_still_derives C) s"
    using four s by (intro passesI [of _ _ "s\<lparr>tick := tick s + 4\<rparr>"]) (simp add: a_realistic_argon2_cost_still_derives_def
        derive_argon2_value key_consts bindM_run Let_def not_less [symmetric])
qed

section \<open>The suite\<close>

text \<open>
  The unit tests of the splitter, of the sector cipher and of key derivation pass, with every
  implementation of the crypto crates that has the documented sizes, inverse and limits, and on every clock on which a calibration run takes at least 140 microseconds and at most a second:
  the round trips return what was split or encrypted, what the header may ask for is derived,
  and the absurd requests are refused for the stated reason and within the stated time.  The test of the published key
  passes exactly when the crate \<^verbatim>\<open>pbkdf2\<close> derives that key.
\<close>

lemma crypto_test_suite_passes:
  fixes s :: clock
  assumes "crypto_ok C" and "xts_inverse C" and "encrypt_area_ok C enc" and "argon2_documented C" and "ordinary s"
  shows "list_all (\<lambda>t. t = Ok ())
      [split_then_merge_roundtrips_sha256 C, split_then_merge_roundtrips_sha1_partial_chunk C,
       split_then_merge_roundtrips_sha512 C, unsupported_hash_errors C, material_len_rounds_to_sector,
       an_absurd_stripe_count_is_refused_before_sizing_a_buffer dbg,
       merge_refuses_an_absurd_stripe_count_without_looping C, a_real_stripe_count_still_merges C,
       xts_area_roundtrip_512_units C enc, xts_area_4096_unit_uses_512_based_tweak C,
       xts_rejects_bad_mode_and_keysize C, xts_area_roundtrip_128bit_key C enc] \<and>
     list_all (\<lambda>t. passes t s)
      [absurd_iteration_count_is_refused_rather_than_run C, a_realistic_iteration_count_still_derives C,
       derive_key_rejects_unknown_hash C,
       absurd_argon2_memory_is_refused_before_allocating C dbg, absurd_argon2_time_is_refused_rather_than_run C,
       a_realistic_argon2_cost_still_derives C, argon2id_derives_and_rejects_unknown C,
       argon2_rejects_invalid_params C, argon2_rejects_short_salt C,
       derive_key_refuses_an_implausible_key_length_before_calibrating C,
       derive_key_argon2_refuses_an_implausible_key_length C, real_master_key_lengths_are_still_accepted C] \<and>
     (passes (derive_key_matches_known_pbkdf2_sha256 C) s \<longleftrightarrow> known_answer C)"
  using af_tests [OF assms(1)] xts_tests [OF assms(1-3)] pbkdf2_tests [OF assms(1,5)] argon2_tests [OF assms(1,5,4)]
  by simp

text \<open>Sample crates with the limits and the published key.\<close>

definition known_bytes :: bytes where
  "known_bytes = [0x12, 0x0f, 0xb6, 0xcf, 0xfc, 0xf8, 0xb3, 0x2c, 0x43, 0xe7, 0x22, 0x52, 0x56, 0xc4, 0xf8, 0x37,
     0xa8, 0x65, 0x48, 0xc9, 0x2c, 0xcc, 0x35, 0x48, 0x08, 0x05, 0x98, 0x7c, 0xb7, 0x0b, 0xe1, 0x7b]"

definition strict_crypto :: crypto_api where
  "strict_crypto = sample_crypto
     \<lparr>pbkdf2_hmac := (\<lambda>D pw s n len. fit len known_bytes),
      argon2_params := (\<lambda>m t p len. if unat m < 8 then Some ''memory cost'' else None),
      argon2_hash := (\<lambda>A m t p pw s len. if length s < 8 then Inl ''salt is too short'' else Inr (fit len (pw @ s)))\<rparr>"

lemma strict_crypto_ok:
  "crypto_ok strict_crypto" "xts_inverse strict_crypto" "argon2_documented strict_crypto" "known_answer strict_crypto"
proof -
  show "crypto_ok strict_crypto" "xts_inverse strict_crypto" "argon2_documented strict_crypto"
    by (auto simp: crypto_ok_def xts_inverse_def argon2_documented_def strict_crypto_def sample_crypto_def comp_def split: if_splits)
  have "fit 32 known_bytes = known_bytes" by (simp add: fit_def known_bytes_def)
  then show "known_answer strict_crypto"
    by (simp add: known_answer_def strict_crypto_def KNOWN_KEY_def hex_def known_bytes_def hex_byte_def hex_digit_def char_of_def bit_0)
qed

lemma crypto_test_suite_passes_witness:
  "passes (absurd_iteration_count_is_refused_rather_than_run strict_crypto) \<lparr>reading = (\<lambda>n. n * 1000000), tick = 0\<rparr> \<and>
   passes (a_realistic_argon2_cost_still_derives strict_crypto) \<lparr>reading = (\<lambda>n. n * 1000000), tick = 0\<rparr>"
proof -
  let ?enc = "\<lambda>A k1 k2 buf n first. units_ref (encrypt_sector strict_crypto A k1 k2) buf n (unat (first :: u128)) 1"
  have "encrypt_area_ok strict_crypto ?enc" by (simp add: encrypt_area_ok_def)
  moreover have "ordinary (\<lparr>reading = (\<lambda>n. n * 1000000), tick = 0\<rparr> :: clock)" by (simp add: ordinary_def)
  ultimately show ?thesis
    using crypto_test_suite_passes [OF strict_crypto_ok(1,2) _ strict_crypto_ok(3)] by fastforce
qed

end
