(* ===== verification/Tests_Volume.thy ===== *)
theory Tests_Volume
  imports Fixtures2 Tests_Crypto
begin

text \<open>
  The unit tests of \<^verbatim>\<open>core/src/volume.rs\<close>, one definition per test.  A test is a program over the
  clock; a container is unlocked from a fresh in-memory cursor.
\<close>

section \<open>Volumes\<close>

definition over_image :: "bytes \<Rightarrow> (cursor world, LuksError, 'a) prog \<Rightarrow> (clock, LuksError, 'a) prog" where
  "over_image img m = over_fresh (cursor_new img) m"

text \<open>The calls of a test on the volume it has unlocked.\<close>

definition with_volume :: "(clock, LuksError, 'v) prog \<Rightarrow> ('v, LuksError, unit) prog \<Rightarrow> (clock, LuksError, unit) prog" where
  "with_volume unlock body =
     bindM unlock (\<lambda>vol c. case body vol of None \<Rightarrow> None | Some (x, _) \<Rightarrow> Some (x, c))"

definition the_volume :: "('v, LuksError, 'v) prog" where
  "the_volume = (\<lambda>v. Some (Ok v, v))"

text \<open>
  \<open>Read::read_to_end\<close> of the standard library: it reads until a call returns no bytes, with buffers
  of its own choice, \<open>cap k\<close> bytes at the call number \<open>k\<close>, and retries an interrupted call.
\<close>

partial_function (option) read_to_end ::
  "('r \<Rightarrow> usize \<Rightarrow> (io_error + bytes) \<times> 'r) \<Rightarrow> (nat \<Rightarrow> usize) \<Rightarrow> nat \<Rightarrow> bytes \<Rightarrow> 'r \<Rightarrow> (bytes res \<times> 'r) option" where
  "read_to_end rd cap k acc r =
     (case rd r (cap k) of
        (Inr bs, r') \<Rightarrow> if bs = [] then Some (Ok acc, r') else read_to_end rd cap (Suc k) (acc @ bs) r'
      | (Inl e, r') \<Rightarrow> if io_kind e = Interrupted then read_to_end rd cap (Suc k) acc r' else Some (Err (Io e), r'))"

text \<open>What \<open>read_to_end\<close> returns over a reader that keeps its contract: the rest of the bytes.\<close>

context byte_stream
begin

lemma read_to_end_spec:
  assumes "inv r" and cap: "\<And>k. 0 < cap k \<and> cap k \<le> isize_MAX"
  shows "\<exists>r'. read_to_end rd cap k acc r = Some (Ok (acc @ drop (pos r) (content r)), r') \<and>
     same_source r r' \<and> length (content r) \<le> pos r'"
  using assms(1)
proof (induction "(length (content r) - pos r) + retries r" arbitrary: r k acc rule: less_induct)
  case less
  obtain x r' where rd: "rd r (cap k) = (x, r')" by fastforce
  note cap' = cap [of k, THEN conjunct2]
  show ?case
  proof (cases x)
    case (Inl e)
    note law = read_Inl [OF less.prems cap' rd [unfolded Inl]]
    have "\<exists>r''. read_to_end rd cap (Suc k) acc r' = Some (Ok (acc @ drop (pos r') (content r')), r'') \<and>
        same_source r' r'' \<and> length (content r') \<le> pos r''"
      using law by (intro less.hyps) auto
    then show ?thesis using law rd Inl by (subst read_to_end.simps) (auto simp: same_source_def)
  next
    case (Inr bs)
    note law = read_Inr [OF less.prems cap' rd [unfolded Inr]]
    show ?thesis
    proof (cases "bs = []")
      case True
      then show ?thesis using law rd Inr cap [of k] by (subst read_to_end.simps) (auto simp: same_source_def)
    next
      case False
      have bs: "length bs \<le> length (content r) - pos r" using law by (metis length_drop length_take min.cobounded1 min.commute)
      moreover have "0 < length bs" using False by simp
      ultimately have "(length (content r) - (pos r + length bs)) + retries r' < (length (content r) - pos r) + retries r"
        using law by linarith
      then have "\<exists>r''. read_to_end rd cap (Suc k) (acc @ bs) r' = Some (Ok ((acc @ bs) @ drop (pos r') (content r')), r'') \<and>
          same_source r' r'' \<and> length (content r') \<le> pos r''"
        using law by (intro less.hyps) auto
      moreover have "bs @ drop (pos r + length bs) (content r) = drop (pos r) (content r)"
        using law by (metis add.commute append_take_drop_id drop_drop)
      ultimately show ?thesis using law rd Inr False by (subst read_to_end.simps) (auto simp: same_source_def)
    qed
  qed
qed

end

section \<open>LUKS1\<close>

definition autodetect_master :: bytes where
  "autodetect_master = map (\<lambda>x. of_nat x * 7 + 3) [0..<64]"

definition luks1_roundtrip_via_autodetect :: "crypto_api \<Rightarrow> 'n json_api \<Rightarrow> (clock, LuksError, unit) prog" where
  "luks1_roundtrip_via_autodetect C J =
     bindM (liftR (build_luks1 C autodetect_master)) (\<lambda>(img, plain).
     with_volume (on_result unwrap (over_image img (unlock_with_passphrase C J cursor_reader PASS)))
       (let sector = (\<lambda>lba. bindM (on_result unwrap (read_at C cursor_reader (of_nat (lba * 512)) (replicate 512 0)))
              (\<lambda>buf. liftR (assert_that (buf = take 512 (drop (lba * 512) plain)))))
        in bindM the_volume (\<lambda>vol.
           bindM (liftR (assert_all
             [info_version (info vol) = 1, info_cipher_name (info vol) = ''aes'', info_cipher_mode (info vol) = ''xts-plain64'',
              info_key_bytes (info vol) = 64, info_sector_size (info vol) = 512, master_key vol = autodetect_master,
              payload_size vol = 3 * 512])) (\<lambda>_.
           bindM (sector 0) (\<lambda>_. bindM (sector 1) (\<lambda>_. sector 2))))))"

text \<open>\<open>vol.seek(q).unwrap()\<close> and \<open>assert!(vol.seek(q).is_ok())\<close>; the latter forgets the position.\<close>

definition seek_vol :: "SeekFrom \<Rightarrow> ('r DecryptedPayload, LuksError, u64) prog" where
  "seek_vol q = on_result unwrap (map_errM Io (seek q))"

definition luks1_read_seek_traits ::
  "crypto_api \<Rightarrow> (string \<Rightarrow> string) \<Rightarrow> (nat \<Rightarrow> usize) \<Rightarrow> (clock, LuksError, unit) prog" where
  "luks1_read_seek_traits C dbg cap =
     bindM (liftR (build_luks1 C (replicate 64 0xAB))) (\<lambda>(img, plain).
     with_volume (on_result unwrap (over_image img (unlock1_with_passphrase C cursor_reader PASS)))
       (bindM (seek_vol (Start 512)) (\<lambda>a.
        bindM (liftR (assert_that (a = 512))) (\<lambda>_.
        bindM (seek_vol (Current (- 256))) (\<lambda>b.
        bindM (liftR (assert_that (b = 256))) (\<lambda>_.
        bindM (seek_vol (End 0)) (\<lambda>fin.
        bindM (liftR (assert_that (fin = 3 * 512))) (\<lambda>_.
        bindM (seek_vol (End (- 1))) (\<lambda>_.
        bindM (seek_vol (Start 0)) (\<lambda>_.
        bindM (on_result unwrap (read_to_end (rd_read (payload_reader C dbg cursor_reader)) cap 0 [])) (\<lambda>whole.
        bindM (liftR (assert_that (whole = plain))) (\<lambda>_.
        bindM (on_result unwrap (map_errM Io (read C dbg cursor_reader (replicate 16 0)))) (\<lambda>(n, _).
        liftR (assert_that (n = 0)))))))))))))))"

definition luks1_seek_before_start_errors :: "crypto_api \<Rightarrow> (clock, LuksError, unit) prog" where
  "luks1_seek_before_start_errors C =
     bindM (liftR (build_luks1 C (replicate 64 0x01))) (\<lambda>(img, _).
     with_volume (on_result unwrap (over_image img (unlock1_with_passphrase C cursor_reader PASS)))
       (bindM (seek_vol (Start 0)) (\<lambda>_.
        on_result (assert_err (\<lambda>_. True)) (map_errM Io (seek (Current (- 1)))))))"

definition unlock_is_bounded_in_aggregate_not_just_per_derivation :: "crypto_api \<Rightarrow> (clock, LuksError, unit) prog" where
  "unlock_is_bounded_in_aggregate_not_just_per_derivation C =
     bindM (liftR (build_luks1 C (replicate (unat L1_KEY_BYTES) 0x33))) (\<lambda>(img, _).
     on_result (assert_err is_UnlockBudgetExceeded)
       (over_image img (unlock1_with_passphrase_within C cursor_reader PASS 0)))"

definition luks1_wrong_passphrase :: "crypto_api \<Rightarrow> (clock, LuksError, unit) prog" where
  "luks1_wrong_passphrase C =
     bindM (liftR (build_luks1 C (replicate 64 0x5C))) (\<lambda>(img, _).
     on_result (assert_err (\<lambda>e. e = AuthenticationFailed))
       (over_image img (unlock1_with_passphrase C cursor_reader (bytes_of_string ''wrong''))))"

definition luks1_no_active_keyslot :: "crypto_api \<Rightarrow> (clock, LuksError, unit) prog" where
  "luks1_no_active_keyslot C =
     bindM (liftR (build_luks1 C (replicate 64 0x5C))) (\<lambda>(img, _).
     bindM (liftR (copy_into img 208 212 (to_be_bytes 4 KEY_DISABLED))) (\<lambda>img.
     on_result (assert_err (\<lambda>e. e = NoActiveKeyslot)) (over_image img (unlock1_with_passphrase C cursor_reader PASS))))"

text \<open>The headers that the next two tests write: one active keyslot, with its hash and its area.\<close>

definition one_slot_writes :: "string \<Rightarrow> u32 \<Rightarrow> (usize \<times> usize \<times> bytes) list" where
  "one_slot_writes hspec km =
     (let base = 208 in
      [(0, 6, LUKS_MAGIC), (6, 8, to_be_bytes 2 (1 :: u16)), (8, 11, bytes_of_string ''aes''),
       (40, 51, bytes_of_string ''xts-plain64''), (72, 72 + length hspec, bytes_of_string hspec),
       (104, 108, to_be_bytes 4 (4 :: u32)), (108, 112, to_be_bytes 4 (64 :: u32)),
       (base, base + 4, to_be_bytes 4 KEY_ENABLED), (base + 4, base + 8, to_be_bytes 4 (5 :: u32)),
       (base + 40, base + 44, to_be_bytes 4 km), (base + 44, base + 48, to_be_bytes 4 (8 :: u32))])"

definition luks1_short_key_material_is_skipped :: "crypto_api \<Rightarrow> (clock, LuksError, unit) prog" where
  "luks1_short_key_material_is_skipped C =
     bindM (liftR (writes (one_slot_writes ''sha256'' 1000) (replicate LUKS1_PHDR_LEN 0))) (\<lambda>img.
     on_result (assert_err (\<lambda>e. e = AuthenticationFailed)) (over_image img (unlock1_with_passphrase C cursor_reader PASS)))"

definition luks1_unsupported_hash_errors :: "crypto_api \<Rightarrow> (clock, LuksError, unit) prog" where
  "luks1_unsupported_hash_errors C =
     bindM (liftR (writes (one_slot_writes ''md5'' 1) (replicate 4096 0))) (\<lambda>img.
     on_result (assert_err (unsupported ''hash'')) (over_image img (unlock1_with_passphrase C cursor_reader PASS)))"

section \<open>Version dispatch\<close>

definition not_a_luks_container :: "crypto_api \<Rightarrow> 'n json_api \<Rightarrow> (clock, LuksError, unit) prog" where
  "not_a_luks_container C J =
     on_result (assert_err is_NotLuks) (over_image (replicate 8 0) (unlock_with_passphrase C J cursor_reader PASS))"

definition unsupported_version :: "crypto_api \<Rightarrow> 'n json_api \<Rightarrow> (clock, LuksError, unit) prog" where
  "unsupported_version C J =
     bindM (liftR (writes [(0, 6, LUKS_MAGIC), (6, 8, to_be_bytes 2 (3 :: u16))] (replicate 8 0))) (\<lambda>img.
     on_result (assert_err (\<lambda>e. e = UnsupportedVersion 3)) (over_image img (unlock_with_passphrase C J cursor_reader PASS)))"

definition split_encryption_without_dash :: "unit res" where
  "split_encryption_without_dash =
     assert_all [split_encryption ''aes'' = (''aes'', []), split_encryption ''aes-xts-plain64'' = (''aes'', ''xts-plain64'')]"

section \<open>Reading\<close>

definition read_available_retries_on_interrupted :: "(bool, LuksError, unit) prog" where
  "read_available_retries_on_interrupted =
     bindM (on_result unwrap (read_available interrupt_once 4)) (\<lambda>(n, buf).
     liftR (assert_all [n = 0, buf = replicate 4 0]))"

definition read_available_propagates_hard_error :: "(unit, LuksError, unit) prog" where
  "read_available_propagates_hard_error = on_result (assert_err (\<lambda>_. True)) (read_available always_error 4)"

section \<open>What unlocking answers\<close>

text \<open>A run of a test that unlocks \<open>img\<close> gives the specified answer.\<close>

definition answers :: "bytes \<Rightarrow> clock \<Rightarrow> (clock, LuksError, cursor DecryptedPayload) prog \<Rightarrow> unit DecryptedPayload res \<Rightarrow> bool" where
  "answers img c m spec \<longleftrightarrow>
     (\<exists>x c'. m c = Some (x, c') \<and> reading c' = reading c \<and> map_outcome forget id x = spec \<and>
       (\<forall>p. x = Ok p \<longrightarrow> cur_data (dp_reader p) = img))"

lemma map_outcome_eq:
  "map_outcome f g x = Ok y \<longleftrightarrow> (\<exists>v. x = Ok v \<and> f v = y)" "map_outcome f g x = Err e \<longleftrightarrow> (\<exists>v. x = Err v \<and> g v = e)"
  by (cases x; auto)+

lemma answers_Err: "answers img c m (Err e) \<Longrightarrow> \<exists>c'. m c = Some (Err e, c') \<and> reading c' = reading c"
  by (auto simp: answers_def map_outcome_eq)

lemma answers_Ok:
  "answers img c m (Ok q) \<Longrightarrow> \<exists>p c'. m c = Some (Ok p, c') \<and> reading c' = reading c \<and> forget p = q \<and> cur_data (dp_reader p) = img"
  by (auto simp: answers_def map_outcome_eq)

lemma over_image_answers:
  fixes c :: clock
  defines "w \<equiv> \<lambda>img. \<lparr>reading = reading c, tick = tick c, rd_state = cursor_new img\<rparr>"
  assumes "cursor.entry_ok ready spec (w img) (m (w img))" and ready
  shows "answers img c (over_image img m) spec"
proof -
  obtain x w' where "m (w img) = Some (x, w')" "cursor.world_step (w img) w'" "map_outcome forget id x = spec"
    "\<forall>p. x = Ok p \<longrightarrow> dp_reader p = rd_state w'"
    using assms(2,3) by (auto simp: cursor.entry_ok_def dest: agrees_calm)
  then show ?thesis
    by (auto simp: answers_def over_image_def over_fresh_def w_def cursor.world_step_def cursor.same_source_def cursor_new_def)
qed

lemma time_to_unlock: "0 < UNLOCK_BUDGET"
  by (simp add: UNLOCK_BUDGET_def from_secs_def)

lemma unlock1_answers:
  assumes "crypto_ok C" and "length img \<le> isize_MAX" and "still c" and "image_supported1 img"
  shows "answers img c (over_image img (unlock1_with_passphrase C cursor_reader pw)) (unlock1_spec C img pw)"
  using cursor.unlock1_within_spec [OF assms(1), of "\<lparr>reading = reading c, tick = tick c, rd_state = cursor_new img\<rparr>" UNLOCK_BUDGET pw] assms time_to_unlock
  by (intro over_image_answers) (auto simp: cursor_new_def still_def unlock1_with_passphrase_def unlock1_with_passphrase_within_def)

lemma unlock2_answers:
  assumes "crypto_ok C" and "length img \<le> isize_MAX" and "still c" and "image_supported2 C J img pw" and "hdr_size_of img \<le> isize_MAX"
  shows "answers img c (over_image img (unlock2_with_passphrase C J cursor_reader pw)) (unlock2_spec C J img pw)"
  using cursor.unlock2_within_spec [OF assms(1), of "\<lparr>reading = reading c, tick = tick c, rd_state = cursor_new img\<rparr>" UNLOCK_BUDGET J pw] assms time_to_unlock
  by (intro over_image_answers) (auto simp: cursor_new_def still_def unlock2_with_passphrase_def unlock2_with_passphrase_within_def)

lemma unlock_answers:
  assumes "crypto_ok C" and "length img \<le> isize_MAX" and "still c" and "image_supported C J img pw"
    and "version_of img = 2 \<Longrightarrow> hdr_size_of img \<le> isize_MAX"
  shows "answers img c (over_image img (unlock_with_passphrase C J cursor_reader pw)) (unlock_spec C J img pw)"
  using cursor.unlock_within_spec [OF assms(1), of "\<lparr>reading = reading c, tick = tick c, rd_state = cursor_new img\<rparr>" J pw UNLOCK_BUDGET] assms time_to_unlock
  by (intro over_image_answers) (auto simp: cursor_new_def still_def unlock_with_passphrase_def image_supported_def cursor.calm_def)

section \<open>The LUKS1 tests pass\<close>

lemma payload_of_forget:
  "forget p = payload1 h mk n () \<Longrightarrow> p = payload1 h mk n (dp_reader p)"
  "forget p = payload2 g mk n () \<Longrightarrow> p = payload2 g mk n (dp_reader p)"
  by (cases p, simp add: forget_def payload1_def payload2_def)+

lemma answers_opened:
  assumes "answers img c m (Ok q)" and "\<And>p :: cursor DecryptedPayload. forget p = q \<Longrightarrow> payload_ok p \<and> plaintext C p img = plain"
    and "crypto_ok C" and "length img \<le> isize_MAX"
  obtains p c' where "m c = Some (Ok p, c')" "forget p = q" "cursor.view_ok C p" "cursor.view C p = plain"
  using answers_Ok [OF assms(1)] assms(2-4) that by (auto simp: cursor.view_ok_def cursor.view_def)

lemma with_volume_passes:
  "unlock c = Some (Ok vol, c') \<Longrightarrow> body vol = Some (Ok (), vol') \<Longrightarrow> passes (with_volume unlock body) c"
  by (auto simp: passes_def with_volume_def bindM_run)

lemma built_luks1:
  assumes C: "crypto_ok C" "xts_inverse C" and m: "length master = 64"
  obtains img where "build_luks1 C master = Ok (img, known_plain 1536)" "length img = 3584" "version_of img = 1"
    "Header1.parse (take 592 img) = Ok (build_header C master)" "image_supported1 img" "take 592 img = encode_luks1 (build_header C master)"
    "unlock1_spec C img PASS = Ok (payload1 (build_header C master) master 3584 ())"
    "\<And>r :: cursor. payload_ok (payload1 (build_header C master) master 3584 r)"
    "\<And>r :: cursor. plaintext C (payload1 (build_header C master) master 3584 r) img = known_plain 1536"
proof -
  note f = build_format_ok [OF C(1) m]
  obtain img where img: "build_luks1 C master = Ok (img, known_plain 1536)" "length img = 3584"
    "luks1_image C Sha256 (build_header C master) build_slot0 master PASS 0x5a (known_plain 1536) = Ok img"
    using build_luks1_image [OF C m] by blast
  have d: "512 dvd length (known_plain 1536)" by (simp add: known_plain_def)
  have parts: "Header1.parse (take 592 img) = Ok (build_header C master)" "take 592 img = encode_luks1 (build_header C master)"
    using luks1_image_built [OF C f img(3)] by blast+
  have "image_supported1 img" using parts(1) build_supported by (simp add: image_supported1_def)
  note u = this luks1_image_unlocks [OF C f d img(3), unfolded img(2)]
  show thesis by (rule that [OF img(1,2) _ parts(1) _ parts(2)]) (use u in simp_all)
qed

lemma luks1_opens:
  assumes C: "crypto_ok C" "xts_inverse C" and m: "length master = 64" and c: "still c"
  obtains img p c' where "build_luks1 C master = Ok (img, known_plain 1536)"
    "over_image img (unlock1_with_passphrase C cursor_reader PASS) c = Some (Ok p, c')"
    "p = payload1 (build_header C master) master 3584 (dp_reader p)"
    "cursor.view_ok C p" "cursor.view C p = known_plain 1536"
    "\<exists>q c'. over_image img (unlock_with_passphrase C J cursor_reader PASS) c = Some (Ok q, c') \<and>
       q = payload1 (build_header C master) master 3584 (dp_reader q) \<and> cursor.view_ok C q \<and> cursor.view C q = known_plain 1536"
proof -
  let ?q = "payload1 (build_header C master) master 3584 ()"
  obtain img where img: "build_luks1 C master = Ok (img, known_plain 1536)" "length img = 3584" "version_of img = 1"
    "image_supported1 img" "unlock1_spec C img PASS = Ok ?q"
    "\<And>r :: cursor. payload_ok (payload1 (build_header C master) master 3584 r)"
    "\<And>r :: cursor. plaintext C (payload1 (build_header C master) master 3584 r) img = known_plain 1536"
    by (rule built_luks1 [OF C m]) blast
  have fits: "length img \<le> isize_MAX" using img(2) by simp
  have ok: "payload_ok p \<and> plaintext C p img = known_plain 1536" if "forget p = ?q" for p :: "cursor DecryptedPayload"
    using img(6,7) [of "dp_reader p"] payload_of_forget(1) [OF that] by simp
  have "unlock_spec C J img PASS = Ok ?q" "image_supported C J img PASS"
    using img(2-5) by (simp_all add: unlock_spec_def image_supported_def)
  then have "answers img c (over_image img (unlock_with_passphrase C J cursor_reader PASS)) (Ok ?q)"
    using unlock_answers [OF C(1) fits c, of J PASS] img(3) by simp
  then obtain q c2 where q: "over_image img (unlock_with_passphrase C J cursor_reader PASS) c = Some (Ok q, c2)" "forget q = ?q"
    "cursor.view_ok C q" "cursor.view C q = known_plain 1536"
    by (rule answers_opened [OF _ ok C(1) fits])
  have "answers img c (over_image img (unlock1_with_passphrase C cursor_reader PASS)) (Ok ?q)"
    using unlock1_answers [OF C(1) fits c img(4), of PASS] img(5) by simp
  then obtain p c1 where p: "over_image img (unlock1_with_passphrase C cursor_reader PASS) c = Some (Ok p, c1)" "forget p = ?q"
    "cursor.view_ok C p" "cursor.view C p = known_plain 1536"
    by (rule answers_opened [OF _ ok C(1) fits])
  from q payload_of_forget(1) [OF q(2)] show thesis
    by (intro that [OF img(1) p(1) payload_of_forget(1) [OF p(2)] p(3,4)]) blast
qed

text \<open>Reading and seeking in the volume.\<close>

lemma plaintext_reader [simp]:
  "plaintext C (p\<lparr>dp_reader := r\<rparr>) img = plaintext C p img" "plaintext C (p\<lparr>dp_position := q\<rparr>) img = plaintext C p img"
  by (simp_all add: plaintext_def plain_byte_def unit_plain_def unit_cipher_def payload_size_def cong: map_cong)

lemma read_at_view:
  assumes "cursor.view_ok C p" and "cursor.view C p = plain" and "unat offset + length buf \<le> length plain"
  obtains p' where "read_at C cursor_reader offset buf p = Some (Ok (take (length buf) (drop (unat offset) plain)), p')"
    "cursor.view_ok C p'" "cursor.view C p' = plain"
proof -
  have ok: "crypto_ok C" "payload_ok p" "length (cur_data (dp_reader p)) \<le> isize_MAX" "plaintext C p (cur_data (dp_reader p)) = plain"
    using assms(1,2) by (simp_all add: cursor.view_ok_def cursor.view_def)
  obtain r where "read_at C cursor_reader offset buf p =
      Some (Ok (take (length buf) (drop (unat offset) plain)), p\<lparr>dp_reader := r\<rparr>)" "cursor.same_source (dp_reader p) r"
    using read_at_of_plaintext [OF ok(1-3) refl ok(4) assms(3)] keepsD [OF cursor.read_at_frame, of C offset buf p] ok(3)
    by (fastforce simp: cursor.view_step_def)
  with assms show thesis by (intro that [of "p\<lparr>dp_reader := r\<rparr>"]) (auto simp: cursor.view_ok_def cursor.view_def cursor.same_source_def)
qed

lemma payload1_size: "p = payload1 (build_header C master) master 3584 r \<Longrightarrow> payload_size p = 1536"
  by (simp add: payload_size_def payload1_def build_header_def L1_defs sat_sub_def)

lemma seeks:
  assumes "payload_size p = 1536"
  shows "seek (Start q) p = Some (Ok q, p\<lparr>dp_position := q\<rparr>)"
    and "seek (End 0) p = Some (Ok 1536, p\<lparr>dp_position := 1536\<rparr>)"
    and "seek (End (- 1)) p = Some (Ok 1535, p\<lparr>dp_position := 1535\<rparr>)"
    and "dp_position p = 512 \<Longrightarrow> seek (Current (- 256)) p = Some (Ok 256, p\<lparr>dp_position := 256\<rparr>)"
    and "dp_position p = 0 \<Longrightarrow> seek (Current (- 1)) p = Some (Err (IoError InvalidInput ''seek before start''), p)"
  using assms by (simp_all add: seek_def)

lemma seek_vol_run: "seek q p = Some (Ok n, p') \<Longrightarrow> seek_vol q p = Some (Ok n, p')"
  by (simp add: seek_vol_def map_errM_def)

lemma payload_size_position [simp]: "payload_size (p\<lparr>dp_position := q\<rparr>) = payload_size p"
  by (simp add: payload_size_def)

lemma luks1_roundtrip_via_autodetect_passes:
  fixes c :: clock
  assumes C: "crypto_ok C" "xts_inverse C" and c: "still c"
  shows "passes (luks1_roundtrip_via_autodetect C J) c"
proof -
  let ?plain = "known_plain 1536"
  have m: "length autodetect_master = 64" by (simp add: autodetect_master_def)
  obtain img p c' where p: "build_luks1 C autodetect_master = Ok (img, ?plain)"
    "over_image img (unlock_with_passphrase C J cursor_reader PASS) c = Some (Ok p, c')"
    "p = payload1 (build_header C autodetect_master) autodetect_master 3584 (dp_reader p)"
    "cursor.view_ok C p" "cursor.view C p = ?plain"
    by (rule luks1_opens [OF C m c]) blast
  obtain p0 where p0: "read_at C cursor_reader 0 (replicate 512 0) p = Some (Ok (take 512 (drop 0 ?plain)), p0)"
    "cursor.view_ok C p0" "cursor.view C p0 = ?plain"
    by (rule read_at_view [OF p(4,5), of 0 "replicate 512 0"]) simp_all
  obtain p1 where p1: "read_at C cursor_reader 512 (replicate 512 0) p0 = Some (Ok (take 512 (drop 512 ?plain)), p1)"
    "cursor.view_ok C p1" "cursor.view C p1 = ?plain"
    by (rule read_at_view [OF p0(2,3), of 512 "replicate 512 0"]) simp_all
  obtain p2 where p2: "read_at C cursor_reader 1024 (replicate 512 0) p1 = Some (Ok (take 512 (drop 1024 ?plain)), p2)"
    by (rule read_at_view [OF p1(2,3), of 1024 "replicate 512 0"]) simp_all
  have "info p = \<lparr>info_version = 1, info_cipher_name = ''aes'', info_cipher_mode = ''xts-plain64'', info_key_bytes = 64, info_sector_size = 512\<rparr>"
    "master_key p = autodetect_master"
    by (subst p(3), simp add: info_def master_key_def payload1_def build_header_def L1_defs)+
  then show ?thesis
    unfolding luks1_roundtrip_via_autodetect_def
    using p(1,2) p0(1) p1(1) p2 payload1_size [OF p(3)]
    by (simp add: bindM_run, intro with_volume_passes [of _ c p c' _ p2]) (simp_all add: bindM_run the_volume_def Let_def)
qed

lemma luks1_read_seek_traits_passes:
  fixes c :: clock
  assumes C: "crypto_ok C" "xts_inverse C" and c: "still c" and cap: "\<And>k. 0 < cap k \<and> cap k \<le> isize_MAX"
  shows "passes (luks1_read_seek_traits C dbg cap) c"
proof -
  let ?plain = "known_plain 1536"
  obtain img p c' where p: "build_luks1 C (replicate 64 0xAB) = Ok (img, ?plain)"
    "over_image img (unlock1_with_passphrase C cursor_reader PASS) c = Some (Ok p, c')"
    "p = payload1 (build_header C (replicate 64 0xAB)) (replicate 64 0xAB) 3584 (dp_reader p)"
    "cursor.view_ok C p" "cursor.view C p = ?plain"
    by (rule luks1_opens [OF C _ c, of "replicate 64 0xAB"]) (simp, blast)
  note size = payload1_size [OF p(3)]
  let ?p0 = "p\<lparr>dp_position := 0\<rparr>"
  have v0: "cursor.view_ok C ?p0" "cursor.view C ?p0 = ?plain"
    using p(4,5) by (simp_all add: cursor.view_ok_def cursor.view_def)
  obtain q where q: "read_to_end (rd_read (payload_reader C dbg cursor_reader)) cap 0 [] ?p0 = Some (Ok ?plain, q)"
    "payload.same_source C ?p0 q" "1536 \<le> unat (dp_position q)"
    using payload.read_to_end_spec [where cap = cap, OF v0(1) cap, of dbg 0 "[]"] v0(2) by auto
  have "length (cursor.view C q) = 1536" using q(2) v0(2) by (simp add: payload.same_source_def)
  then have "unat (payload_size q) = 1536" by (simp add: cursor.view_def)
  then have "read C dbg cursor_reader (replicate 16 0) q = Some (Ok (0, replicate 16 0), q)"
    using q(3) by (simp add: read_def Let_def word_le_nat_alt)
  then have z: "on_result unwrap (map_errM Io (read C dbg cursor_reader (replicate 16 0))) q = Some (Ok (0, replicate 16 0), q)"
    by (simp add: map_errM_def)
  have moves: "seek_vol (Start 512) p = Some (Ok 512, p\<lparr>dp_position := 512\<rparr>)"
    "seek_vol (Current (- 256)) (p\<lparr>dp_position := 512\<rparr>) = Some (Ok 256, p\<lparr>dp_position := 256\<rparr>)"
    "seek_vol (End 0) (p\<lparr>dp_position := 256\<rparr>) = Some (Ok 1536, p\<lparr>dp_position := 1536\<rparr>)"
    "seek_vol (End (- 1)) (p\<lparr>dp_position := 1536\<rparr>) = Some (Ok 1535, p\<lparr>dp_position := 1535\<rparr>)"
    "seek_vol (Start 0) (p\<lparr>dp_position := 1535\<rparr>) = Some (Ok 0, p\<lparr>dp_position := 0\<rparr>)"
    using size by (simp_all add: seek_vol_run seeks)
  show ?thesis
    unfolding luks1_read_seek_traits_def using p(1,2)
    by (simp add: bindM_run, intro with_volume_passes [of _ c p c' _ q]) (simp_all add: bindM_run moves q(1) z)
qed

lemma luks1_seek_before_start_errors_passes:
  fixes c :: clock
  assumes C: "crypto_ok C" "xts_inverse C" and c: "still c"
  shows "passes (luks1_seek_before_start_errors C) c"
proof -
  let ?plain = "known_plain 1536"
  obtain img p c' where p: "build_luks1 C (replicate 64 0x01) = Ok (img, ?plain)"
    "over_image img (unlock1_with_passphrase C cursor_reader PASS) c = Some (Ok p, c')"
    "p = payload1 (build_header C (replicate 64 0x01)) (replicate 64 0x01) 3584 (dp_reader p)"
    by (rule luks1_opens [OF C _ c, of "replicate 64 0x01"]) (simp, blast)
  show ?thesis
    unfolding luks1_seek_before_start_errors_def
    using p(1,2) payload1_size [OF p(3)]
    by (simp add: bindM_run, intro with_volume_passes [of _ c p c' _ "p\<lparr>dp_position := 0\<rparr>"])
      (simp_all add: bindM_run seek_vol_run seeks map_errM_def)
qed

text \<open>The headers of the tests of refusals.\<close>

lemma disabled_header:
  assumes C: "crypto_ok C" and m: "length master = 64" and e: "encode_luks1 (build_header C master) = e"
  shows "Header1.parse (take 208 e @ to_be_bytes 4 KEY_DISABLED @ drop 212 e) =
     Ok ((build_header C master)\<lparr>keyslots := build_slot0\<lparr>active := KEY_DISABLED\<rparr> # replicate 7 build_slot\<rparr>)" (is "_ = Ok ?h")
proof -
  note f = build_format_ok [OF C m, unfolded format_ok_def]
  have shape: "header1_shape ?h" "header1_text_ok ?h" "version ?h = 1"
    using f by (auto simp: header1_shape_def header1_text_ok_def build_header_def list_all_iff slot_shape_def build_slot0_def)
  let ?front = "encode_luks1 ((build_header C master)\<lparr>keyslots := []\<rparr>)"
  have front: "length ?front = 208"
    using conjunct1 [OF f] f [THEN conjunct2, THEN conjunct1] by (simp add: encode_luks1_def header1_text_ok_def header1_shape_def header1_consts str.encode_length)
  have "e = ?front @ to_be_bytes 4 KEY_ENABLED @ drop 4 (encode_slot build_slot0) @ concat (map encode_slot (replicate 7 build_slot))"
    unfolding e [symmetric] by (simp add: encode_luks1_def build_header_def encode_slot_def build_slot0_def)
  then have "take 208 e @ to_be_bytes 4 KEY_DISABLED @ drop 212 e =
      ?front @ to_be_bytes 4 KEY_DISABLED @ drop 4 (encode_slot build_slot0) @ concat (map encode_slot (replicate 7 build_slot))"
    using front by simp
  also have "\<dots> = encode_luks1 ?h"
    by (simp add: encode_luks1_def build_header_def encode_slot_def build_slot0_def)
  finally show ?thesis using parse_encode [OF shape, of "[]"] by simp
qed

definition one_slot_image :: "string \<Rightarrow> u32 \<Rightarrow> usize \<Rightarrow> bytes" where
  "one_slot_image hspec km n = spread 0 (one_slot_writes hspec km) n"

lemma one_slot_ascending: "length hspec \<le> 32 \<Longrightarrow> 592 \<le> n \<Longrightarrow> ascending 0 (one_slot_writes hspec km) n"
  by (simp add: one_slot_writes_def header1_consts)

lemma one_slot_written:
  assumes "length hspec \<le> 32" and "592 \<le> n"
  shows "writes (one_slot_writes hspec km) (replicate n 0) = Ok (one_slot_image hspec km n)"
    and "take 592 (one_slot_image hspec km n) = one_slot_image hspec km 592"
    and "length (one_slot_image hspec km n) = n"
proof -
  show "writes (one_slot_writes hspec km) (replicate n 0) = Ok (one_slot_image hspec km n)"
    unfolding one_slot_image_def using assms by (intro writes_spread one_slot_ascending)
  have full: "length (one_slot_image hspec km k) = k" if "592 \<le> k" for k
    using length_spread [OF one_slot_ascending [OF assms(1) that]] by (simp add: one_slot_image_def)
  show "length (one_slot_image hspec km n) = n" by (rule full [OF assms(2)])
  show "take 592 (one_slot_image hspec km n) = one_slot_image hspec km 592"
    using spread_longer [OF one_slot_ascending [OF assms(1) order_refl] assms(2)] full [OF order_refl]
    by (simp add: one_slot_image_def)
qed

text \<open>The header they spell out.\<close>

definition one_slot_header :: "string \<Rightarrow> u32 \<Rightarrow> Luks1Header" where
  "one_slot_header hspec km =
     \<lparr>version = 1, cipher_name = ''aes'', cipher_mode = ''xts-plain64'', hash_spec = hspec, payload_offset = 4, key_bytes = 64,
      mk_digest = replicate 20 0, mk_digest_salt = replicate 32 0, mk_digest_iter = 0, uuid = [],
      keyslots = \<lparr>active = KEY_ENABLED, iterations = 5, salt = replicate 32 0, key_material_offset = km, stripes = 8\<rparr> #
        replicate 7 \<lparr>active = 0, iterations = 0, salt = replicate 32 0, key_material_offset = 0, stripes = 0\<rparr>\<rparr>"

lemma replicate_merge: "replicate m x @ replicate n x @ ys = replicate (m + n) x @ ys"
  by (simp add: replicate_add)

lemma one_slot_encoded:
  assumes "length hspec \<le> 32"
  shows "one_slot_image hspec km 592 = encode_luks1 (one_slot_header hspec km)"
proof -
  have zero: "to_be_bytes 4 (0 :: u32) = replicate 4 0" by (simp add: numeral_eq_Suc)
  have pad: "pad_field n s = bytes_of_string s @ replicate (n - length s) 0" for n s by (simp add: pad_field_def)
  show ?thesis
    using assms
    by (simp add: one_slot_image_def one_slot_writes_def header1_consts encode_luks1_def one_slot_header_def encode_slot_def zero pad
        replicate_merge replicate_add [symmetric] concat_replicate_replicate bytes_of_string_def [of "[]"])
qed

lemma one_slot_parsed:
  assumes "text_fits 32 hspec" and "592 \<le> n"
  shows "Header1.parse (take 592 (one_slot_image hspec km n)) = Ok (one_slot_header hspec km)"
    and "active_keyslots (one_slot_header hspec km) =
      [\<lparr>active = KEY_ENABLED, iterations = 5, salt = replicate 32 0, key_material_offset = km, stripes = 8\<rparr>]"
proof -
  have len: "length hspec \<le> 32" using assms(1) by (simp add: text_fits_def)
  have "header1_shape (one_slot_header hspec km)" "header1_text_ok (one_slot_header hspec km)" "version (one_slot_header hspec km) = 1"
    using assms(1) by (simp_all add: header1_shape_def header1_text_ok_def one_slot_header_def header1_consts list_all_iff slot_shape_def
        text_fits_def is_ascii_def)
  from parse_encode [OF this, of "[]"]
  show "Header1.parse (take 592 (one_slot_image hspec km n)) = Ok (one_slot_header hspec km)"
    by (simp add: one_slot_written(2) [OF len assms(2)] one_slot_encoded [OF len])
  show "active_keyslots (one_slot_header hspec km) =
      [\<lparr>active = KEY_ENABLED, iterations = 5, salt = replicate 32 0, key_material_offset = km, stripes = 8\<rparr>]"
    by (simp add: active_keyslots_def one_slot_header_def is_active_def KEY_ENABLED_def)
qed

text \<open>The deadline and the state with which a test that starts at \<open>c\<close> enters the unlocking of an image.\<close>

definition deadline_at :: "clock \<Rightarrow> duration \<Rightarrow> UnlockDeadline" where
  "deadline_at c budget = \<lparr>started = reading c (tick c), total = budget\<rparr>"

definition world_at :: "clock \<Rightarrow> bytes \<Rightarrow> cursor world" where
  "world_at c img = \<lparr>reading = reading c, tick = Suc (tick c), rd_state = cursor_new img\<rparr>"

lemma world_at_simps [simp]: "cur_data (rd_state (world_at c img)) = img" "total (deadline_at c budget) = budget"
  by (simp_all add: world_at_def deadline_at_def cursor_new_def)

lemma over_image_deadline:
  "body (deadline_at c budget) (world_at c img) = Some (x, w) \<Longrightarrow>
   \<exists>c'. over_image img (bindM (UnlockDeadline_new budget) body) c = Some (x, c')"
  by (simp add: over_image_def over_fresh_def cursor.deadline_run deadline_at_def world_at_def)

lemma idle_at: "still c \<Longrightarrow> 0 < budget \<Longrightarrow> idle (deadline_at c budget) (world_at c img)"
  unfolding still_def idle_def deadline_at_def world_at_def by (metis UnlockDeadline.select_convs clock.select_convs(1))

lemma on_time: "idle dl w \<Longrightarrow> \<exists>left. remaining dl t w = Some (Ok left, w\<lparr>tick := Suc (tick w)\<rparr>)"
  by (simp add: remaining_value idle_def Let_def)

lemma unlock_is_bounded_in_aggregate_not_just_per_derivation_passes:
  fixes c :: clock
  assumes C: "crypto_ok C" "xts_inverse C" and c: "still c"
  shows "passes (unlock_is_bounded_in_aggregate_not_just_per_derivation C) c"
proof -
  let ?m = "replicate 64 0x33 :: bytes"
  obtain img where img: "build_luks1 C ?m = Ok (img, known_plain 1536)" "length img = 3584"
    "Header1.parse (take 592 img) = Ok (build_header C ?m)"
    by (rule built_luks1 [OF C, of ?m]) simp_all
  have "active_keyslots (build_header C ?m) \<noteq> []" using build_format_ok [OF C(1), of ?m] by (auto simp: format_ok_def)
  with cursor.expired1 [of "world_at c img" "deadline_at c 0" "build_header C ?m" C PASS] img
  obtain w where "unlock1_inner C cursor_reader PASS (deadline_at c 0) (world_at c img) = Some (Err (UnlockBudgetExceeded 0 0), w)"
    by auto
  from over_image_deadline [where body = "unlock1_inner C cursor_reader PASS", OF this] img(1) show ?thesis
    by (auto simp: passes_def unlock_is_bounded_in_aggregate_not_just_per_derivation_def bindM_run L1_KEY_BYTES_def
        unlock1_with_passphrase_within_def on_result_def)
qed

lemma luks1_no_active_keyslot_passes:
  fixes c :: clock
  assumes C: "crypto_ok C" "xts_inverse C" and c: "still c"
  shows "passes (luks1_no_active_keyslot C) c"
proof -
  let ?m = "replicate 64 0x5C :: bytes"
  obtain img where img: "build_luks1 C ?m = Ok (img, known_plain 1536)" "length img = 3584"
    "take 592 img = encode_luks1 (build_header C ?m)"
    by (rule built_luks1 [OF C, of ?m]) simp_all
  let ?off = "take 208 img @ to_be_bytes 4 KEY_DISABLED @ drop 212 img"
  have "take 592 ?off = take 208 (take 592 img) @ to_be_bytes 4 KEY_DISABLED @ drop 212 (take 592 img)"
    using img(2) by (simp add: drop_take)
  then have parse: "Header1.parse (take 592 ?off) =
      Ok ((build_header C ?m)\<lparr>keyslots := build_slot0\<lparr>active := KEY_DISABLED\<rparr> # replicate 7 build_slot\<rparr>)" (is "_ = Ok ?h")
    using disabled_header [OF C(1) _ img(3) [symmetric]] by simp
  have none: "active_keyslots ?h = []"
    using disabled_not_enabled by (simp add: active_keyslots_def is_active_def build_slot_def)
  then have "image_supported1 ?off" "unlock1_spec C ?off PASS = Err NoActiveKeyslot"
    using parse img(2) by (simp_all add: image_supported1_def unlock1_spec_def supported1_def build_header_def hash_of_name_def L1_defs)
  then have "answers ?off c (over_image ?off (unlock1_with_passphrase C cursor_reader PASS)) (Err NoActiveKeyslot)"
    using unlock1_answers [OF C(1) _ c, of ?off PASS] img(2) by simp
  from answers_Err [OF this] img(1,2) show ?thesis
    by (auto simp: passes_def luks1_no_active_keyslot_def bindM_run copy_into_Ok on_result_def)
qed

lemma luks1_short_key_material_is_skipped_passes:
  fixes c :: clock
  assumes C: "crypto_ok C" "xts_inverse C" and c: "still c"
  shows "passes (luks1_short_key_material_is_skipped C) c"
proof -
  let ?img = "one_slot_image ''sha256'' 1000 592" and ?h = "one_slot_header ''sha256'' 1000"
  have fits: "text_fits 32 ''sha256''" "length ''sha256'' \<le> 32" by (simp_all add: text_fits_def is_ascii_def)
  note parsed = one_slot_parsed [OF fits(1), of 592 1000] and written = one_slot_written [OF fits(2), of 592 1000]
  have "material_len 64 8 = Ok 512" by (simp add: material_len_def checked_mul_def usize_mul_def MAX_STRIPES_def div_ceil_def)
  then have "open_slot1 C ?h ?img PASS s = None" if "s \<in> set (active_keyslots ?h)" for s
    using that parsed(2) written(3)
    by (simp add: open_slot1_def one_slot_header_def hash_of_name_def area_candidate_def Let_def)
  then have "unlock1_spec C ?img PASS = Err AuthenticationFailed" "image_supported1 ?img"
    using parsed written(3)
    by (simp_all add: unlock1_spec_def image_supported1_def supported1_def one_slot_header_def hash_of_name_def MAX_STRIPES_def)
  then have "answers ?img c (over_image ?img (unlock1_with_passphrase C cursor_reader PASS)) (Err AuthenticationFailed)"
    using unlock1_answers [OF C(1) _ c, of ?img PASS] written(3) by simp
  from answers_Err [OF this] written(1) show ?thesis
    by (auto simp: passes_def luks1_short_key_material_is_skipped_def LUKS1_PHDR_LEN_def bindM_run on_result_def)
qed

lemma luks1_unsupported_hash_errors_passes:
  fixes c :: clock
  assumes C: "crypto_ok C" "xts_inverse C" and c: "still c"
  shows "passes (luks1_unsupported_hash_errors C) c"
proof -
  let ?img = "one_slot_image ''md5'' 1 4096" and ?h = "one_slot_header ''md5'' 1"
  have fits: "text_fits 32 ''md5''" "length ''md5'' \<le> 32" by (simp_all add: text_fits_def is_ascii_def)
  note parsed = one_slot_parsed [OF fits(1), of 4096 1] and written = one_slot_written [OF fits(2), of 4096 1]
  obtain w1 where w1: "cursor.world_step (world_at c ?img) w1" "unlock1_inner C cursor_reader PASS (deadline_at c UNLOCK_BUDGET) (world_at c ?img) =
      cursor.finish1 C PASS (deadline_at c UNLOCK_BUDGET) ?h w1"
    using cursor.unlock1_start [of "world_at c ?img" C PASS "deadline_at c UNLOCK_BUDGET"] written(3) parsed(1) by auto
  have "idle (deadline_at c UNLOCK_BUDGET) w1" using cursor.world_stepD(3) [OF w1(1)] idle_at [OF c time_to_unlock] by blast
  then obtain left where "remaining (deadline_at c UNLOCK_BUDGET) 0 w1 = Some (Ok left, w1\<lparr>tick := Suc (tick w1)\<rparr>)"
    using on_time by blast
  then obtain w2 where "unlock1_inner C cursor_reader PASS (deadline_at c UNLOCK_BUDGET) (world_at c ?img) =
      Some (Err (Unsupported ''hash'' ''md5''), w2)"
    using w1(2) parsed(2) by (simp add: cursor.finish1_def recover_master_key1_def bindM_run derive_key_value
        one_slot_header_def hash_of_name_def MAX_KEY_BYTES_def)
  from over_image_deadline [where body = "unlock1_inner C cursor_reader PASS", OF this] written(1) show ?thesis
    by (auto simp: passes_def luks1_unsupported_hash_errors_def unlock1_with_passphrase_def bindM_run on_result_def unsupported_def)
qed

text \<open>The test with a wrong passphrase passes exactly when the passphrase does not open the slot by chance.\<close>

lemma wrong_passphrase_spec:
  assumes "Header1.parse (take 592 img) = Ok (build_header C master)" and "592 \<le> length img"
  shows "unlock1_spec C img pw =
     (case open_slot1 C (build_header C master) img pw build_slot0 of
        None \<Rightarrow> Err AuthenticationFailed
      | Some mk \<Rightarrow> Ok (payload1 (build_header C master) mk (of_nat (length img)) ()))"
proof -
  have "active_keyslots (build_header C master) = [build_slot0]"
    using disabled_not_enabled by (simp add: active_keyslots_def build_header_def is_active_def build_slot0_def build_slot_def)
  with assms show ?thesis by (simp add: unlock1_spec_def split: option.split)
qed

lemma answers_decide:
  assumes "answers img c m (case opt of None \<Rightarrow> Err e | Some v \<Rightarrow> Ok (f v))" and "P e"
  shows "passes (on_result (assert_err P) m) c \<longleftrightarrow> opt = None"
proof (cases opt)
  case None
  then show ?thesis using answers_Err [of img c m e] assms by (auto simp: passes_def)
next
  case (Some v)
  then obtain p c' where "m c = Some (Ok p, c')" using answers_Ok [of img c m "f v"] assms(1) by auto
  with Some show ?thesis by (simp add: passes_def)
qed

lemma luks1_wrong_passphrase_decided:
  fixes c :: clock
  assumes C: "crypto_ok C" "xts_inverse C" and c: "still c"
  shows "\<exists>img. build_luks1 C (replicate 64 0x5C) = Ok (img, known_plain 1536) \<and>
     (passes (luks1_wrong_passphrase C) c \<longleftrightarrow>
      open_slot1 C (build_header C (replicate 64 0x5C)) img (bytes_of_string ''wrong'') build_slot0 = None)"
proof -
  let ?m = "replicate 64 0x5C :: bytes" and ?pw = "bytes_of_string ''wrong''"
  obtain img where img: "build_luks1 C ?m = Ok (img, known_plain 1536)" "length img = 3584"
    "Header1.parse (take 592 img) = Ok (build_header C ?m)" "image_supported1 img"
    by (rule built_luks1 [OF C, of ?m]) simp_all
  have "answers img c (over_image img (unlock1_with_passphrase C cursor_reader ?pw)) (unlock1_spec C img ?pw)"
    using img(2) by (intro unlock1_answers [OF C(1) _ c img(4)]) simp
  moreover have "unlock1_spec C img ?pw = (case open_slot1 C (build_header C ?m) img ?pw build_slot0 of
      None \<Rightarrow> Err AuthenticationFailed | Some mk \<Rightarrow> Ok (payload1 (build_header C ?m) mk (of_nat (length img)) ()))"
    using img(2) by (intro wrong_passphrase_spec [OF img(3)]) simp
  ultimately have "passes (on_result (assert_err (\<lambda>e. e = AuthenticationFailed)) (over_image img (unlock1_with_passphrase C cursor_reader ?pw))) c \<longleftrightarrow>
      open_slot1 C (build_header C ?m) img ?pw build_slot0 = None"
    by (intro answers_decide) simp_all
  with img(1) show ?thesis by (simp add: luks1_wrong_passphrase_def passes_def)
qed

section \<open>The other tests pass\<close>

lemma not_a_luks_container_passes:
  fixes c :: clock
  assumes "crypto_ok C" and "still c"
  shows "passes (not_a_luks_container C J) c"
proof -
  have v: "version_of (replicate 8 0) = 0" by (simp add: version_of_def from_be_bytes_def numeral_2_eq_2)
  then have "unlock_spec C J (replicate 8 0) PASS = Err (NotLuks (replicate 6 0))" by (simp add: unlock_spec_def header1_consts)
  with v have "answers (replicate 8 0) c (over_image (replicate 8 0) (unlock_with_passphrase C J cursor_reader PASS))
      (Err (NotLuks (replicate 6 0)))"
    using unlock_answers [OF assms(1) _ assms(2), of "replicate 8 0" J PASS] by (simp add: image_supported_def)
  from answers_Err [OF this] show ?thesis by (auto simp: passes_def not_a_luks_container_def on_result_def)
qed

lemma unsupported_version_passes:
  fixes c :: clock
  assumes "crypto_ok C" and "still c"
  shows "passes (unsupported_version C J) c"
proof -
  let ?ws = "[(0, 6, LUKS_MAGIC), (6, 8, to_be_bytes 2 (3 :: u16))]" and ?img = "LUKS_MAGIC @ to_be_bytes 2 (3 :: u16)"
  have img: "writes ?ws (replicate 8 0) = Ok ?img"
    using writes_spread [of ?ws 8] by (simp add: LUKS_MAGIC_def)
  have len: "length LUKS_MAGIC = 6" by (simp add: LUKS_MAGIC_def)
  have v: "version_of ?img = 3" using len by (simp add: version_of_def)
  then have "unlock_spec C J ?img PASS = Err (UnsupportedVersion 3)" using len by (simp add: unlock_spec_def)
  then have "answers ?img c (over_image ?img (unlock_with_passphrase C J cursor_reader PASS)) (Err (UnsupportedVersion 3))"
    using unlock_answers [OF assms(1) _ assms(2), of ?img J PASS] v len by (simp add: image_supported_def)
  from answers_Err [OF this] img show ?thesis by (auto simp: passes_def unsupported_version_def bindM_run on_result_def)
qed

lemma split_encryption_without_dash_passes: "split_encryption_without_dash = Ok ()"
  by (simp add: split_encryption_without_dash_def split_encryption_def)

lemma reading_tests: "passes read_available_retries_on_interrupted False" "passes read_available_propagates_hard_error ()"
proof -
  obtain b where "read_available interrupt_once 4 False = Some (Ok (0, replicate 4 0), b)"
    using interrupt_once.read_available_spec [of 4 False] by (auto simp: interrupt_once.available_def)
  then show "passes read_available_retries_on_interrupted False"
    by (simp add: passes_def read_available_retries_on_interrupted_def bindM_run)
  show "passes read_available_propagates_hard_error ()"
    using hard_error_is_reported [of always_error "()" 4 "IoError OtherKind ''boom''" "()"]
    by (simp add: passes_def read_available_propagates_hard_error_def always_error_def)
qed

end
