(* ===== verification/Tests_Volume2.thy ===== *)
theory Tests_Volume2
  imports Tests_Volume Tests_Headers
begin

text \<open>
  The LUKS2 unit tests of \<^verbatim>\<open>core/src/volume.rs\<close>, one definition per test.  \<open>enc\<close> is the encoder of
  the base64 crate and \<open>num\<close> makes a number of the JSON crate.
\<close>

section \<open>Containers that unlock\<close>

text \<open>The KDF fragments that the tests format.\<close>

definition argon2_kdf_text :: "(bytes \<Rightarrow> string) \<Rightarrow> bytes \<Rightarrow> string" where
  \<open>argon2_kdf_text enc slt = ''{"type":"argon2id","time":1,"memory":32,"cpus":1,"salt":"'' @ enc slt @ ''"}''\<close>

definition pbkdf2_kdf_text :: "(bytes \<Rightarrow> string) \<Rightarrow> bytes \<Rightarrow> string" where
  \<open>pbkdf2_kdf_text enc slt = ''{"type":"pbkdf2","hash":"sha256","iterations":5,"salt":"'' @ enc slt @ ''"}''\<close>

text \<open>The first statements of the tests: derive a slot key and build the container.\<close>

definition argon2_volume :: "crypto_api \<Rightarrow> (bytes \<Rightarrow> string) \<Rightarrow> usize \<Rightarrow> (clock, LuksError, bytes \<times> bytes) prog" where
  "argon2_volume C enc ssize =
     (let slt = replicate 16 0x77 in
      bindM (on_result unwrap (derive_key_argon2_within C (argon2id 1 32 slt) PASS 64 DERIVATION_BUDGET)) (\<lambda>slot_key.
      liftR (build_luks2_volume C enc (replicate 64 0xC3) slot_key (argon2_kdf_text enc slt) ssize)))"

definition pbkdf2_volume :: "crypto_api \<Rightarrow> (bytes \<Rightarrow> string) \<Rightarrow> bytes \<Rightarrow> (clock, LuksError, bytes \<times> bytes) prog" where
  "pbkdf2_volume C enc master =
     (let slt = replicate 16 0x88 in
      bindM (on_result unwrap (derive_key_within C ''sha256'' PASS slt 5 64 DERIVATION_BUDGET)) (\<lambda>slot_key.
      liftR (build_luks2_volume C enc master slot_key (pbkdf2_kdf_text enc slt) 512)))"

definition luks2_argon2id_roundtrip :: "crypto_api \<Rightarrow> 'n json_api \<Rightarrow> (bytes \<Rightarrow> string) \<Rightarrow> (clock, LuksError, unit) prog" where
  "luks2_argon2id_roundtrip C J enc =
     bindM (argon2_volume C enc 4096) (\<lambda>(img, plain).
     with_volume (on_result unwrap (over_image img (unlock_with_passphrase C J cursor_reader PASS)))
       (bindM the_volume (\<lambda>vol.
        bindM (liftR (assert_all
          [info_version (info vol) = 2, info_cipher_name (info vol) = ''aes'', info_cipher_mode (info vol) = ''xts-plain64'',
           info_sector_size (info vol) = 4096, info_key_bytes (info vol) = 64, master_key vol = replicate 64 0xC3])) (\<lambda>_.
        bindM (on_result unwrap (read_at C cursor_reader 0 (replicate 512 0))) (\<lambda>buf.
        liftR (assert_that (buf = take 512 plain)))))))"

definition luks2_pbkdf2_roundtrip :: "crypto_api \<Rightarrow> 'n json_api \<Rightarrow> (bytes \<Rightarrow> string) \<Rightarrow> (clock, LuksError, unit) prog" where
  "luks2_pbkdf2_roundtrip C J enc =
     bindM (pbkdf2_volume C enc (replicate 64 0x1E)) (\<lambda>(img, plain).
     with_volume (on_result unwrap (over_image img (unlock2_with_passphrase C J cursor_reader PASS)))
       (bindM the_volume (\<lambda>vol.
        bindM (liftR (assert_that (info_sector_size (info vol) = 512))) (\<lambda>_.
        bindM (on_result unwrap (read_at C cursor_reader 0 (replicate 512 0))) (\<lambda>buf.
        liftR (assert_that (buf = take 512 plain)))))))"

section \<open>The deadline\<close>

definition luks2_pbkdf2_unlock_is_bounded_in_aggregate_not_just_per_derivation ::
  "crypto_api \<Rightarrow> 'n json_api \<Rightarrow> (bytes \<Rightarrow> string) \<Rightarrow> (clock, LuksError, unit) prog" where
  "luks2_pbkdf2_unlock_is_bounded_in_aggregate_not_just_per_derivation C J enc =
     bindM (pbkdf2_volume C enc (replicate 64 0x44)) (\<lambda>(img, _).
     on_result (assert_err (\<lambda>e. is_UnlockBudgetExceeded e \<and> slots_tried e = 0))
       (over_image img (unlock2_with_passphrase_within C J cursor_reader PASS 0)))"

definition luks2_argon2_unlock_is_bounded_in_aggregate_too ::
  "crypto_api \<Rightarrow> 'n json_api \<Rightarrow> (bytes \<Rightarrow> string) \<Rightarrow> (clock, LuksError, unit) prog" where
  "luks2_argon2_unlock_is_bounded_in_aggregate_too C J enc =
     bindM (argon2_volume C enc 512) (\<lambda>(img, _).
     on_result (assert_err (\<lambda>e. is_UnlockBudgetExceeded e \<and> slots_tried e = 0))
       (over_image img (unlock2_with_passphrase_within C J cursor_reader PASS 0)))"

definition autodetect_unlock_within_bounds_both_versions ::
  "crypto_api \<Rightarrow> 'n json_api \<Rightarrow> (bytes \<Rightarrow> string) \<Rightarrow> (clock, LuksError, unit) prog" where
  "autodetect_unlock_within_bounds_both_versions C J enc =
     bindM (liftR (build_luks1 C (replicate (unat L1_KEY_BYTES) 0x33))) (\<lambda>(img1, _).
     bindM (on_result (assert_err is_UnlockBudgetExceeded)
       (over_image img1 (unlock_with_passphrase_within C J cursor_reader PASS 0))) (\<lambda>_.
     bindM (pbkdf2_volume C enc (replicate 64 0x44)) (\<lambda>(img2, _).
     on_result (assert_err is_UnlockBudgetExceeded)
       (over_image img2 (unlock_with_passphrase_within C J cursor_reader PASS 0)))))"

section \<open>Documents that are refused\<close>

text \<open>
  The raw strings of the tests, by their lines.  All but one have a single keyslot, and they differ in
  the hash of the splitter, the offset of the area, the KDF, the segments and the digests.
\<close>

definition refusal_text :: "string \<Rightarrow> string \<Rightarrow> string \<Rightarrow> string list \<Rightarrow> string" where
  \<open>refusal_text af off kdf_text rest = lines_of
     ([''{"keyslots":{"0":{"key_size":64,'',
       ''          "af":{"stripes":8,"hash":"'' @ af @ ''"},'',
       ''          "area":{"offset":"'' @ off @ ''","size":"512","encryption":"aes-xts-plain64"},'',
       ''          "kdf":'' @ kdf_text @ ''}},''] @ rest)\<close>

definition pbkdf2_text :: "string \<Rightarrow> string" where
  \<open>pbkdf2_text h = ''{"type":"pbkdf2","hash":"'' @ h @ ''","iterations":5,"salt":"AAAA"}''\<close>

definition segment_text :: string where
  \<open>segment_text = ''          "segments":{"0":{"type":"crypt","offset":"12288","encryption":"aes-xts-plain64","sector_size":512}},''\<close>

definition no_digest_text :: string where
  \<open>no_digest_text = ''          "digests":{}}''\<close>

definition digest_text :: "string \<Rightarrow> string" where
  \<open>digest_text h = ''          "digests":{"0":{"type":"pbkdf2","keyslots":["0"],"hash":"'' @ h @
     ''","iterations":5,"salt":"AAAA","digest":"AAAA"}}}''\<close>

definition NO_SEGMENT :: string where
  \<open>NO_SEGMENT = refusal_text ''sha256'' ''8192'' (pbkdf2_text ''sha256'') [''          "segments":{},"digests":{}}'']\<close>

definition NO_KEYSLOT :: string where
  \<open>NO_KEYSLOT = lines_of [''{"keyslots":{},'', segment_text, no_digest_text]\<close>

definition SHORT_AREA :: string where
  \<open>SHORT_AREA = refusal_text ''sha256'' ''9999999'' (pbkdf2_text ''sha256'') [segment_text, digest_text ''sha256'']\<close>

definition BAD_ARGON2 :: string where
  \<open>BAD_ARGON2 = refusal_text ''sha256'' ''8192''
     ''{"type":"argon2id","time":1,"memory":0,"cpus":1,"salt":"AAAAAAAAAAA="}'' [segment_text, no_digest_text]\<close>

definition BAD_KDF_HASH :: string where
  \<open>BAD_KDF_HASH = refusal_text ''sha256'' ''8192'' (pbkdf2_text ''md5'') [segment_text, no_digest_text]\<close>

definition BAD_AF_HASH :: string where
  \<open>BAD_AF_HASH = refusal_text ''md5'' ''8192'' (pbkdf2_text ''sha256'') [segment_text, no_digest_text]\<close>

definition BAD_DIGEST_HASH :: string where
  \<open>BAD_DIGEST_HASH = refusal_text ''sha256'' ''8192'' (pbkdf2_text ''sha256'') [segment_text, digest_text ''md5'']\<close>

definition DIGEST_MISMATCH :: string where
  \<open>DIGEST_MISMATCH = refusal_text ''sha256'' ''8192'' (pbkdf2_text ''sha256'')
     [segment_text,
      ''          "digests":{"0":{"type":"pbkdf2","keyslots":["0"],"hash":"sha256","iterations":5,"salt":"AAAA","digest":"AAAA"},'',
      ''                     "1":{"type":"pbkdf2","keyslots":["9"],"hash":"sha256","iterations":5,"salt":"AAAA","digest":"AAAA"}}}'']\<close>

text \<open>What the tests have in common: the image of a text, and the error of unlocking it.\<close>

definition text_refused :: "crypto_api \<Rightarrow> 'n json_api \<Rightarrow> string \<Rightarrow> (LuksError \<Rightarrow> bool) \<Rightarrow> (clock, LuksError, unit) prog" where
  "text_refused C J json P =
     bindM (liftR (build_luks2_json (bytes_of_string json))) (\<lambda>img.
     on_result (assert_err P) (over_image img (unlock2_with_passphrase C J cursor_reader PASS)))"

definition luks2_no_crypt_segment :: "crypto_api \<Rightarrow> 'n json_api \<Rightarrow> (clock, LuksError, unit) prog" where
  "luks2_no_crypt_segment C J = text_refused C J NO_SEGMENT (\<lambda>e. e = NoActiveKeyslot)"

definition luks2_no_keyslots :: "crypto_api \<Rightarrow> 'n json_api \<Rightarrow> (clock, LuksError, unit) prog" where
  "luks2_no_keyslots C J = text_refused C J NO_KEYSLOT (\<lambda>e. e = NoActiveKeyslot)"

definition luks2_short_key_material_is_skipped :: "crypto_api \<Rightarrow> 'n json_api \<Rightarrow> (clock, LuksError, unit) prog" where
  "luks2_short_key_material_is_skipped C J = text_refused C J SHORT_AREA (\<lambda>e. e = AuthenticationFailed)"

definition luks2_bad_argon2_params_errors :: "crypto_api \<Rightarrow> 'n json_api \<Rightarrow> (clock, LuksError, unit) prog" where
  "luks2_bad_argon2_params_errors C J = text_refused C J BAD_ARGON2 is_Unsupported"

definition luks2_unsupported_keyslot_kdf_hash_errors :: "crypto_api \<Rightarrow> 'n json_api \<Rightarrow> (clock, LuksError, unit) prog" where
  "luks2_unsupported_keyslot_kdf_hash_errors C J = text_refused C J BAD_KDF_HASH (unsupported ''hash'')"

definition luks2_unsupported_af_hash_errors :: "crypto_api \<Rightarrow> 'n json_api \<Rightarrow> (clock, LuksError, unit) prog" where
  "luks2_unsupported_af_hash_errors C J = text_refused C J BAD_AF_HASH (unsupported ''hash'')"

definition luks2_unsupported_digest_hash_errors :: "crypto_api \<Rightarrow> 'n json_api \<Rightarrow> (clock, LuksError, unit) prog" where
  "luks2_unsupported_digest_hash_errors C J = text_refused C J BAD_DIGEST_HASH (unsupported ''hash'')"

definition luks2_digest_mismatch_falls_through :: "crypto_api \<Rightarrow> 'n json_api \<Rightarrow> (clock, LuksError, unit) prog" where
  "luks2_digest_mismatch_falls_through C J = text_refused C J DIGEST_MISMATCH (\<lambda>e. e = AuthenticationFailed)"

section \<open>What the tests rely on\<close>

text \<open>The documents of the texts.\<close>

definition argon2_doc :: "(nat \<Rightarrow> 'n) \<Rightarrow> nat \<Rightarrow> string \<Rightarrow> 'n Value" where
  "argon2_doc num m slt =
     Object [(''cpus'', Number (num 1)), (''memory'', Number (num m)), (''salt'', String slt), (''time'', Number (num 1)),
       (''type'', String ''argon2id'')]"

definition refusal_doc :: "(nat \<Rightarrow> 'n) \<Rightarrow> string \<Rightarrow> nat \<Rightarrow> 'n Value \<Rightarrow> 'n Value \<Rightarrow> 'n Value \<Rightarrow> 'n Value" where
  "refusal_doc num af off kdf_doc segs digs =
     Object [(''digests'', digs),
       (''keyslots'', Object [(''0'', Object [
         (''af'', Object [(''hash'', String af), (''stripes'', Number (num 8))]),
         (''area'', Object [(''encryption'', String ''aes-xts-plain64''), (''offset'', json_num off), (''size'', json_num 512)]),
         (''kdf'', kdf_doc), (''key_size'', Number (num 64))])]),
       (''segments'', segs)]"

definition segments_doc :: "(nat \<Rightarrow> 'n) \<Rightarrow> 'n Value" where
  "segments_doc num = Object [(''0'', Object [(''encryption'', String ''aes-xts-plain64''), (''offset'', json_num 12288),
     (''sector_size'', Number (num 512)), (''type'', String ''crypt'')])]"

definition digest_doc :: "(nat \<Rightarrow> 'n) \<Rightarrow> string \<Rightarrow> string \<Rightarrow> 'n Value" where
  "digest_doc num sid h = Object [(''digest'', String ''AAAA''), (''hash'', String h), (''iterations'', Number (num 5)),
     (''keyslots'', Array [String sid]), (''salt'', String ''AAAA''), (''type'', String ''pbkdf2'')]"

definition digests_doc :: "(nat \<Rightarrow> 'n) \<Rightarrow> string \<Rightarrow> 'n Value" where
  "digests_doc num h = Object [(''0'', digest_doc num ''0'' h)]"

definition refusal_texts :: "(nat \<Rightarrow> 'n) \<Rightarrow> (string \<times> 'n Value) list" where
  "refusal_texts num =
     [(NO_SEGMENT, refusal_doc num ''sha256'' 8192 (pbkdf2_doc num ''sha256'' 5 ''AAAA'') (Object []) (Object [])),
      (NO_KEYSLOT, Object [(''digests'', Object []), (''keyslots'', Object []), (''segments'', segments_doc num)]),
      (SHORT_AREA, refusal_doc num ''sha256'' 9999999 (pbkdf2_doc num ''sha256'' 5 ''AAAA'') (segments_doc num) (digests_doc num ''sha256'')),
      (BAD_ARGON2, refusal_doc num ''sha256'' 8192 (argon2_doc num 0 ''AAAAAAAAAAA='') (segments_doc num) (Object [])),
      (BAD_KDF_HASH, refusal_doc num ''sha256'' 8192 (pbkdf2_doc num ''md5'' 5 ''AAAA'') (segments_doc num) (Object [])),
      (BAD_AF_HASH, refusal_doc num ''md5'' 8192 (pbkdf2_doc num ''sha256'' 5 ''AAAA'') (segments_doc num) (Object [])),
      (BAD_DIGEST_HASH, refusal_doc num ''sha256'' 8192 (pbkdf2_doc num ''sha256'' 5 ''AAAA'') (segments_doc num) (digests_doc num ''md5'')),
      (DIGEST_MISMATCH, refusal_doc num ''sha256'' 8192 (pbkdf2_doc num ''sha256'' 5 ''AAAA'') (segments_doc num)
         (Object [(''0'', digest_doc num ''0'' ''sha256''), (''1'', digest_doc num ''9'' ''sha256'')]))]"

text \<open>A text that \<open>build_luks2\<close> formats, with its document.\<close>

definition volume_text ::
  "crypto_api \<Rightarrow> (nat \<Rightarrow> 'n) \<Rightarrow> (bytes \<Rightarrow> string) \<Rightarrow> bytes \<Rightarrow> string \<Rightarrow> 'n Value \<Rightarrow> usize \<Rightarrow> string \<times> 'n Value" where
  "volume_text C num enc master kdf_text kdf_doc ssize =
     (build_luks2_text enc (replicate 16 0x22) (pbkdf2_sha256 C master (replicate 16 0x22) L2_DIG_ITER 32) kdf_text ssize,
      build_doc2 num enc kdf_doc C master ssize)"

definition volume_texts :: "crypto_api \<Rightarrow> (nat \<Rightarrow> 'n) \<Rightarrow> (bytes \<Rightarrow> string) \<Rightarrow> (string \<times> 'n Value) list" where
  "volume_texts C num enc =
     (let s77 = replicate 16 0x77; s88 = replicate 16 0x88;
          argon2 = volume_text C num enc (replicate 64 0xC3) (argon2_kdf_text enc s77) (argon2_doc num 32 (enc s77));
          pbkdf2 = (\<lambda>b. volume_text C num enc (replicate 64 b) (pbkdf2_kdf_text enc s88) (pbkdf2_doc num ''sha256'' 5 (enc s88)) 512)
      in [argon2 4096, argon2 512, pbkdf2 0x1E, pbkdf2 0x44])"

text \<open>The documents are in the order of the JSON crate.\<close>

lemma volume_docs_ordered: "list_all (\<lambda>(s, doc). value_ok doc) (volume_texts C num enc @ refusal_texts num)"
  by (simp add: volume_texts_def Let_def volume_text_def build_doc2_ok refusal_texts_def refusal_doc_def argon2_doc_def
      pbkdf2_doc_def segments_doc_def digests_doc_def digest_doc_def json_num_def)

text \<open>
  The JSON crate parses each text to its document and reads a number back; the base64 crate decodes
  what it has encoded, and the texts of the tests to zeros; an encoding is at most about twice as long as
  what it encodes and has no zero character.
\<close>

definition volume_texts_ok :: "crypto_api \<Rightarrow> 'n json_api \<Rightarrow> (nat \<Rightarrow> 'n) \<Rightarrow> (bytes \<Rightarrow> string) \<Rightarrow> bool" where
  "volume_texts_ok C J num enc \<longleftrightarrow>
     list_all (\<lambda>(s, doc). from_slice J (bytes_of_string s) = Some doc) (volume_texts C num enc @ refusal_texts num) \<and>
     (\<forall>n. n \<le> u64_MAX \<longrightarrow> number_as_u64 J (num n) = Some (of_nat n)) \<and>
     (\<forall>x. b64_decode J (enc x) = Some x) \<and> b64_decode J ''AAAA'' = Some (replicate 3 0) \<and>
     b64_decode J ''AAAAAAAAAAA='' = Some (replicate 8 0) \<and>
     (\<forall>x. length (enc x) \<le> 2 * length x + 2 \<and> CHR 0x00 \<notin> set (enc x))"

section \<open>The containers unlock\<close>

lemma show_nat_sizes:
  "show_nat 8 = ''8''" "show_nat 8192 = ''8192''" "show_nat 12288 = ''12288''" "show_nat 512 = ''512''"
  "show_nat 4096 = ''4096''" "show_nat 5 = ''5''"
  by (simp_all add: show_nat_def digits_rev.simps char_of_def bit_0)

lemma volume_text_fits:
  assumes "\<And>x. length (enc x) \<le> 2 * length x + 2 \<and> CHR 0x00 \<notin> set (enc x)" and "ssize \<in> {512, 4096}"
    and "length dig = 32" and "length kdf_text \<le> 200" and "CHR 0x00 \<notin> set kdf_text"
  shows "length (build_luks2_text enc (replicate 16 0x22) dig kdf_text ssize) < 4096"
    and "CHR 0x00 \<notin> set (build_luks2_text enc (replicate 16 0x22) dig kdf_text ssize)"
proof -
  have "length (show_nat ssize) \<le> 4" "CHR 0x00 \<notin> set (show_nat ssize)" using assms(2) by (auto simp: show_nat_sizes)
  with assms(1) [of "replicate 16 0x22"] assms(1) [of dig] assms(3-5)
  show "length (build_luks2_text enc (replicate 16 0x22) dig kdf_text ssize) < 4096"
    "CHR 0x00 \<notin> set (build_luks2_text enc (replicate 16 0x22) dig kdf_text ssize)"
    by (simp_all add: build_luks2_text_def show_nat_sizes L2_defs)
qed

lemma kdf_texts_fit:
  assumes "\<And>x. length (enc x) \<le> 2 * length x + 2 \<and> CHR 0x00 \<notin> set (enc x)" and "length slt = 16"
  shows "length (argon2_kdf_text enc slt) \<le> 200" "CHR 0x00 \<notin> set (argon2_kdf_text enc slt)"
    "length (pbkdf2_kdf_text enc slt) \<le> 200" "CHR 0x00 \<notin> set (pbkdf2_kdf_text enc slt)"
  using assms(1) [of slt] assms(2) by (simp_all add: argon2_kdf_text_def pbkdf2_kdf_text_def)

lemma built_luks2:
  fixes J :: "'n json_api"
  assumes C: "crypto_ok C" "xts_inverse C" and J: "json_ok J" and ok: "volume_texts_ok C J num enc"
    and kdf: "parse_kdf J kdf_doc = Some k" "kdf_key C k PASS 64 = Some slot_key" "kdf_ready C k PASS 64"
    and kt: "length kdf_text \<le> 200" "CHR 0x00 \<notin> set kdf_text" and ssize: "ssize \<in> {512, 4096}"
    and m: "length master = 64" and known: "volume_text C num enc master kdf_text kdf_doc ssize \<in> set (volume_texts C num enc)"
  obtains img where "build_luks2_volume C enc master slot_key kdf_text ssize = Ok (img, known_plain ssize)"
    "length img = 12288 + ssize" "version_of img = 2" "hdr_size_of img \<le> isize_MAX"
    "parse2 J (hdr_area_of img) = Ok (build_header2 C master k ssize)" "image_supported2 C J img PASS"
    "unlock2_spec C J img PASS = Ok (payload2 (build_segment2 ssize) master (of_nat (length img)) ())"
    "\<And>r :: cursor. payload_ok (payload2 (build_segment2 ssize) master (of_nat (length img)) r)"
    "\<And>r :: cursor. plaintext C (payload2 (build_segment2 ssize) master (of_nat (length img)) r) img = known_plain ssize"
proof -
  let ?dig = "pbkdf2_sha256 C master (replicate 16 0x22) L2_DIG_ITER 32" and ?seg = "build_segment2 ssize"
  define s where "s = build_luks2_text enc (replicate 16 0x22) ?dig kdf_text ssize"
  note ok' = ok [unfolded volume_texts_ok_def]
  have "length ?dig = 32" using C(1) by (simp add: pbkdf2_sha256_def crypto_okD)
  then have fits: "length s < 4096" "CHR 0x00 \<notin> set s"
    unfolding s_def using ok' by (intro volume_text_fits [OF _ ssize _ kt]; simp)+
  then have j: "json_text_ok 4096 (bytes_of_string s)" by (intro ascii_text_ok) simp_all
  have root: "from_slice J (bytes_of_string s) = Some (build_doc2 num enc kdf_doc C master ssize)"
    using ok' known unfolding list_all_iff volume_text_def s_def by fastforce
  have h: "header2_of J (of_nat (4096 + 4096)) (build_doc2 num enc kdf_doc C master ssize) = build_header2 C master k ssize"
    using build_doc2_header [of J enc num kdf_doc k ssize C master] J ok' kdf(1) ssize by auto
  have f: "format2_ok C Sha256 4096 (build_header2 C master k ssize) (build_slot2 k) ?seg master slot_key PASS"
    using build_format2_ok [OF C(1) m kdf(2)] ssize by auto
  have "xts_encrypt C master (known_plain ssize) ssize 0 = Ok (xts_units C master (known_plain ssize) ssize 0)"
    using ssize by (intro xts_encrypt_plain [OF m]) auto
  then have enc: "xts_encrypt C master (known_plain ssize) (segment_sector_size ?seg) (iv_tweak ?seg) =
      Ok (xts_units C master (known_plain ssize) ssize 0)"
    by (simp add: build_segment2_def)
  obtain img rest pre where img: "luks2_image C Sha256 4096 (bytes_of_string s) (build_slot2 k) ?seg master slot_key 0x5a (known_plain ssize) = Ok img"
    "img = pre @ xts_units C master (known_plain ssize) ssize 0" "length pre = 12288"
    using luks2_image_parts [OF C f enc, of "bytes_of_string s" "0x5a"] luks2_area_parts(1) [OF j]
    by (auto simp: build_segment2_def L2_defs)
  have len: "length img = 12288 + ssize"
    using img(2,3) ssize C(1) by (auto simp: length_xts_units)
  then have small: "length img \<le> isize_MAX" using ssize by auto
  have built: "build_luks2_volume C enc master slot_key kdf_text ssize = Ok (img, known_plain ssize)"
    using build_luks2_image [OF C(1) m s_def [THEN arg_cong [of _ _ bytes_of_string]], of slot_key k] img(1) fits(1) by simp
  have d: "segment_sector_size ?seg dvd length (known_plain ssize)" by (simp add: build_segment2_def)
  have "4096 \<le> isize_MAX" by simp
  note u = luks2_image_unlocks [OF C f j this root h d img(1) small]
  have "image_supported2 C J img PASS"
    using u(4) kdf(3) C(1)
    by (simp add: image_supported2_def supported2_def slot2_ready_def build_header2_def build_slot2_def hash_of_name_def L2_defs
        MAX_STRIPES_def digest_ready_def build_digest2_def pbkdf2_sha256_def crypto_okD MAX_KEY_BYTES_def)
  then show thesis by (rule that [OF built len u(1,3,4) _ u(5) u(6,7)])
qed

text \<open>The two containers of the tests.\<close>

lemma argon2_slot:
  assumes "crypto_ok C" and "argon2_documented C"
  obtains key where "kdf_key C (Argon2 ''argon2id'' 1 32 1 (replicate 16 0x77)) PASS 64 = Some key"
    "kdf_ready C (Argon2 ''argon2id'' 1 32 1 (replicate 16 0x77)) PASS 64"
    "\<And>budget (s :: clock). derive_key_argon2_within C (argon2id 1 32 (replicate 16 0x77)) PASS 64 budget s = Some (Ok key, s)"
proof -
  have "length PASS \<le> 64" by (simp add: PASS_def)
  then obtain key where run: "argon2_run C Argon2id (argon2id 1 32 (replicate 16 0x77)) PASS 64 1 (replicate 64 0) = Ok key"
    using argon2_accepts [OF assms(2), of 32 1 "replicate 16 0x77" PASS 64] by auto
  have "kdf_key C (Argon2 ''argon2id'' 1 32 1 (replicate 16 0x77)) PASS 64 = Some key"
    using run by (simp add: kdf_key_def argon2id_def)
  moreover have "derive_key_argon2_within C (argon2id 1 32 (replicate 16 0x77)) PASS 64 budget s = Some (Ok key, s)" for budget and s :: clock
    using run by (simp add: derive_argon2_value key_consts)
  ultimately show thesis by (intro that) (simp_all add: kdf_ready_def key_consts)
qed

lemma pbkdf2_slot:
  fixes C :: crypto_api
  defines "key \<equiv> pbkdf2_hmac C Sha256 PASS (replicate 16 0x88) 5 64" and "k \<equiv> Pbkdf2 ''sha256'' 5 (replicate 16 0x88)"
  shows "kdf_key C k PASS 64 = Some key" and "kdf_ready C k PASS 64"
    and "derive_key_within C ''sha256'' PASS (replicate 16 0x88) 5 64 budget s = Some (Ok key, s)"
  by (simp_all add: k_def key_def kdf_key_def kdf_ready_def hash_of_name_def max_one key_consts derive_key_value)

lemma volume_docs_read:
  assumes "json_ok J" and "volume_texts_ok C J num enc"
  shows "parse_kdf J (argon2_doc num 32 (enc slt)) = Some (Argon2 ''argon2id'' 1 32 1 slt)"
    and "parse_kdf J (pbkdf2_doc num ''sha256'' 5 (enc slt)) = Some (Pbkdf2 ''sha256'' 5 slt)"
  using assms(2) json_okD [OF assms(1)]
  by (simp_all add: parse_kdf_def argon2_doc_def pbkdf2_doc_def get_str_def b64_def volume_texts_ok_def)

text \<open>A container and its opening, by both entry points.\<close>

definition opens :: "crypto_api \<Rightarrow> clock \<Rightarrow> bytes \<Rightarrow> bytes \<Rightarrow> usize \<Rightarrow> (clock, LuksError, cursor DecryptedPayload) prog \<Rightarrow> bool" where
  "opens C c img master ssize m \<longleftrightarrow>
     (\<exists>p c'. m c = Some (Ok p, c') \<and> p = payload2 (build_segment2 ssize) master (of_nat (length img)) (dp_reader p) \<and>
       cursor.view_ok C p \<and> cursor.view C p = known_plain ssize)"

definition refuses :: "clock \<Rightarrow> (clock, LuksError, cursor DecryptedPayload) prog \<Rightarrow> LuksError \<Rightarrow> bool" where
  "refuses c m e \<longleftrightarrow> (\<exists>c'. m c = Some (Err e, c'))"

lemma built_luks2_opens:
  fixes c :: clock and J :: "'n json_api"
  assumes C: "crypto_ok C" and c: "still c" and ssize: "ssize \<in> {512, 4096}" and img: "length img = 12288 + ssize"
    and v: "version_of img = 2" "hdr_size_of img \<le> isize_MAX" and sup: "image_supported2 C J img PASS"
    and spec: "unlock2_spec C J img PASS = Ok (payload2 (build_segment2 ssize) master (of_nat (length img)) ())"
    and plain: "\<And>r :: cursor. payload_ok (payload2 (build_segment2 ssize) master (of_nat (length img)) r)"
      "\<And>r :: cursor. plaintext C (payload2 (build_segment2 ssize) master (of_nat (length img)) r) img = known_plain ssize"
  shows "opens C c img master ssize (over_image img (unlock2_with_passphrase C J cursor_reader PASS))"
    and "opens C c img master ssize (over_image img (unlock_with_passphrase C J cursor_reader PASS))"
proof -
  let ?q = "payload2 (build_segment2 ssize) master (of_nat (length img)) ()"
  have fits: "length img \<le> isize_MAX" using img ssize by auto
  have ok: "payload_ok p \<and> plaintext C p img = known_plain ssize" if "forget p = ?q" for p :: "cursor DecryptedPayload"
    using plain [of "dp_reader p"] payload_of_forget(2) [OF that] by simp
  have "opens C c img master ssize m" if "answers img c m (Ok ?q)" for m
    by (rule answers_opened [OF that ok C fits]) (auto simp: opens_def intro!: payload_of_forget(2))
  moreover have "unlock_spec C J img PASS = Ok ?q" "image_supported C J img PASS"
    using v spec sup img by (simp_all add: unlock_spec_def image_supported_def)
  ultimately show "opens C c img master ssize (over_image img (unlock2_with_passphrase C J cursor_reader PASS))"
    "opens C c img master ssize (over_image img (unlock_with_passphrase C J cursor_reader PASS))"
    using unlock2_answers [OF C fits c sup v(2)] unlock_answers [OF C fits c, of J PASS] v spec by auto
qed

lemma built_luks2_expired:
  fixes c :: clock and J :: "'n json_api"
  assumes "length img = 12288 + ssize" and "ssize \<in> {512, 4096}" and "version_of img = 2" "hdr_size_of img \<le> isize_MAX"
    and "parse2 J (hdr_area_of img) = Ok (build_header2 C master k ssize)"
  shows "refuses c (over_image img (unlock2_with_passphrase_within C J cursor_reader PASS 0)) (UnlockBudgetExceeded 0 0)"
    and "refuses c (over_image img (unlock_with_passphrase_within C J cursor_reader PASS 0)) (UnlockBudgetExceeded 0 0)"
proof -
  let ?h = "build_header2 C master k ssize"
  have h: "crypt_segment ?h \<noteq> None" "keyslots2 ?h \<noteq> []" by (simp_all add: build_header2_def crypt_segment_def build_segment2_def)
  have fits: "length img \<le> isize_MAX" "4096 \<le> length img" using assms(1,2) by auto
  obtain w where "unlock2_inner C J cursor_reader PASS (deadline_at c 0) (world_at c img) = Some (Err (UnlockBudgetExceeded 0 0), w)"
    using cursor.expired2 [of "world_at c img" "deadline_at c 0" J ?h C PASS] fits h assms by auto
  then show "refuses c (over_image img (unlock2_with_passphrase_within C J cursor_reader PASS 0)) (UnlockBudgetExceeded 0 0)"
    using over_image_deadline [where body = "unlock2_inner C J cursor_reader PASS"]
    by (auto simp: refuses_def unlock2_with_passphrase_within_def)
  obtain w where "unlock_with_passphrase_within C J cursor_reader PASS 0 \<lparr>reading = reading c, tick = tick c, rd_state = cursor_new img\<rparr>
      = Some (Err (UnlockBudgetExceeded 0 0), w)"
    using cursor.expired [of "\<lparr>reading = reading c, tick = tick c, rd_state = cursor_new img\<rparr>" undefined J ?h C PASS] fits h assms
    by (auto simp: cursor_new_def)
  then show "refuses c (over_image img (unlock_with_passphrase_within C J cursor_reader PASS 0)) (UnlockBudgetExceeded 0 0)"
    by (simp add: refuses_def over_image_def over_fresh_def)
qed

lemma argon2_built:
  fixes c :: clock and J :: "'n json_api"
  assumes C: "crypto_ok C" "xts_inverse C" and J: "json_ok J" "volume_texts_ok C J num enc" and doc: "argon2_documented C"
    and c: "still c" and ssize: "ssize \<in> {512, 4096}"
  obtains img where "argon2_volume C enc ssize c = Some (Ok (img, known_plain ssize), c)"
    "opens C c img (replicate 64 0xC3) ssize (over_image img (unlock_with_passphrase C J cursor_reader PASS))"
    "refuses c (over_image img (unlock2_with_passphrase_within C J cursor_reader PASS 0)) (UnlockBudgetExceeded 0 0)"
proof -
  let ?slt = "replicate 16 0x77 :: bytes" and ?m = "replicate 64 0xC3 :: bytes"
  let ?k = "Argon2 ''argon2id'' 1 32 1 ?slt"
  obtain key where key: "kdf_key C ?k PASS 64 = Some key" "kdf_ready C ?k PASS 64"
    "\<And>budget (s :: clock). derive_key_argon2_within C (argon2id 1 32 ?slt) PASS 64 budget s = Some (Ok key, s)"
    by (rule argon2_slot [OF C(1) doc]) blast
  have fit: "length (argon2_kdf_text enc ?slt) \<le> 200" "CHR 0x00 \<notin> set (argon2_kdf_text enc ?slt)"
    using J(2) by (intro kdf_texts_fit; simp add: volume_texts_ok_def)+
  have known: "volume_text C num enc ?m (argon2_kdf_text enc ?slt) (argon2_doc num 32 (enc ?slt)) ssize \<in> set (volume_texts C num enc)"
    using ssize by (auto simp: volume_texts_def Let_def)
  obtain img where img: "build_luks2_volume C enc ?m key (argon2_kdf_text enc ?slt) ssize = Ok (img, known_plain ssize)"
    "length img = 12288 + ssize" "version_of img = 2" "hdr_size_of img \<le> isize_MAX"
    "parse2 J (hdr_area_of img) = Ok (build_header2 C ?m ?k ssize)" "image_supported2 C J img PASS"
    "unlock2_spec C J img PASS = Ok (payload2 (build_segment2 ssize) ?m (of_nat (length img)) ())"
    "\<And>r :: cursor. payload_ok (payload2 (build_segment2 ssize) ?m (of_nat (length img)) r)"
    "\<And>r :: cursor. plaintext C (payload2 (build_segment2 ssize) ?m (of_nat (length img)) r) img = known_plain ssize"
    by (rule built_luks2 [OF C J volume_docs_read(1) [OF J] key(1,2) fit ssize _ known]) (simp, blast)
  have "argon2_volume C enc ssize c = Some (Ok (img, known_plain ssize), c)"
    by (simp add: argon2_volume_def bindM_run key(3) img(1) Let_def)
  then show thesis
    by (rule that [OF _ built_luks2_opens(2) [OF C(1) c ssize img(2-4,6-9)] built_luks2_expired(1) [OF img(2) ssize img(3-5)]])
qed

lemma pbkdf2_built:
  fixes c :: clock and J :: "'n json_api"
  assumes C: "crypto_ok C" "xts_inverse C" and J: "json_ok J" "volume_texts_ok C J num enc"
    and c: "still c" and b: "b \<in> {0x1E, 0x44}"
  obtains img where "\<And>c. pbkdf2_volume C enc (replicate 64 b) c = Some (Ok (img, known_plain 512), c)"
    "opens C c img (replicate 64 b) 512 (over_image img (unlock2_with_passphrase C J cursor_reader PASS))"
    "\<And>c. refuses c (over_image img (unlock2_with_passphrase_within C J cursor_reader PASS 0)) (UnlockBudgetExceeded 0 0)"
    "\<And>c. refuses c (over_image img (unlock_with_passphrase_within C J cursor_reader PASS 0)) (UnlockBudgetExceeded 0 0)"
proof -
  let ?slt = "replicate 16 0x88 :: bytes" and ?m = "replicate 64 b :: bytes"
  let ?k = "Pbkdf2 ''sha256'' 5 ?slt" and ?key = "pbkdf2_hmac C Sha256 PASS (replicate 16 0x88) 5 64"
  have fit: "length (pbkdf2_kdf_text enc ?slt) \<le> 200" "CHR 0x00 \<notin> set (pbkdf2_kdf_text enc ?slt)"
    using J(2) by (intro kdf_texts_fit; simp add: volume_texts_ok_def)+
  have known: "volume_text C num enc ?m (pbkdf2_kdf_text enc ?slt) (pbkdf2_doc num ''sha256'' 5 (enc ?slt)) 512 \<in> set (volume_texts C num enc)"
    using b by (auto simp: volume_texts_def Let_def)
  obtain img where img: "build_luks2_volume C enc ?m ?key (pbkdf2_kdf_text enc ?slt) 512 = Ok (img, known_plain 512)"
    "length img = 12288 + 512" "version_of img = 2" "hdr_size_of img \<le> isize_MAX"
    "parse2 J (hdr_area_of img) = Ok (build_header2 C ?m ?k 512)" "image_supported2 C J img PASS"
    "unlock2_spec C J img PASS = Ok (payload2 (build_segment2 512) ?m (of_nat (length img)) ())"
    "\<And>r :: cursor. payload_ok (payload2 (build_segment2 512) ?m (of_nat (length img)) r)"
    "\<And>r :: cursor. plaintext C (payload2 (build_segment2 512) ?m (of_nat (length img)) r) img = known_plain 512"
    by (rule built_luks2 [OF C J volume_docs_read(2) [OF J] pbkdf2_slot(1,2) fit _ _ known]) (simp, simp, blast)
  have ssize: "(512 :: nat) \<in> {512, 4096}" by simp
  have "pbkdf2_volume C enc ?m c = Some (Ok (img, known_plain 512), c)" for c
    by (simp add: pbkdf2_volume_def bindM_run pbkdf2_slot(3) img(1) Let_def)
  then show thesis
    by (rule that [OF _ built_luks2_opens(1) [OF C(1) c ssize img(2-4,6-9)] built_luks2_expired [OF img(2) ssize img(3-5)]])
qed

section \<open>Their tests pass\<close>

lemma payload2_facts:
  assumes "p = payload2 (build_segment2 ssize) master n r" and "512 \<le> ssize" and "length master = 64"
  shows "info p = \<lparr>info_version = 2, info_cipher_name = ''aes'', info_cipher_mode = ''xts-plain64'', info_key_bytes = 64, info_sector_size = ssize\<rparr>"
    and "master_key p = master"
  using assms by (simp_all add: info_def master_key_def payload2_def build_segment2_def)

lemma opens_and_reads:
  assumes "opens C c img master ssize m" and "512 \<le> ssize" and "length master = 64"
  obtains p c' p' where "m c = Some (Ok p, c')" "master_key p = master"
    "info p = \<lparr>info_version = 2, info_cipher_name = ''aes'', info_cipher_mode = ''xts-plain64'', info_key_bytes = 64, info_sector_size = ssize\<rparr>"
    "read_at C cursor_reader 0 (replicate 512 0) p = Some (Ok (take 512 (known_plain ssize)), p')"
proof -
  obtain p c' where p: "m c = Some (Ok p, c')" "p = payload2 (build_segment2 ssize) master (of_nat (length img)) (dp_reader p)"
    "cursor.view_ok C p" "cursor.view C p = known_plain ssize"
    using assms(1) unfolding opens_def by blast
  obtain p' where "read_at C cursor_reader 0 (replicate 512 0) p = Some (Ok (take 512 (drop 0 (known_plain ssize))), p')"
    by (rule read_at_view [OF p(3,4), of 0 "replicate 512 0"]) (use assms(2) in simp_all)
  with p(1) payload2_facts [OF p(2) assms(2,3)] that show thesis by simp
qed

lemma luks2_opening_tests:
  fixes c :: clock and J :: "'n json_api"
  assumes C: "crypto_ok C" "xts_inverse C" and J: "json_ok J" "volume_texts_ok C J num enc" and doc: "argon2_documented C"
    and c: "still c"
  shows "passes (luks2_argon2id_roundtrip C J enc) c" and "passes (luks2_pbkdf2_roundtrip C J enc) c"
proof -
  obtain img where img: "argon2_volume C enc 4096 c = Some (Ok (img, known_plain 4096), c)"
    "opens C c img (replicate 64 0xC3) 4096 (over_image img (unlock_with_passphrase C J cursor_reader PASS))"
    by (rule argon2_built [OF C J doc c, of 4096]) simp_all
  obtain p c' p' where p: "over_image img (unlock_with_passphrase C J cursor_reader PASS) c = Some (Ok p, c')" "master_key p = replicate 64 0xC3"
    "info p = \<lparr>info_version = 2, info_cipher_name = ''aes'', info_cipher_mode = ''xts-plain64'', info_key_bytes = 64, info_sector_size = 4096\<rparr>"
    "read_at C cursor_reader 0 (replicate 512 0) p = Some (Ok (take 512 (known_plain 4096)), p')"
    by (rule opens_and_reads [OF img(2)]) simp_all
  show "passes (luks2_argon2id_roundtrip C J enc) c"
    unfolding luks2_argon2id_roundtrip_def passes_def bindM_run img(1)
    using with_volume_passes [of "on_result unwrap (over_image img (unlock_with_passphrase C J cursor_reader PASS))" c p c' _ p'] p
    by (simp add: passes_def [symmetric] bindM_run the_volume_def)
  obtain img where img: "pbkdf2_volume C enc (replicate 64 0x1E) c = Some (Ok (img, known_plain 512), c)"
    "opens C c img (replicate 64 0x1E) 512 (over_image img (unlock2_with_passphrase C J cursor_reader PASS))"
    by (rule pbkdf2_built [OF C J c, of "0x1E"]) (simp, blast)
  obtain p c' p' where p: "over_image img (unlock2_with_passphrase C J cursor_reader PASS) c = Some (Ok p, c')"
    "info p = \<lparr>info_version = 2, info_cipher_name = ''aes'', info_cipher_mode = ''xts-plain64'', info_key_bytes = 64, info_sector_size = 512\<rparr>"
    "read_at C cursor_reader 0 (replicate 512 0) p = Some (Ok (take 512 (known_plain 512)), p')"
    by (rule opens_and_reads [OF img(2)]) simp_all
  show "passes (luks2_pbkdf2_roundtrip C J enc) c"
    unfolding luks2_pbkdf2_roundtrip_def passes_def bindM_run img(1)
    using with_volume_passes [of "on_result unwrap (over_image img (unlock2_with_passphrase C J cursor_reader PASS))" c p c' _ p'] p
    by (simp add: passes_def [symmetric] bindM_run the_volume_def)
qed

lemma luks2_deadline_tests:
  fixes c :: clock and J :: "'n json_api"
  assumes C: "crypto_ok C" "xts_inverse C" and J: "json_ok J" "volume_texts_ok C J num enc" and doc: "argon2_documented C"
    and c: "still c"
  shows "passes (luks2_pbkdf2_unlock_is_bounded_in_aggregate_not_just_per_derivation C J enc) c"
    and "passes (luks2_argon2_unlock_is_bounded_in_aggregate_too C J enc) c"
    and "passes (autodetect_unlock_within_bounds_both_versions C J enc) c"
proof -
  obtain img where img: "argon2_volume C enc 512 c = Some (Ok (img, known_plain 512), c)"
    "refuses c (over_image img (unlock2_with_passphrase_within C J cursor_reader PASS 0)) (UnlockBudgetExceeded 0 0)"
    by (rule argon2_built [OF C J doc c, of 512]) simp_all
  then show "passes (luks2_argon2_unlock_is_bounded_in_aggregate_too C J enc) c"
    by (auto simp: luks2_argon2_unlock_is_bounded_in_aggregate_too_def passes_def refuses_def bindM_run)
  obtain img2 where img2: "\<And>c. pbkdf2_volume C enc (replicate 64 0x44) c = Some (Ok (img2, known_plain 512), c)"
    "\<And>c. refuses c (over_image img2 (unlock2_with_passphrase_within C J cursor_reader PASS 0)) (UnlockBudgetExceeded 0 0)"
    "\<And>c. refuses c (over_image img2 (unlock_with_passphrase_within C J cursor_reader PASS 0)) (UnlockBudgetExceeded 0 0)"
    by (rule pbkdf2_built [OF C J c, of "0x44"]) (simp, blast)
  show "passes (luks2_pbkdf2_unlock_is_bounded_in_aggregate_not_just_per_derivation C J enc) c"
    using img2(1,2) [of c]
    by (auto simp: luks2_pbkdf2_unlock_is_bounded_in_aggregate_not_just_per_derivation_def passes_def refuses_def bindM_run)
  let ?m = "replicate 64 0x33 :: bytes"
  obtain img1 where img1: "build_luks1 C ?m = Ok (img1, known_plain 1536)" "length img1 = 3584" "version_of img1 = 1"
    "Header1.parse (take 592 img1) = Ok (build_header C ?m)"
    by (rule built_luks1 [OF C, of ?m]) simp_all
  have "active_keyslots (build_header C ?m) \<noteq> []" using build_format_ok [OF C(1), of ?m] by (auto simp: format_ok_def)
  then obtain w where "unlock_with_passphrase_within C J cursor_reader PASS 0 \<lparr>reading = reading c, tick = tick c, rd_state = cursor_new img1\<rparr>
      = Some (Err (UnlockBudgetExceeded 0 0), w)"
    using cursor.expired [of "\<lparr>reading = reading c, tick = tick c, rd_state = cursor_new img1\<rparr>" "build_header C ?m" J undefined C PASS] img1
    by (auto simp: cursor_new_def)
  then obtain c1 where "over_image img1 (unlock_with_passphrase_within C J cursor_reader PASS 0) c = Some (Err (UnlockBudgetExceeded 0 0), c1)"
    by (simp add: over_image_def over_fresh_def)
  with img1(1) img2(1,3) [of c1] show "passes (autodetect_unlock_within_bounds_both_versions C J enc) c"
    by (auto simp: autodetect_unlock_within_bounds_both_versions_def passes_def refuses_def bindM_run L1_KEY_BYTES_def)
qed

section \<open>The documents are refused\<close>

text \<open>The headers of the documents.\<close>

definition refusal_slot :: "string \<Rightarrow> u64 \<Rightarrow> Luks2Kdf \<Rightarrow> Luks2Keyslot" where
  "refusal_slot af off k = (build_slot2 k)\<lparr>af_hash := af, area_offset := off\<rparr>"

definition refusal_header :: "string \<Rightarrow> u64 \<Rightarrow> Luks2Kdf \<Rightarrow> Luks2Segment list \<Rightarrow> Luks2Digest list \<Rightarrow> Luks2Header" where
  "refusal_header af off k segs digs =
     \<lparr>version2 = 2, hdr_size = 8192, keyslots2 = [refusal_slot af off k], segments = segs, digests = digs\<rparr>"

definition zero_digest :: "string \<Rightarrow> Luks2Digest" where
  "zero_digest h = \<lparr>digest_kind = ''pbkdf2'', digest_hash = h, digest_iterations = 5, digest_salt = replicate 3 0,
     digest_value = replicate 3 0, digest_keyslots = [''0'']\<rparr>"

lemma refusal_docs_read:
  assumes J: "json_ok J" and ok: "volume_texts_ok C J num enc" and off: "off \<le> u64_MAX" and k: "parse_kdf J kdf_doc = Some k"
  shows "header2_of J 8192 (refusal_doc num af off kdf_doc (Object []) (Object [])) = refusal_header af (of_nat off) k [] []"
    and "header2_of J 8192 (refusal_doc num af off kdf_doc (segments_doc num) (Object [])) =
      refusal_header af (of_nat off) k [build_segment2 512] []"
    and "header2_of J 8192 (refusal_doc num af off kdf_doc (segments_doc num) (digests_doc num h)) =
      refusal_header af (of_nat off) k [build_segment2 512] [zero_digest h]"
    and "header2_of J 8192 (refusal_doc num af off kdf_doc (segments_doc num) (Object [(''0'', digest_doc num ''0'' h), (''1'', digest_doc num ''9'' h)])) =
      refusal_header af (of_nat off) k [build_segment2 512] [zero_digest h, (zero_digest h)\<lparr>digest_keyslots := [''9'']\<rparr>]"
  using ok [unfolded volume_texts_ok_def] off
  by (simp_all add: header2_of_def refusal_doc_def segments_doc_def digests_doc_def digest_doc_def entries_def json_okD [OF J] k parse_keyslot_def
      parse_segment_def parse_digest_def get_str_def b64_def as_u64_num List.map_filter_simps refusal_header_def refusal_slot_def
      build_slot2_def build_segment2_def zero_digest_def L2_defs)

lemma refusal_kdfs_read:
  assumes "json_ok J" and "volume_texts_ok C J num enc"
  shows "parse_kdf J (argon2_doc num 0 ''AAAAAAAAAAA='') = Some (Argon2 ''argon2id'' 1 0 1 (replicate 8 0))"
    and "parse_kdf J (pbkdf2_doc num h 5 ''AAAA'') = Some (Pbkdf2 h 5 (replicate 3 0))"
  using assms(2) json_okD [OF assms(1)]
  by (simp_all add: parse_kdf_def argon2_doc_def pbkdf2_doc_def get_str_def b64_def volume_texts_ok_def)

lemmas refusal_text_defs = refusal_text_def pbkdf2_text_def segment_text_def no_digest_text_def digest_text_def lines_of_def
  NO_SEGMENT_def NO_KEYSLOT_def SHORT_AREA_def BAD_ARGON2_def BAD_KDF_HASH_def BAD_AF_HASH_def BAD_DIGEST_HASH_def
  DIGEST_MISMATCH_def

lemma refusal_texts_fit:
  assumes "s \<in> {NO_SEGMENT, NO_KEYSLOT, SHORT_AREA, BAD_ARGON2, BAD_KDF_HASH, BAD_AF_HASH, BAD_DIGEST_HASH, DIGEST_MISMATCH}"
  shows "json_text_ok 4096 (bytes_of_string s)"
proof -
  have "length s \<le> 4096 \<and> CHR 0x00 \<notin> set s"
    using assms by (elim insertE emptyE; hypsubst; simp add: refusal_text_defs)
  then show ?thesis by (intro ascii_text_ok) simp_all
qed

text \<open>The image of a text.\<close>

lemma text_image:
  fixes J :: "'n json_api"
  assumes ok: "volume_texts_ok C J num enc" and s: "(s, doc) \<in> set (refusal_texts num)"
  obtains img where "build_luks2_json (bytes_of_string s) = Ok img" "length img = 16384" "hdr_size_of img \<le> isize_MAX"
    "parse2 J (hdr_area_of img) = Ok (header2_of J 8192 doc)"
proof -
  have fit: "json_text_ok 4096 (bytes_of_string s)" using s by (intro refusal_texts_fit) (auto simp: refusal_texts_def)
  have root: "from_slice J (bytes_of_string s) = Some doc" using ok s by (auto simp: volume_texts_ok_def list_all_iff)
  let ?area = "luks2_area 4096 (bytes_of_string s)"
  define img where "img = ?area @ replicate 8192 0"
  have small: "4096 \<le> isize_MAX" by simp
  note head = luks2_area_head [OF fit small img_def] and area = luks2_area_parts [OF fit small]
  have len: "length s \<le> 4096" using fit by (simp add: json_text_ok_def)
  then have "build_luks2_json (bytes_of_string s) = Ok img"
    by (simp add: build_luks2_json_def img_def luks2_area_def LUKS2_BIN_HDR_LEN_def LUKS_MAGIC_def replicate_add [symmetric])
  moreover have "length img = 16384" using area(1) by (simp add: img_def)
  moreover have "parse2 J (hdr_area_of img) = Ok (header2_of J 8192 doc)"
    using parse2_area [OF fit small root] head(4) by simp
  ultimately show thesis using that head(3) by simp
qed

lemma text_refused_run:
  assumes "build_luks2_json (bytes_of_string s) = Ok img" and "P e"
    and "\<exists>c'. over_image img (unlock2_with_passphrase C J cursor_reader PASS) c = Some (Err e, c')"
  shows "passes (text_refused C J s P) c"
  using assms by (auto simp: text_refused_def passes_def bindM_run)

lemma text_refused_spec:
  fixes c :: clock
  assumes C: "crypto_ok C" and c: "still c" and img: "build_luks2_json (bytes_of_string s) = Ok img" "length img = 16384" "hdr_size_of img \<le> isize_MAX"
    and "image_supported2 C J img PASS" and "unlock2_spec C J img PASS = Err e" and "P e"
  shows "passes (text_refused C J s P) c"
proof -
  have "answers img c (over_image img (unlock2_with_passphrase C J cursor_reader PASS)) (Err e)"
    using unlock2_answers [OF C _ c assms(6) img(3)] img(2) assms(7) by simp
  from answers_Err [OF this] show ?thesis by (intro text_refused_run [where P = P, OF img(1) assms(8)]) blast
qed

text \<open>A document is refused where its keyslot is.\<close>

lemma refused_at_slot:
  fixes c :: clock and J :: "'n json_api" and af off k digs
  defines "h \<equiv> refusal_header af off k [build_segment2 512] digs" and "dl \<equiv> deadline_at c UNLOCK_BUDGET"
  assumes c: "still c" and img: "build_luks2_json (bytes_of_string s) = Ok img" "length img = 16384" "hdr_size_of img \<le> isize_MAX"
    and parse: "parse2 J (hdr_area_of img) = Ok h" and P: "P e"
    and slot: "\<And>w. cursor_inv (rd_state w) \<Longrightarrow> cur_data (rd_state w) = img \<Longrightarrow> idle dl w \<Longrightarrow>
      \<exists>w'. recover_loop2 C cursor_reader h PASS dl [(0, refusal_slot af off k)] w = Some (Err e, w')"
  shows "passes (text_refused C J s P) c"
proof -
  obtain w1 where w1: "cursor.world_step (world_at c img) w1" "unlock2_inner C J cursor_reader PASS dl (world_at c img) = cursor.finish2 C PASS dl h w1"
    using cursor.unlock2_start [of "world_at c img" C J PASS dl] img(2,3) parse by auto
  have "cursor_inv (rd_state w1)" "cur_data (rd_state w1) = img" "idle dl w1"
    using cursor.world_stepD [OF w1(1)] idle_at [OF c time_to_unlock] by (auto simp: dl_def)
  from slot [OF this] obtain w2 where "recover_loop2 C cursor_reader h PASS dl [(0, refusal_slot af off k)] w1 = Some (Err e, w2)" by blast
  then have "unlock2_inner C J cursor_reader PASS dl (world_at c img) = Some (Err e, w2)"
    using w1(2) by (simp add: cursor.finish2_def h_def refusal_header_def crypt_segment_def build_segment2_def recover_master_key2_def bindM_run)
  then obtain c' where "over_image img (unlock2_with_passphrase C J cursor_reader PASS) c = Some (Err e, c')"
    using over_image_deadline [where body = "unlock2_inner C J cursor_reader PASS" and budget = UNLOCK_BUDGET]
    by (fastforce simp: unlock2_with_passphrase_def dl_def)
  then show ?thesis by (intro text_refused_run [where P = P, OF img(1) P]) blast
qed

text \<open>The slot fails in the derivation.\<close>

lemma derivation_refused:
  fixes w :: "cursor world"
  assumes "idle dl w" and "\<And>left w. \<exists>w'. derive_slot_key C PASS slot left (w :: cursor world) = Some (Err e, w')"
  shows "\<exists>w'. recover_loop2 C cursor_reader h PASS dl [(0, slot)] w = Some (Err e, w')"
proof -
  obtain left where "remaining dl 0 w = Some (Ok left, w\<lparr>tick := Suc (tick w)\<rparr>)" using on_time [OF assms(1)] by blast
  with assms(2) [of left "w\<lparr>tick := Suc (tick w)\<rparr>"] show ?thesis by (auto simp: bindM_run)
qed

text \<open>The slot yields a candidate key, unless its hash is unknown.\<close>

lemma slot_reaches:
  fixes w :: "cursor world" and af
  defines "slot \<equiv> refusal_slot af 8192 (Pbkdf2 ''sha256'' 5 (replicate 3 0))"
  assumes C: "crypto_ok C" and w: "cursor_inv (rd_state w)" "length (cur_data (rd_state w)) = 16384" "idle dl w"
  shows "\<exists>plain w'. cursor.world_step w w' \<and> recover_loop2 C cursor_reader h PASS dl [(0, slot)] w =
     bindM (liftR (merge C af plain 64 8)) (\<lambda>candidate.
     bindM (check_digests C dl 0 ''0'' candidate (digests h)) (\<lambda>ok. if ok then ret candidate else fail AuthenticationFailed)) w'"
proof -
  let ?go = "\<lambda>candidate. bindM (check_digests C dl 0 ''0'' candidate (digests h)) (\<lambda>ok. if ok then ret candidate else fail AuthenticationFailed)"
  let ?area = "\<lambda>key. area_prog C cursor_reader ''xts-plain64'' af key 64 8 8192 (fail AuthenticationFailed) ?go"
  have slot: "kdf slot = Pbkdf2 ''sha256'' 5 (replicate 3 0)" "key_size slot = 64" "slot_id slot = ''0''" "af_stripes slot = 8"
    "area_encryption slot = ''aes-xts-plain64''" "af_hash slot = af" "area_offset slot = 8192"
    by (simp_all add: slot_def refusal_slot_def build_slot2_def L2_defs)
  have loop: "recover_loop2 C cursor_reader h PASS dl [(0, slot)] w =
      bindM (remaining dl 0) (\<lambda>left. bindM (derive_slot_key C PASS slot left) ?area) w"
    by (simp add: area_prog_def slot Let_def cong: if_cong)
  have ready: "kdf_ready C (kdf slot) PASS (key_size slot)"
    by (simp add: slot kdf_ready_def kdf_key_def hash_of_name_def MAX_KEY_BYTES_def)
  show ?thesis
  proof (cases rule: cursor.timed_slot_key [OF w(1), of C slot PASS dl 0 ?area, case_names Key Fail])
    case (Key key w1)
    have key: "xts_cipher key \<noteq> None" using length_kdf_key [OF C Key(1)] slot(2) by (simp add: xts_cipher_def)
    have src: "cursor_inv (rd_state w1)" "length (cur_data (rd_state w1)) = 16384" using cursor.world_stepD [OF Key(3)] w(2) by auto
    have len: "material_len 64 8 = Ok 512" by (simp add: material_len_def checked_mul_def usize_mul_def MAX_STRIPES_def div_ceil_def)
    have lim: "512 \<le> isize_MAX" by simp
    define mat where "mat = take 512 (drop (unat (8192 :: u64)) (cur_data (rd_state w1)))"
    have mat: "length mat = 512" using src(2) by (simp add: mat_def)
    obtain w2 where w2: "cursor.world_step w1 w2" "?area key w1 =
        bindM (liftR (xts_decrypt_area C ''xts-plain64'' key mat 512 0)) (\<lambda>plain. bindM (liftR (merge C af plain 64 8)) ?go) w2"
      using cursor.area_prog_run [OF src(1) len lim, where off = 8192 and C = C and mode = "''xts-plain64''" and hspec = af and key = key
          and skip = "fail AuthenticationFailed" and go = ?go, folded mat_def, unfolded mat]
      by (simp only: less_irrefl if_False) blast
    have "tweaks_fit 512 (length mat) (unat (0 :: u128))" by (simp add: mat tweaks_fit_def unit_step_def)
    then obtain plain where "xts_decrypt_area C ''xts-plain64'' key mat 512 0 = Ok plain"
      using xts_area_cases [of 512 mat 0 C "''xts-plain64''" key] key by auto
    with loop Key(3,4) w2 cursor.world_step_trans [OF Key(3) w2(1)] show ?thesis by auto
  next
    case (Fail e w')
    with ready w(3) show ?thesis by blast
  qed
qed

lemma luks2_header_tests:
  fixes c :: clock and J :: "'n json_api"
  assumes C: "crypto_ok C" and J: "json_ok J" "volume_texts_ok C J num enc" and c: "still c"
  shows "passes (luks2_no_crypt_segment C J) c" and "passes (luks2_no_keyslots C J) c"
    and "passes (luks2_short_key_material_is_skipped C J) c"
proof -
  let ?k = "Pbkdf2 ''sha256'' 5 (replicate 3 0)"
  note kdf = refusal_kdfs_read(2) [OF J, of "''sha256''"]
  show "passes (luks2_no_crypt_segment C J) c"
  proof (rule text_image [OF J(2), of NO_SEGMENT])
    fix img assume img: "build_luks2_json (bytes_of_string NO_SEGMENT) = Ok img" "length img = 16384" "hdr_size_of img \<le> isize_MAX"
      "parse2 J (hdr_area_of img) = Ok (header2_of J 8192 (refusal_doc num ''sha256'' 8192 (pbkdf2_doc num ''sha256'' 5 ''AAAA'') (Object []) (Object [])))"
    show ?thesis
      unfolding luks2_no_crypt_segment_def using img(2,4) refusal_docs_read(1) [OF J _ kdf, of 8192 "''sha256''"]
      by (intro text_refused_spec [OF C c img(1-3)])
        (simp_all add: image_supported2_def supported2_def unlock2_spec_def refusal_header_def crypt_segment_def slot2_ready_def
          refusal_slot_def build_slot2_def L2_defs kdf_ready_def kdf_key_def hash_of_name_def MAX_KEY_BYTES_def MAX_STRIPES_def)
  qed (simp add: refusal_texts_def)
  show "passes (luks2_no_keyslots C J) c"
  proof (rule text_image [OF J(2), of NO_KEYSLOT])
    fix img assume img: "build_luks2_json (bytes_of_string NO_KEYSLOT) = Ok img" "length img = 16384" "hdr_size_of img \<le> isize_MAX"
      "parse2 J (hdr_area_of img) = Ok (header2_of J 8192 (Object [(''digests'', Object []), (''keyslots'', Object []), (''segments'', segments_doc num)]))"
    then show ?thesis
      unfolding luks2_no_keyslots_def
      by (intro text_refused_spec [OF C c img(1-3)])
        (simp_all add: image_supported2_def supported2_def unlock2_spec_def header2_of_def entries_def json_okD [OF J(1)]
          List.map_filter_simps split: option.split)
  qed (simp add: refusal_texts_def)
  show "passes (luks2_short_key_material_is_skipped C J) c"
  proof (rule text_image [OF J(2), of SHORT_AREA])
    fix img assume img: "build_luks2_json (bytes_of_string SHORT_AREA) = Ok img" "length img = 16384" "hdr_size_of img \<le> isize_MAX"
      "parse2 J (hdr_area_of img) = Ok (header2_of J 8192 (refusal_doc num ''sha256'' 9999999 (pbkdf2_doc num ''sha256'' 5 ''AAAA'') (segments_doc num) (digests_doc num ''sha256'')))"
    let ?h = "refusal_header ''sha256'' 9999999 ?k [build_segment2 512] [zero_digest ''sha256'']"
    have parse: "parse2 J (hdr_area_of img) = Ok ?h"
      using img(4) refusal_docs_read(3) [OF J _ kdf, of 9999999 "''sha256''" "''sha256''"] by simp
    have "material_len 64 8 = Ok 512" by (simp add: material_len_def checked_mul_def usize_mul_def MAX_STRIPES_def div_ceil_def)
    then have "open_slot2 C ?h img PASS (refusal_slot ''sha256'' 9999999 ?k) = None"
      using img(2) by (simp add: open_slot2_def refusal_slot_def build_slot2_def L2_defs kdf_key_def hash_of_name_def area_candidate_def Let_def)
    then have "unlock2_spec C J img PASS = Err AuthenticationFailed"
      using parse img(2) by (simp add: unlock2_spec_def refusal_header_def crypt_segment_def build_segment2_def)
    moreover have "image_supported2 C J img PASS"
      using parse
      by (simp add: image_supported2_def supported2_def refusal_header_def slot2_ready_def refusal_slot_def build_slot2_def L2_defs
          kdf_ready_def kdf_key_def hash_of_name_def MAX_KEY_BYTES_def MAX_STRIPES_def digest_ready_def zero_digest_def)
    ultimately show ?thesis
      unfolding luks2_short_key_material_is_skipped_def by (intro text_refused_spec [OF C c img(1-3)]) simp_all
  qed (simp add: refusal_texts_def)
qed

lemma luks2_kdf_tests:
  fixes c :: clock and J :: "'n json_api"
  assumes J: "json_ok J" "volume_texts_ok C J num enc" and doc: "argon2_documented C" and c: "still c"
  shows "passes (luks2_bad_argon2_params_errors C J) c" and "passes (luks2_unsupported_keyslot_kdf_hash_errors C J) c"
proof -
  show "passes (luks2_bad_argon2_params_errors C J) c"
  proof (rule text_image [OF J(2), of BAD_ARGON2])
    fix img assume img: "build_luks2_json (bytes_of_string BAD_ARGON2) = Ok img" "length img = 16384" "hdr_size_of img \<le> isize_MAX"
      "parse2 J (hdr_area_of img) = Ok (header2_of J 8192 (refusal_doc num ''sha256'' 8192 (argon2_doc num 0 ''AAAAAAAAAAA='') (segments_doc num) (Object [])))"
    let ?k = "Argon2 ''argon2id'' 1 0 1 (replicate 8 0)"
    have parse: "parse2 J (hdr_area_of img) = Ok (refusal_header ''sha256'' 8192 ?k [build_segment2 512] [])"
      using img(4) refusal_docs_read(2) [OF J _ refusal_kdfs_read(1) [OF J], of 8192 "''sha256''"] by simp
    have "argon2_params C 0 1 1 64 \<noteq> None" using doc by (simp add: argon2_documented_def)
    then obtain e where "argon2_params C 0 1 1 64 = Some e" by blast
    then have "derive_slot_key C PASS (refusal_slot ''sha256'' 8192 ?k) left w = Some (Err (Unsupported ''argon2 params'' e), w)"
      for left and w :: "cursor world"
      by (simp add: derive_slot_key_def refusal_slot_def build_slot2_def derive_argon2_value key_consts argon2_run_def)
    then show ?thesis
      unfolding luks2_bad_argon2_params_errors_def
      by (intro refused_at_slot [OF c img(1-3) parse, of _ "Unsupported ''argon2 params'' e"] derivation_refused) simp_all
  qed (simp add: refusal_texts_def)
  show "passes (luks2_unsupported_keyslot_kdf_hash_errors C J) c"
  proof (rule text_image [OF J(2), of BAD_KDF_HASH])
    fix img assume img: "build_luks2_json (bytes_of_string BAD_KDF_HASH) = Ok img" "length img = 16384" "hdr_size_of img \<le> isize_MAX"
      "parse2 J (hdr_area_of img) = Ok (header2_of J 8192 (refusal_doc num ''sha256'' 8192 (pbkdf2_doc num ''md5'' 5 ''AAAA'') (segments_doc num) (Object [])))"
    let ?k = "Pbkdf2 ''md5'' 5 (replicate 3 0)"
    have parse: "parse2 J (hdr_area_of img) = Ok (refusal_header ''sha256'' 8192 ?k [build_segment2 512] [])"
      using img(4) refusal_docs_read(2) [OF J _ refusal_kdfs_read(2) [OF J], of 8192 "''sha256''" "''md5''"] by simp
    have "derive_slot_key C PASS (refusal_slot ''sha256'' 8192 ?k) left w = Some (Err (Unsupported ''hash'' ''md5''), w)"
      for left and w :: "cursor world"
      by (simp add: derive_slot_key_def refusal_slot_def build_slot2_def derive_key_value key_consts hash_of_name_def)
    then show ?thesis
      unfolding luks2_unsupported_keyslot_kdf_hash_errors_def
      by (intro refused_at_slot [OF c img(1-3) parse, of _ "Unsupported ''hash'' ''md5''"] derivation_refused) (simp_all add: unsupported_def)
  qed (simp add: refusal_texts_def)
qed

lemma unknown_digest_hash:
  fixes w :: "'x clock_scheme"
  assumes "idle dl w"
  shows "\<exists>w'. check_digests C dl 0 ''0'' mk [zero_digest ''md5''] w = Some (Err (Unsupported ''hash'' ''md5''), w')"
  using on_time [OF assms, of 0]
  by (auto simp: zero_digest_def bindM_run derive_key_value hash_of_name_def MAX_KEY_BYTES_def)

lemma luks2_area_tests:
  fixes c :: clock and J :: "'n json_api"
  assumes C: "crypto_ok C" and J: "json_ok J" "volume_texts_ok C J num enc" and c: "still c"
  shows "passes (luks2_unsupported_af_hash_errors C J) c" and "passes (luks2_unsupported_digest_hash_errors C J) c"
proof -
  let ?k = "Pbkdf2 ''sha256'' 5 (replicate 3 0)" and ?e = "Unsupported ''hash'' ''md5''"
  note kdf = refusal_kdfs_read(2) [OF J, of "''sha256''"]
  show "passes (luks2_unsupported_af_hash_errors C J) c"
  proof (rule text_image [OF J(2), of BAD_AF_HASH])
    fix img assume img: "build_luks2_json (bytes_of_string BAD_AF_HASH) = Ok img" "length img = 16384" "hdr_size_of img \<le> isize_MAX"
      "parse2 J (hdr_area_of img) = Ok (header2_of J 8192 (refusal_doc num ''md5'' 8192 (pbkdf2_doc num ''sha256'' 5 ''AAAA'') (segments_doc num) (Object [])))"
    have parse: "parse2 J (hdr_area_of img) = Ok (refusal_header ''md5'' 8192 ?k [build_segment2 512] [])"
      using img(4) refusal_docs_read(2) [OF J _ kdf, of 8192 "''md5''"] by simp
    have md5: "merge C ''md5'' plain 64 8 = Err ?e" for plain by (simp add: merge_def MAX_STRIPES_def)
    show ?thesis
      unfolding luks2_unsupported_af_hash_errors_def
    proof (rule refused_at_slot [OF c img(1-3) parse])
      fix w :: "cursor world" assume "cursor_inv (rd_state w)" "cur_data (rd_state w) = img" "idle (deadline_at c UNLOCK_BUDGET) w"
      with slot_reaches [OF C, of w "deadline_at c UNLOCK_BUDGET" "refusal_header ''md5'' 8192 ?k [build_segment2 512] []" "''md5''"] img(2) md5
      show "\<exists>w'. recover_loop2 C cursor_reader (refusal_header ''md5'' 8192 ?k [build_segment2 512] []) PASS
          (deadline_at c UNLOCK_BUDGET) [(0, refusal_slot ''md5'' 8192 ?k)] w = Some (Err ?e, w')"
        by (auto simp del: recover_loop2.simps)
    qed (simp add: unsupported_def)
  qed (simp add: refusal_texts_def)
  show "passes (luks2_unsupported_digest_hash_errors C J) c"
  proof (rule text_image [OF J(2), of BAD_DIGEST_HASH])
    fix img assume img: "build_luks2_json (bytes_of_string BAD_DIGEST_HASH) = Ok img" "length img = 16384" "hdr_size_of img \<le> isize_MAX"
      "parse2 J (hdr_area_of img) = Ok (header2_of J 8192 (refusal_doc num ''sha256'' 8192 (pbkdf2_doc num ''sha256'' 5 ''AAAA'') (segments_doc num) (digests_doc num ''md5'')))"
    let ?h = "refusal_header ''sha256'' 8192 ?k [build_segment2 512] [zero_digest ''md5'']" and ?dl = "deadline_at c UNLOCK_BUDGET"
    have parse: "parse2 J (hdr_area_of img) = Ok ?h"
      using img(4) refusal_docs_read(3) [OF J _ kdf, of 8192 "''sha256''" "''md5''"] by simp
    have "area_fits 64 8" by (simp add: area_fits_def)
    then have merged: "\<exists>mk. merge C ''sha256'' plain 64 8 = Ok mk" for plain
      using merge_cases [OF C, of 64 8 "''sha256''" plain] by (auto simp: hash_of_name_def MAX_STRIPES_def)
    show ?thesis
      unfolding luks2_unsupported_digest_hash_errors_def
    proof (rule refused_at_slot [OF c img(1-3) parse])
      fix w :: "cursor world" assume w: "cursor_inv (rd_state w)" "cur_data (rd_state w) = img" "idle ?dl w"
      obtain plain w1 where w1: "cursor.world_step w w1" "recover_loop2 C cursor_reader ?h PASS ?dl [(0, refusal_slot ''sha256'' 8192 ?k)] w =
          bindM (liftR (merge C ''sha256'' plain 64 8)) (\<lambda>candidate.
          bindM (check_digests C ?dl 0 ''0'' candidate [zero_digest ''md5'']) (\<lambda>ok. if ok then ret candidate else fail AuthenticationFailed)) w1"
        using slot_reaches [OF C w(1) _ w(3), of ?h "''sha256''"] w(2) img(2)
        by (auto simp: refusal_header_def simp del: recover_loop2.simps)
      obtain mk w2 where "merge C ''sha256'' plain 64 8 = Ok mk" "check_digests C ?dl 0 ''0'' mk [zero_digest ''md5''] w1 = Some (Err ?e, w2)"
        using merged [of plain] unknown_digest_hash [of ?dl w1 C] cursor.world_stepD(3) [OF w1(1)] w(3) by blast
      with w1(2) show "\<exists>w'. recover_loop2 C cursor_reader ?h PASS ?dl [(0, refusal_slot ''sha256'' 8192 ?k)] w = Some (Err ?e, w')"
        by (simp del: recover_loop2.simps check_digests.simps)
    qed (simp add: unsupported_def)
  qed (simp add: refusal_texts_def)
qed

text \<open>The test of the digests passes exactly when the first digest is not hit by chance.\<close>

definition mismatch_header :: Luks2Header where
  "mismatch_header = refusal_header ''sha256'' 8192 (Pbkdf2 ''sha256'' 5 (replicate 3 0)) [build_segment2 512]
     [zero_digest ''sha256'', (zero_digest ''sha256'')\<lparr>digest_keyslots := [''9'']\<rparr>]"

lemma luks2_digest_mismatch_decided:
  fixes c :: clock and J :: "'n json_api"
  assumes C: "crypto_ok C" and J: "json_ok J" "volume_texts_ok C J num enc" and c: "still c"
  shows "\<exists>img. build_luks2_json (bytes_of_string DIGEST_MISMATCH) = Ok img \<and>
     (passes (luks2_digest_mismatch_falls_through C J) c \<longleftrightarrow>
      open_slot2 C mismatch_header img PASS (hd (keyslots2 mismatch_header)) = None)"
proof (rule text_image [OF J(2), of DIGEST_MISMATCH])
  let ?k = "Pbkdf2 ''sha256'' 5 (replicate 3 0)" and ?h = mismatch_header
  let ?slot = "refusal_slot ''sha256'' 8192 ?k"
  fix img assume img: "build_luks2_json (bytes_of_string DIGEST_MISMATCH) = Ok img" "length img = 16384" "hdr_size_of img \<le> isize_MAX"
    "parse2 J (hdr_area_of img) = Ok (header2_of J 8192 (refusal_doc num ''sha256'' 8192 (pbkdf2_doc num ''sha256'' 5 ''AAAA'') (segments_doc num)
       (Object [(''0'', digest_doc num ''0'' ''sha256''), (''1'', digest_doc num ''9'' ''sha256'')])))"
  have parse: "parse2 J (hdr_area_of img) = Ok ?h"
    using img(4) refusal_docs_read(4) [OF J _ refusal_kdfs_read(2) [OF J], of 8192 "''sha256''" "''sha256''" "''sha256''"] by (simp add: mismatch_header_def)
  have "image_supported2 C J img PASS"
    using parse
    by (simp add: image_supported2_def supported2_def mismatch_header_def refusal_header_def slot2_ready_def refusal_slot_def build_slot2_def
        L2_defs kdf_ready_def kdf_key_def hash_of_name_def MAX_KEY_BYTES_def MAX_STRIPES_def digest_ready_def zero_digest_def)
  then have "answers img c (over_image img (unlock2_with_passphrase C J cursor_reader PASS)) (unlock2_spec C J img PASS)"
    using unlock2_answers [OF C _ c _ img(3)] img(2) by simp
  moreover have "unlock2_spec C J img PASS = (case open_slot2 C ?h img PASS ?slot of
      None \<Rightarrow> Err AuthenticationFailed | Some mk \<Rightarrow> Ok (payload2 (build_segment2 512) mk (of_nat (length img)) ()))"
    using parse img(2)
    by (simp add: unlock2_spec_def mismatch_header_def refusal_header_def crypt_segment_def build_segment2_def split: option.split)
  ultimately have "passes (on_result (assert_err (\<lambda>e. e = AuthenticationFailed)) (over_image img (unlock2_with_passphrase C J cursor_reader PASS))) c \<longleftrightarrow>
      open_slot2 C ?h img PASS ?slot = None"
    by (intro answers_decide) simp_all
  moreover have "hd (keyslots2 ?h) = ?slot" by (simp add: mismatch_header_def refusal_header_def)
  ultimately show ?thesis using img(1) by (simp add: luks2_digest_mismatch_falls_through_def text_refused_def passes_def)
qed (simp add: refusal_texts_def)

section \<open>The suite\<close>

text \<open>
  The unit tests of unlocking: containers of both versions unlock to the key and the data they were built from, reads and
  seeks in them deliver what they should, a budget of zero is refused before any derivation, and each
  of the malformed or unsupported containers is refused with the stated error.  They pass with crypto
  crates that have the documented sizes, inverse and limits, JSON and base64 crates that read the
  texts of the tests, buffers of any size in \<open>read_to_end\<close>, and a clock that stands still.  The two tests
  of a wrong passphrase and of a wrong digest pass exactly when the keyslot does not open by chance.
\<close>

lemma volume_test_suite_passes:
  fixes c :: clock
  assumes "crypto_ok C" and "xts_inverse C" and "argon2_documented C" and "json_ok J" and "volume_texts_ok C J num enc"
    and "still c" and "\<And>k. 0 < cap k \<and> cap k \<le> isize_MAX"
  shows "list_all (\<lambda>t. passes t c)
      [luks1_roundtrip_via_autodetect C J, luks1_read_seek_traits C dbg cap, luks1_seek_before_start_errors C,
       unlock_is_bounded_in_aggregate_not_just_per_derivation C, luks1_no_active_keyslot C,
       luks1_short_key_material_is_skipped C, not_a_luks_container C J, unsupported_version C J,
       luks2_argon2id_roundtrip C J enc, luks2_pbkdf2_roundtrip C J enc,
       luks2_pbkdf2_unlock_is_bounded_in_aggregate_not_just_per_derivation C J enc,
       luks2_argon2_unlock_is_bounded_in_aggregate_too C J enc, autodetect_unlock_within_bounds_both_versions C J enc,
       luks2_no_crypt_segment C J, luks2_no_keyslots C J, luks2_short_key_material_is_skipped C J,
       luks1_unsupported_hash_errors C, luks2_bad_argon2_params_errors C J, luks2_unsupported_keyslot_kdf_hash_errors C J,
       luks2_unsupported_af_hash_errors C J, luks2_unsupported_digest_hash_errors C J] \<and>
     split_encryption_without_dash = Ok () \<and>
     passes read_available_retries_on_interrupted False \<and> passes read_available_propagates_hard_error () \<and>
     (\<exists>img. build_luks1 C (replicate 64 0x5C) = Ok (img, known_plain 1536) \<and>
        (passes (luks1_wrong_passphrase C) c \<longleftrightarrow>
         open_slot1 C (build_header C (replicate 64 0x5C)) img (bytes_of_string ''wrong'') build_slot0 = None)) \<and>
     (\<exists>img. build_luks2_json (bytes_of_string DIGEST_MISMATCH) = Ok img \<and>
        (passes (luks2_digest_mismatch_falls_through C J) c \<longleftrightarrow>
         open_slot2 C mismatch_header img PASS (hd (keyslots2 mismatch_header)) = None))"
proof -
  note C = assms(1,2) and c = assms(6)
  note luks1 = luks1_roundtrip_via_autodetect_passes [OF C c, of J] luks1_read_seek_traits_passes [where cap = cap, OF C c assms(7)]
    luks1_seek_before_start_errors_passes [OF C c] unlock_is_bounded_in_aggregate_not_just_per_derivation_passes [OF C c]
    luks1_no_active_keyslot_passes [OF C c] luks1_short_key_material_is_skipped_passes [OF C c] luks1_unsupported_hash_errors_passes [OF C c]
  note luks2 = luks2_opening_tests [OF C assms(4,5,3) c] luks2_deadline_tests [OF C assms(4,5,3) c]
    luks2_header_tests [OF C(1) assms(4,5) c] luks2_kdf_tests [OF assms(4,5,3) c] luks2_area_tests [OF C(1) assms(4,5) c]
  show ?thesis
    using luks1 luks2 not_a_luks_container_passes [OF C(1) c, of J] unsupported_version_passes [OF C(1) c, of J] reading_tests
      luks1_wrong_passphrase_decided [OF C c] luks2_digest_mismatch_decided [OF C(1) assms(4,5) c]
    by (simp add: split_encryption_without_dash_passes)
qed

text \<open>Sample crates: byte strings are encoded in hexadecimal, and the texts of the tests are known.\<close>

definition volume_crypto :: crypto_api where
  "volume_crypto = strict_crypto\<lparr>pbkdf2_hmac := pbkdf2_hmac sample_crypto\<rparr>"

definition hex_value :: "char \<Rightarrow> nat" where
  "hex_value ch = (if of_char ch < (58 :: nat) then of_char ch - 48 else of_char ch - 87)"

fun unhex :: "string \<Rightarrow> bytes" where
  "unhex (a # b # s) = of_nat (16 * hex_value a + hex_value b) # unhex s"
| "unhex s = []"

definition volume_json :: "nat json_api" where
  "volume_json = (sample_json Null)
     \<lparr>from_slice := map_of (map (\<lambda>(s, doc). (bytes_of_string s, doc)) (volume_texts volume_crypto id hex @ refusal_texts id)),
      b64_decode := (\<lambda>s. if CHR ''A'' \<in> set s then Some (replicate (if s = ''AAAA'' then 3 else 8) 0) else Some (unhex s))\<rparr>"

lemma hex_digits:
  assumes "d < 16"
  shows "hex_value (hex_digit d) = d" "hex_digit d \<noteq> CHR ''A''" "hex_digit d \<noteq> CHR 0x00"
proof -
  have v: "(of_char (hex_digit d) :: nat) = (if d < 10 then 48 + d else 87 + d)" using assms by (simp add: hex_digit_def)
  then show "hex_value (hex_digit d) = d" by (simp add: hex_value_def)
  have "(of_char (hex_digit d) :: nat) \<noteq> of_char CHR ''A''" "(of_char (hex_digit d) :: nat) \<noteq> of_char CHR 0x00"
    using v assms by (simp_all)
  then show "hex_digit d \<noteq> CHR ''A''" "hex_digit d \<noteq> CHR 0x00" by auto
qed

lemma hex_encodes: "unhex (hex x) = x" "CHR ''A'' \<notin> set (hex x)" "CHR 0x00 \<notin> set (hex x)" "length (hex x) = 2 * length x"
proof -
  have d: "unat b div 16 < 16" "unat b mod 16 < 16" for b :: u8 using unsigned_less [of b, where 'a = nat] by simp_all
  show "unhex (hex x) = x" by (induction x) (simp_all add: hex_def hex_byte_def hex_digits d)
  show "CHR ''A'' \<notin> set (hex x)" "CHR 0x00 \<notin> set (hex x)"
    by (auto simp: hex_def hex_byte_def hex_digits(2,3) [OF d(1), symmetric] hex_digits(2,3) [OF d(2), symmetric])
  show "length (hex x) = 2 * length x" by (induction x) (simp_all add: hex_def hex_byte_def)
qed

text \<open>The texts are pairwise different.\<close>

lemma refusal_texts_differ: "distinct (map fst (refusal_texts num))"
  by (simp add: refusal_texts_def refusal_text_defs)

lemma refusal_texts_mark: "(s, doc) \<in> set (refusal_texts num) \<Longrightarrow> s ! 32 \<noteq> CHR 0x22"
  by (auto simp: refusal_texts_def refusal_text_defs)

lemma volume_texts_mark: "(s, doc) \<in> set (volume_texts C num enc) \<Longrightarrow> s ! 32 = CHR 0x22"
  by (auto simp: volume_texts_def Let_def volume_text_def build_luks2_text_def)

lemma volume_digests_differ:
  "pbkdf2_sha256 volume_crypto (replicate 64 0x1E) slt n 32 \<noteq> pbkdf2_sha256 volume_crypto (replicate 64 0x44) slt n 32"
  by (simp add: pbkdf2_sha256_def volume_crypto_def sample_crypto_def fit_def)

lemma volume_texts_differ: "distinct (map fst (volume_texts volume_crypto num hex))"
proof -
  have "hex (pbkdf2_sha256 volume_crypto (replicate 64 0x1E) slt n 32) \<noteq> hex (pbkdf2_sha256 volume_crypto (replicate 64 0x44) slt n 32)" for slt n
    using volume_digests_differ [of slt n] hex_encodes(1) by metis
  then show ?thesis
    by (simp add: volume_texts_def Let_def volume_text_def build_luks2_text_def argon2_kdf_text_def pbkdf2_kdf_text_def show_nat_sizes)
qed

lemma known_text:
  "distinct (map fst ts) \<Longrightarrow> (s, doc) \<in> set ts \<Longrightarrow>
   map_of (map (\<lambda>(s, doc). (bytes_of_string s, doc)) ts) (bytes_of_string s) = Some doc"
  by (induction ts) force+

lemma volume_crates_ok:
  "crypto_ok volume_crypto" "xts_inverse volume_crypto" "argon2_documented volume_crypto" "json_ok volume_json"
  "volume_texts_ok volume_crypto volume_json id hex"
proof -
  show "crypto_ok volume_crypto" "xts_inverse volume_crypto" "argon2_documented volume_crypto"
    by (auto simp: crypto_ok_def xts_inverse_def argon2_documented_def volume_crypto_def strict_crypto_def sample_crypto_def comp_def
        split: if_splits)
  show "json_ok volume_json" by (simp add: json_ok_def volume_json_def sample_json_def)
  let ?texts = "volume_texts volume_crypto id hex @ refusal_texts id"
  have "distinct (map fst ?texts)"
    using refusal_texts_differ [of id] volume_texts_differ [of id] refusal_texts_mark volume_texts_mark by fastforce
  then have "from_slice volume_json (bytes_of_string s) = Some doc" if "(s, doc) \<in> set ?texts" for s doc
    using known_text [OF _ that] by (simp add: volume_json_def del: map_append)
  then show "volume_texts_ok volume_crypto volume_json id hex"
    using hex_encodes by (auto simp: volume_texts_ok_def list_all_iff volume_json_def sample_json_def)
qed

lemma volume_test_suite_passes_witness:
  "passes (luks1_read_seek_traits volume_crypto (\<lambda>t. t) (\<lambda>k. 32)) \<lparr>reading = (\<lambda>n. 0), tick = 0\<rparr> \<and>
   passes (luks2_argon2id_roundtrip volume_crypto volume_json hex) \<lparr>reading = (\<lambda>n. 0), tick = 0\<rparr> \<and>
   passes (luks2_unsupported_digest_hash_errors volume_crypto volume_json) \<lparr>reading = (\<lambda>n. 0), tick = 0\<rparr>"
proof -
  have "still (\<lparr>reading = (\<lambda>n. 0), tick = 0\<rparr> :: clock)" by (simp add: still_def)
  from volume_test_suite_passes [where cap = "\<lambda>k. 32", OF volume_crates_ok this, of "\<lambda>t. t"] show ?thesis by simp
qed

end
