(* ===== verification/Tests_Vfs.thy ===== *)
theory Tests_Vfs
  imports Vfs_Fixtures Tests_Volume
begin

text \<open>
  The unit tests of \<^verbatim>\<open>core/src/vfs.rs\<close>, one definition per test.  \<open>R\<close> and \<open>sc\<close> are the reader that
  \<open>SourceCursor\<close> of the crate \<^verbatim>\<open>forensic_vfs\<close> makes of an image, and \<open>is_empty\<close> is a method of its trait.
\<close>

section \<open>The tests\<close>

text \<open>\<open>expect\<close> and its dual, for any error type.\<close>

definition expect :: "('s, 'e, 'a) prog \<Rightarrow> ('s, LuksError, 'a) prog" where
  "expect m = (\<lambda>s. map_option (\<lambda>(x, s').
     (case x of Ok v \<Rightarrow> Ok v | Err _ \<Rightarrow> Panic ''expect'' | Panic q \<Rightarrow> Panic q, s')) (m s))"

definition expect_err :: "('s, 'e, 'a) prog \<Rightarrow> ('s, LuksError, 'e) prog" where
  "expect_err m = (\<lambda>s. map_option (\<lambda>(x, s').
     (case x of Ok _ \<Rightarrow> Panic ''expected open to fail'' | Err e \<Rightarrow> Ok e | Panic q \<Rightarrow> Panic q, s')) (m s))"

lemma expect_run [simp]:
  "m s = Some (Ok v, s') \<Longrightarrow> expect m s = Some (Ok v, s')" "m s = Some (Err e, s') \<Longrightarrow> expect_err m s = Some (Ok e, s')"
  by (simp_all add: expect_def expect_err_def)

text \<open>\<open>LuksLayer::new(mem(bytes))\<close>, and the layer that most tests start from.\<close>

definition new_layer :: "bytes \<Rightarrow> (clock, LuksError, bytes LuksLayer) prog" where
  "new_layer img = expect (\<lambda>c. map_option (\<lambda>x. (x, c)) (LuksLayer_new mem_source img))"

definition built_layer :: "crypto_api \<Rightarrow> (clock, LuksError, bytes LuksLayer) prog" where
  "built_layer C = bindM (liftR (vfs_build_luks1 C vfs_master)) new_layer"

definition detects_luks1_scheme :: "crypto_api \<Rightarrow> (clock, LuksError, unit) prog" where
  "detects_luks1_scheme C = bindM (built_layer C) (\<lambda>layer. liftR (assert_that (scheme layer = Luks1)))"

definition non_luks1_header_reports_luks2 :: "(clock, LuksError, unit) prog" where
  "non_luks1_header_reports_luks2 =
     bindM (new_layer (replicate 8 0)) (\<lambda>layer.
     bindM (liftR (assert_that (scheme layer = Luks2))) (\<lambda>_.
     bindM (liftR (writes [(0, 6, LUKS_MAGIC), (6, 8, to_be_bytes 2 (2 :: u16))] (replicate 4096 0))) (\<lambda>hdr.
     bindM (new_layer hdr) (\<lambda>layer.
     liftR (assert_that (scheme layer = Luks2))))))"

text \<open>The calls on a source that a test has opened.\<close>

definition with_source :: "'r LuksSource \<Rightarrow> ('r LuksSource, LuksError, unit) prog \<Rightarrow> (clock, LuksError, unit) prog" where
  "with_source src body = (\<lambda>c. case body src of None \<Rightarrow> None | Some (x, _) \<Rightarrow> Some (x, c))"

definition assert_decrypts ::
  "crypto_api \<Rightarrow> 'n json_api \<Rightarrow> (string \<Rightarrow> string) \<Rightarrow> 'r reader \<Rightarrow> (bytes \<Rightarrow> u64 \<Rightarrow> u64 \<Rightarrow> 'r) \<Rightarrow> bytes LuksLayer \<Rightarrow>
   Credential list \<Rightarrow> (clock, LuksError, unit) prog" where
  "assert_decrypts C J dbg R sc layer creds =
     bindM (expect (open_layer C J dbg R sc (fixed_creds creds) layer)) (\<lambda>dec.
     let sector = (\<lambda>sec. bindM (expect (source_read_at C dbg R (of_nat (sec * 512)) (replicate 512 0))) (\<lambda>(n, buf).
           liftR (assert_all [n = 512, list_all (\<lambda>b. b = of_nat sec) buf])))
     in with_source dec (bindM (sector 0) (\<lambda>_. bindM (sector 1) (\<lambda>_. sector 2))))"

definition open_succeeds_with_password ::
  "crypto_api \<Rightarrow> 'n json_api \<Rightarrow> (string \<Rightarrow> string) \<Rightarrow> 'r reader \<Rightarrow> (bytes \<Rightarrow> u64 \<Rightarrow> u64 \<Rightarrow> 'r) \<Rightarrow> (clock, LuksError, unit) prog" where
  "open_succeeds_with_password C J dbg R sc =
     bindM (built_layer C) (\<lambda>layer. assert_decrypts C J dbg R sc layer [Password ''luks-TEST''])"

definition open_succeeds_with_recovery_key_and_key_bytes ::
  "crypto_api \<Rightarrow> 'n json_api \<Rightarrow> (string \<Rightarrow> string) \<Rightarrow> 'r reader \<Rightarrow> (bytes \<Rightarrow> u64 \<Rightarrow> u64 \<Rightarrow> 'r) \<Rightarrow> (clock, LuksError, unit) prog" where
  "open_succeeds_with_recovery_key_and_key_bytes C J dbg R sc =
     bindM (built_layer C) (\<lambda>layer.
     bindM (assert_decrypts C J dbg R sc layer [RecoveryKey ''luks-TEST'']) (\<lambda>_.
     assert_decrypts C J dbg R sc layer [KeyBytes PASS]))"

definition open_skips_unwired_variant_then_succeeds ::
  "crypto_api \<Rightarrow> 'n json_api \<Rightarrow> (string \<Rightarrow> string) \<Rightarrow> 'r reader \<Rightarrow> (bytes \<Rightarrow> u64 \<Rightarrow> u64 \<Rightarrow> 'r) \<Rightarrow> (clock, LuksError, unit) prog" where
  "open_skips_unwired_variant_then_succeeds C J dbg R sc =
     bindM (built_layer C) (\<lambda>layer. assert_decrypts C J dbg R sc layer [OtherCredential, Password ''luks-TEST''])"

text \<open>\<open>open_err\<close>.\<close>

definition open_err ::
  "crypto_api \<Rightarrow> 'n json_api \<Rightarrow> (string \<Rightarrow> string) \<Rightarrow> 'r reader \<Rightarrow> (bytes \<Rightarrow> u64 \<Rightarrow> u64 \<Rightarrow> 'r) \<Rightarrow> bytes LuksLayer \<Rightarrow>
   Credential list \<Rightarrow> (clock, LuksError, VfsError) prog" where
  "open_err C J dbg R sc layer creds = expect_err (open_layer C J dbg R sc (fixed_creds creds) layer)"

fun needs_luks_credentials :: "VfsError \<Rightarrow> bool" where
  "needs_luks_credentials (NeedCredentials s _) \<longleftrightarrow> s = ''luks''"
| "needs_luks_credentials (Decode _ _ _ _) \<longleftrightarrow> False"

definition open_with_no_credentials_needs_credentials ::
  "crypto_api \<Rightarrow> 'n json_api \<Rightarrow> (string \<Rightarrow> string) \<Rightarrow> 'r reader \<Rightarrow> (bytes \<Rightarrow> u64 \<Rightarrow> u64 \<Rightarrow> 'r) \<Rightarrow> (clock, LuksError, unit) prog" where
  "open_with_no_credentials_needs_credentials C J dbg R sc =
     bindM (built_layer C) (\<lambda>layer.
     bindM (open_err C J dbg R sc layer []) (\<lambda>err. liftR (assert_that (needs_luks_credentials err))))"

definition open_only_unwired_credentials_needs_credentials ::
  "crypto_api \<Rightarrow> 'n json_api \<Rightarrow> (string \<Rightarrow> string) \<Rightarrow> 'r reader \<Rightarrow> (bytes \<Rightarrow> u64 \<Rightarrow> u64 \<Rightarrow> 'r) \<Rightarrow> (clock, LuksError, unit) prog" where
  "open_only_unwired_credentials_needs_credentials C J dbg R sc =
     bindM (built_layer C) (\<lambda>layer.
     bindM (open_err C J dbg R sc layer [OtherCredential]) (\<lambda>err. liftR (assert_that (needs_luks_credentials err))))"

definition open_wrong_passphrase_is_loud_decode ::
  "crypto_api \<Rightarrow> 'n json_api \<Rightarrow> (string \<Rightarrow> string) \<Rightarrow> 'r reader \<Rightarrow> (bytes \<Rightarrow> u64 \<Rightarrow> u64 \<Rightarrow> 'r) \<Rightarrow> (clock, LuksError, unit) prog" where
  "open_wrong_passphrase_is_loud_decode C J dbg R sc =
     bindM (built_layer C) (\<lambda>layer.
     bindM (open_err C J dbg R sc layer [Password ''wrong'']) (\<lambda>err.
     liftR (case err of Decode l _ _ _ \<Rightarrow> assert_that (l = ''luks'') | NeedCredentials _ _ \<Rightarrow> Panic ''expected Decode'')))"

definition luks_source_len_and_read_bounds ::
  "crypto_api \<Rightarrow> (string \<Rightarrow> string) \<Rightarrow> (cursor LuksSource \<Rightarrow> bool) \<Rightarrow> (clock, LuksError, unit) prog" where
  "luks_source_len_and_read_bounds C dbg is_empty =
     bindM (liftR (vfs_build_luks1 C vfs_master)) (\<lambda>img.
     bindM (expect (over_image img (unlock1_with_passphrase C cursor_reader PASS))) (\<lambda>payload.
     let expected_len = payload_size payload; src = LuksSource_new payload in
     bindM (liftR (assert_all [source_len_of src = expected_len, \<not> is_empty src])) (\<lambda>_.
     with_source src
       (bindM (liftR (chk_sub expected_len 256)) (\<lambda>tail.
        bindM (expect (source_read_at C dbg cursor_reader tail (replicate 512 0))) (\<lambda>(n, _).
        bindM (liftR (assert_that (n = 256))) (\<lambda>_.
        bindM (expect (source_read_at C dbg cursor_reader expected_len (replicate 16 0))) (\<lambda>(n, _).
        liftR (assert_that (n = 0))))))))))"

section \<open>They pass\<close>

lemma vfs_plain_length [simp]: "length vfs_plain = 1536"
  by (simp add: vfs_plain_def numeral_3_eq_3 upt_rec)

lemma vfs_plain_sectors:
  "take 512 vfs_plain = replicate 512 0" "take 512 (drop 512 vfs_plain) = replicate 512 1" "take 512 (drop 1024 vfs_plain) = replicate 512 2"
proof -
  have eq: "vfs_plain = replicate 512 0 @ replicate 512 1 @ replicate 512 2" by (simp add: vfs_plain_def numeral_3_eq_3 numeral_2_eq_2 upt_rec)
  show "take 512 vfs_plain = replicate 512 0" "take 512 (drop 512 vfs_plain) = replicate 512 1" "take 512 (drop 1024 vfs_plain) = replicate 512 2"
    unfolding eq by simp_all
qed

lemma vfs_built:
  assumes C: "crypto_ok C" "xts_inverse C"
  obtains img l where "vfs_build_luks1 C vfs_master = Ok img" "length img = 3584" "take 6 img = LUKS_MAGIC"
    "Header1.parse (take 592 img) = Ok (build_header C vfs_master)" "version_of img = 1"
    "unlock1_spec C img PASS = Ok (payload1 (build_header C vfs_master) vfs_master 3584 ())"
    "\<And>r :: cursor. payload_ok (payload1 (build_header C vfs_master) vfs_master 3584 r)"
    "\<And>r :: cursor. plaintext C (payload1 (build_header C vfs_master) vfs_master 3584 r) img = vfs_plain"
    "encrypted l = img" "layer_len l = 3584" "scheme l = Luks1" "\<And>c. built_layer C c = Some (Ok l, c)"
proof -
  have m: "length vfs_master = 64" by (simp add: vfs_master_def)
  note f = build_format_ok [OF C(1) m]
  obtain img pre where img: "luks1_image C Sha256 (build_header C vfs_master) build_slot0 vfs_master PASS 0x5a vfs_plain = Ok img"
    "img = pre @ xts_units C vfs_master vfs_plain 512 0" "length pre = 2048" "Header1.parse (take 592 img) = Ok (build_header C vfs_master)"
    using luks1_image_parts [OF C f xts_encrypt_sectors [OF m], of vfs_plain PASS "0x5a"] by (auto simp: build_header_def L1_defs)
  have len: "length img = 3584" using img(2,3) C(1) by (simp add: length_xts_units)
  have d: "512 dvd length vfs_plain" and small: "length img \<le> isize_MAX" by (simp_all add: len)
  note u = luks1_image_unlocks [OF C f d img(1) small, unfolded len, simplified]
  note magic = luks1_image_magic [OF C f img(1)]
  have built: "vfs_build_luks1 C vfs_master = Ok img" using img(1) by (simp add: vfs_build_luks1_def)
  obtain l where l: "LuksLayer_new mem_source img = Some (Ok l)" "encrypted l = img" "layer_len l = of_nat (length img)" "scheme l = Luks1"
    by (rule mem_layer [OF small]) (use magic u len in simp)
  have "built_layer C c = Some (Ok l, c)" for c by (simp add: built_layer_def built new_layer_def l(1))
  with l len show thesis by (intro that [OF built len magic img(4) u(1,3,4,5) l(2) _ l(4)]) simp_all
qed

lemma scheme_tests:
  fixes c :: clock
  assumes C: "crypto_ok C" "xts_inverse C"
  shows "passes (detects_luks1_scheme C) c" "passes non_luks1_header_reports_luks2 c"
proof -
  obtain l where "scheme l = Luks1" "built_layer C c = Some (Ok l, c)" by (rule vfs_built [OF C]) blast
  then show "passes (detects_luks1_scheme C) c" by (simp add: passes_def detects_luks1_scheme_def bindM_run)
  have other: "\<exists>l. scheme l = Luks2 \<and> (\<forall>c. new_layer img c = Some (Ok l, c))" if "length img \<le> isize_MAX" "version_of img \<noteq> 1" for img
    by (rule mem_layer [OF that(1)]) (use that(2) in \<open>auto simp: new_layer_def\<close>)
  let ?ws = "[(0, 6, LUKS_MAGIC), (6, 8, to_be_bytes 2 (2 :: u16))]"
  let ?hdr = "LUKS_MAGIC @ to_be_bytes 2 (2 :: u16) @ replicate 4088 0"
  have hdr: "writes ?ws (replicate 4096 0) = Ok ?hdr" using writes_spread [of ?ws 4096] by (simp add: LUKS_MAGIC_def)
  have len: "length LUKS_MAGIC = 6" by (simp add: LUKS_MAGIC_def)
  obtain l1 where l1: "scheme l1 = Luks2" "\<And>c. new_layer (replicate 8 0) c = Some (Ok l1, c)"
    using other [of "replicate 8 0"] by (auto simp: version_of_def from_be_bytes_def numeral_2_eq_2)
  obtain l2 where "scheme l2 = Luks2" "\<And>c. new_layer ?hdr c = Some (Ok l2, c)"
    using other [of ?hdr] len by (auto simp: version_of_def)
  with l1 hdr show "passes non_luks1_header_reports_luks2 c" by (simp add: passes_def non_luks1_header_reports_luks2_def bindM_run)
qed

context byte_reader
begin

lemma decrypts:
  fixes sc :: "bytes \<Rightarrow> u64 \<Rightarrow> u64 \<Rightarrow> 'r" and c :: clock and l :: "bytes LuksLayer"
  assumes C: "crypto_ok C" "xts_inverse C" and img: "vfs_build_luks1 C vfs_master = Ok (encrypted l)" "length (encrypted l) = 3584" "layer_len l = 3584"
    and sc: "inv (sc (encrypted l) 0 3584)" "content (sc (encrypted l) 0 3584) = encrypted l" and c: "still c"
    and creds: "List.map_filter passphrase_of creds = PASS # pws"
  shows "\<exists>c'. assert_decrypts C J dbg R sc l creds c = Some (Ok (), c') \<and> reading c' = reading c"
proof -
  have m: "length vfs_master = 64" by (simp add: vfs_master_def)
  have "creds \<noteq> []" using creds by (auto simp: List.map_filter_simps)
  have "\<exists>src c'. open_loop C J dbg R (sc (encrypted l) 0 3584) creds None c = Some (Ok src, c') \<and> reading c' = reading c \<and>
     source_ok C src \<and> view C (inner src) = vfs_plain"
    using img(2) by (intro open_formatted [OF C build_format_ok [OF C(1) m] _ img(1) [unfolded vfs_build_luks1_def] _ build_supported sc c creds]) simp_all
  then obtain src c' where src: "open_layer C J dbg R sc (fixed_creds creds) l c = Some (Ok src, c')" "reading c' = reading c"
    "source_ok C src" "view C (inner src) = vfs_plain"
    using \<open>creds \<noteq> []\<close> img(3) by (auto simp: open_layer_def fixed_creds_def Let_def)
  have buf: "length (replicate 512 0 :: bytes) \<le> isize_MAX" by simp
  obtain s0 where s0: "source_read_at C dbg R 0 (replicate 512 0) src = Some (Ok (512, replicate 512 0), s0)" "source_ok C s0" "view C (inner s0) = vfs_plain"
    using source_read [OF src(3) buf, of dbg 0] src(4) vfs_plain_sectors(1) by auto
  obtain s1 where s1: "source_read_at C dbg R 512 (replicate 512 0) s0 = Some (Ok (512, replicate 512 1), s1)" "source_ok C s1" "view C (inner s1) = vfs_plain"
    using source_read [OF s0(2) buf, of dbg 512] s0(3) vfs_plain_sectors(2) by auto
  obtain s2 where s2: "source_read_at C dbg R 1024 (replicate 512 0) s1 = Some (Ok (512, replicate 512 2), s2)"
    using source_read [OF s1(2) buf, of dbg 1024] s1(3) vfs_plain_sectors(3) by auto
  show ?thesis
    using src(1,2) s0(1) s1(1) s2 by (simp add: assert_decrypts_def bindM_run with_source_def Let_def list_all_iff)
qed

end

text \<open>The tests of opening and of the decrypted source.\<close>

lemma opening_tests:
  fixes sc :: "bytes \<Rightarrow> u64 \<Rightarrow> u64 \<Rightarrow> 'r" and c :: clock and J :: "'n json_api"
  assumes R: "byte_reader R content pos retries ready" and C: "crypto_ok C" "xts_inverse C" and c: "still c"
    and sc: "\<And>img. length img \<le> isize_MAX \<Longrightarrow> ready (sc img 0 (of_nat (length img))) \<and> content (sc img 0 (of_nat (length img))) = img"
  shows "passes (open_succeeds_with_password C J dbg R sc) c"
    and "passes (open_succeeds_with_recovery_key_and_key_bytes C J dbg R sc) c"
    and "passes (open_skips_unwired_variant_then_succeeds C J dbg R sc) c"
    and "passes (open_with_no_credentials_needs_credentials C J dbg R sc) c"
    and "passes (open_only_unwired_credentials_needs_credentials C J dbg R sc) c"
proof -
  obtain img l where l: "vfs_build_luks1 C vfs_master = Ok img" "length img = 3584" "encrypted l = img" "layer_len l = 3584"
    "\<And>c. built_layer C c = Some (Ok l, c)"
    by (rule vfs_built [OF C]) blast
  have view: "ready (sc (encrypted l) 0 3584)" "content (sc (encrypted l) 0 3584) = encrypted l" using sc [of img] l(2,3) by simp_all
  have dec: "\<exists>c'. assert_decrypts C J dbg R sc l creds c = Some (Ok (), c') \<and> reading c' = reading c"
    if "List.map_filter passphrase_of creds = PASS # pws" "still c" for creds pws and c :: clock
    using byte_reader.decrypts [where sc = sc and l = l, OF R C _ _ l(4) view that(2,1)] l(1-3) by simp
  have pass: "bytes_of_string ''luks-TEST'' = PASS" by (simp add: PASS_def)
  show "passes (open_succeeds_with_password C J dbg R sc) c"
    using dec [of "[Password ''luks-TEST'']" "[]", OF _ c]
    by (auto simp: passes_def open_succeeds_with_password_def bindM_run l(5) List.map_filter_simps pass)
  show "passes (open_skips_unwired_variant_then_succeeds C J dbg R sc) c"
    using dec [of "[OtherCredential, Password ''luks-TEST'']" "[]", OF _ c]
    by (auto simp: passes_def open_skips_unwired_variant_then_succeeds_def bindM_run l(5) List.map_filter_simps pass)
  obtain c1 where c1: "assert_decrypts C J dbg R sc l [RecoveryKey ''luks-TEST''] c = Some (Ok (), c1)" "reading c1 = reading c"
    using dec [of "[RecoveryKey ''luks-TEST'']" "[]", OF _ c] by (auto simp: List.map_filter_simps pass)
  then have "still c1" using c by (simp add: still_def)
  then show "passes (open_succeeds_with_recovery_key_and_key_bytes C J dbg R sc) c"
    using c1(1) dec [of "[KeyBytes PASS]" "[]" c1]
    by (auto simp: passes_def open_succeeds_with_recovery_key_and_key_bytes_def bindM_run l(5) List.map_filter_simps)
  show "passes (open_with_no_credentials_needs_credentials C J dbg R sc) c"
    "passes (open_only_unwired_credentials_needs_credentials C J dbg R sc) c"
    by (simp_all add: passes_def open_with_no_credentials_needs_credentials_def open_only_unwired_credentials_needs_credentials_def
        bindM_run l(5) open_err_def expect_err_def open_layer_def fixed_creds_def no_credentials_def)
qed

lemma luks_source_test:
  fixes c :: clock
  assumes C: "crypto_ok C" "xts_inverse C" and c: "still c" and e: "\<And>s. is_empty s \<longleftrightarrow> source_len_of s = 0"
  shows "passes (luks_source_len_and_read_bounds C dbg is_empty) c"
proof -
  let ?q = "payload1 (build_header C vfs_master) vfs_master 3584 ()"
  obtain img where img: "vfs_build_luks1 C vfs_master = Ok img" "length img = 3584" "Header1.parse (take 592 img) = Ok (build_header C vfs_master)"
    "unlock1_spec C img PASS = Ok ?q" "\<And>r :: cursor. payload_ok (payload1 (build_header C vfs_master) vfs_master 3584 r)"
    "\<And>r :: cursor. plaintext C (payload1 (build_header C vfs_master) vfs_master 3584 r) img = vfs_plain"
    by (rule vfs_built [OF C]) blast
  have small: "length img \<le> isize_MAX" and sup: "image_supported1 img" using img(2,3) build_supported by (simp_all add: image_supported1_def)
  have ok: "payload_ok p \<and> plaintext C p img = vfs_plain" if "forget p = ?q" for p :: "cursor DecryptedPayload"
    using img(5,6) [of "dp_reader p"] payload_of_forget(1) [OF that] by simp
  have "answers img c (over_image img (unlock1_with_passphrase C cursor_reader PASS)) (Ok ?q)"
    using unlock1_answers [OF C(1) small c sup, of PASS] img(4) by simp
  then obtain p c' where p: "over_image img (unlock1_with_passphrase C cursor_reader PASS) c = Some (Ok p, c')" "forget p = ?q"
    "cursor.view_ok C p" "cursor.view C p = vfs_plain"
    by (rule answers_opened [OF _ ok C(1) small])
  have size: "payload_size p = 1536" by (rule payload1_size [OF payload_of_forget(1) [OF p(2)]])
  have src: "cursor.source_ok C (LuksSource_new p)" "cursor.view C (inner (LuksSource_new p)) = vfs_plain"
    using p(3,4) by (simp_all add: cursor.source_ok_def LuksSource_new_def)
  obtain b1 s1 where s1: "source_read_at C dbg cursor_reader 1280 (replicate 512 0) (LuksSource_new p) = Some (Ok (256, b1), s1)"
    "cursor.source_ok C s1" "cursor.view C (inner s1) = vfs_plain"
    using cursor.source_read [OF src(1), of "replicate 512 0" dbg 1280] src(2) by auto
  obtain b2 s2 where "source_read_at C dbg cursor_reader 1536 (replicate 16 0) s1 = Some (Ok (0, b2), s2)"
    using cursor.source_read [OF s1(2), of "replicate 16 0" dbg 1536] s1(3) by auto
  with img(1) p(1) size s1(1) e show ?thesis
    by (simp add: passes_def luks_source_len_and_read_bounds_def bindM_run Let_def with_source_def source_len_of_def LuksSource_new_def
        chk_sub_def)
qed

text \<open>The test with a wrong passphrase passes exactly when the passphrase does not open the slot by chance.\<close>

lemma wrong_passphrase_decided:
  fixes sc :: "bytes \<Rightarrow> u64 \<Rightarrow> u64 \<Rightarrow> 'r" and c :: clock and J :: "'n json_api"
  assumes R: "byte_reader R content pos retries ready" and C: "crypto_ok C" "xts_inverse C" and c: "still c"
    and sc: "\<And>img. length img \<le> isize_MAX \<Longrightarrow> ready (sc img 0 (of_nat (length img))) \<and> content (sc img 0 (of_nat (length img))) = img"
  shows "\<exists>img. vfs_build_luks1 C vfs_master = Ok img \<and>
     (passes (open_wrong_passphrase_is_loud_decode C J dbg R sc) c \<longleftrightarrow>
      open_slot1 C (build_header C vfs_master) img (bytes_of_string ''wrong'') build_slot0 = None)"
proof -
  let ?pw = "bytes_of_string ''wrong''" and ?creds = "fixed_creds [Password ''wrong'']"
  obtain img l where l: "vfs_build_luks1 C vfs_master = Ok img" "length img = 3584" "encrypted l = img" "layer_len l = 3584"
    "Header1.parse (take 592 img) = Ok (build_header C vfs_master)" "version_of img = 1" "\<And>c. built_layer C c = Some (Ok l, c)"
    by (rule vfs_built [OF C]) blast
  have view: "ready (sc (encrypted l) 0 (layer_len l))" "content (sc (encrypted l) 0 (layer_len l)) = img" using sc [of img] l(2-4) by simp_all
  have sup: "\<forall>p. image_supported C J img p" using l(5,6) build_supported by (simp add: image_supported_def image_supported1_def)
  obtain x c' where x: "open_layer C J dbg R sc ?creds l c = Some (x, c')"
    "map_outcome (\<lambda>s. forget (inner s)) id x = open_spec C J dbg img (List.map_filter passphrase_of (?creds (scheme l) [])) None"
    using byte_reader.open_layer_spec [where source_cursor = sc and l = l and J = J and dbg = dbg and credentials_for = ?creds and c = c, OF R C(1) view(1)]
      view(2) l(6) c sup by auto
  have "unlock_spec C J img ?pw = (case open_slot1 C (build_header C vfs_master) img ?pw build_slot0 of
      None \<Rightarrow> Err AuthenticationFailed | Some mk \<Rightarrow> Ok (payload1 (build_header C vfs_master) mk (of_nat (length img)) ()))"
    using wrong_passphrase_spec [OF l(5)] l(2,6) by (simp add: unlock_spec_def)
  then have y: "map_outcome (\<lambda>s. forget (inner s)) id x = (case open_slot1 C (build_header C vfs_master) img ?pw build_slot0 of
      None \<Rightarrow> Err (map_luks_err dbg AuthenticationFailed) | Some mk \<Rightarrow> Ok (payload1 (build_header C vfs_master) mk (of_nat (length img)) ()))"
    using x(2) by (simp add: fixed_creds_def List.map_filter_simps split: option.split)
  have decided: "passes (open_wrong_passphrase_is_loud_decode C J dbg R sc) c \<longleftrightarrow> open_slot1 C (build_header C vfs_master) img ?pw build_slot0 = None"
  proof (cases "open_slot1 C (build_header C vfs_master) img ?pw build_slot0")
    case None
    then have "x = Err (map_luks_err dbg AuthenticationFailed)" using y by (auto simp: map_outcome_eq)
    with None x(1) show ?thesis
      by (simp add: passes_def open_wrong_passphrase_is_loud_decode_def bindM_run l(7) open_err_def expect_err_def map_luks_err_def del: to_string.simps)
  next
    case (Some mk)
    then obtain src where "x = Ok src" using y by (auto simp: map_outcome_eq)
    with Some x(1) show ?thesis
      by (simp add: passes_def open_wrong_passphrase_is_loud_decode_def bindM_run l(7) open_err_def expect_err_def)
  qed
  show ?thesis by (rule exI [where x = img], rule conjI [OF l(1) decided])
qed

section \<open>The suite\<close>

text \<open>
  The unit tests of the adapter: the scheme is detected, a container opens with each kind of wired credential and
  its sectors read back, unwired credentials are skipped and alone lead to a request for
  credentials, and reads at the end of the decrypted source are cut short.  They pass over every
  reader that \<open>SourceCursor\<close> may give of an image, as long as it reads the bytes of the image, and on a
  clock that stands still.  The test with a wrong passphrase passes exactly when that passphrase does not
  open the keyslot by chance.
\<close>

lemma vfs_test_suite_passes:
  fixes sc :: "bytes \<Rightarrow> u64 \<Rightarrow> u64 \<Rightarrow> 'r" and c :: clock and J :: "'n json_api"
  assumes "byte_reader R content pos retries ready" and "crypto_ok C" and "xts_inverse C" and "still c"
    and "\<And>img. length img \<le> isize_MAX \<Longrightarrow> ready (sc img 0 (of_nat (length img))) \<and> content (sc img 0 (of_nat (length img))) = img"
    and "\<And>s. is_empty s \<longleftrightarrow> source_len_of s = 0"
  shows "list_all (\<lambda>t. passes t c)
     [detects_luks1_scheme C, non_luks1_header_reports_luks2, open_succeeds_with_password C J dbg R sc,
      open_succeeds_with_recovery_key_and_key_bytes C J dbg R sc, open_skips_unwired_variant_then_succeeds C J dbg R sc,
      open_with_no_credentials_needs_credentials C J dbg R sc, open_only_unwired_credentials_needs_credentials C J dbg R sc,
      luks_source_len_and_read_bounds C dbg is_empty] \<and>
     (\<exists>img. vfs_build_luks1 C vfs_master = Ok img \<and>
        (passes (open_wrong_passphrase_is_loud_decode C J dbg R sc) c \<longleftrightarrow>
         open_slot1 C (build_header C vfs_master) img (bytes_of_string ''wrong'') build_slot0 = None))"
  using scheme_tests [OF assms(2,3), of c] opening_tests [where sc = sc and J = J and dbg = dbg, OF assms(1-5)] luks_source_test [OF assms(2-4,6)]
    wrong_passphrase_decided [where sc = sc and J = J and dbg = dbg, OF assms(1-5)]
  by simp

lemma vfs_test_suite_passes_witness:
  "passes (open_succeeds_with_password sample_crypto (sample_json Null) (\<lambda>t. t) cursor_reader (\<lambda>s off len. cursor_new s))
     \<lparr>reading = (\<lambda>n. 0), tick = 0\<rparr> \<and>
   passes (luks_source_len_and_read_bounds sample_crypto (\<lambda>t. t) (\<lambda>s. source_len_of s = 0)) \<lparr>reading = (\<lambda>n. 0), tick = 0\<rparr>"
proof -
  have c: "still (\<lparr>reading = (\<lambda>n. 0), tick = 0\<rparr> :: clock)" by (simp add: still_def)
  show ?thesis
    using vfs_test_suite_passes [OF cursor.byte_reader_axioms sample_crypto_ok c, of "\<lambda>s off len. cursor_new s" "\<lambda>s. source_len_of s = 0"
        "sample_json Null" "\<lambda>t. t"]
    by (simp add: cursor_new_def)
qed

end
