(* ===== verification/Tests_Forensic.thy ===== *)
theory Tests_Forensic
  imports Forensic Test_Support
begin

text \<open>
  \<^verbatim>\<open>forensic/src/tests.rs\<close>: the unit tests of the auditor.  A \<open>Finding\<close> belongs to the crate
  \<^verbatim>\<open>forensicnomicon\<close>; its conversion from an observation and its fields are a record of functions,
  of which \<open>finding_ok\<close> says what the crate documents: a finding carries what the observation says
  and the source it was made with.
\<close>

section \<open>The header of the tests\<close>

definition audit_header_writes :: "bytes \<Rightarrow> bytes \<Rightarrow> u32 \<Rightarrow> (usize \<times> usize \<times> bytes) list" where
  "audit_header_writes mode hash iters =
     [(0, 6, [0x4C, 0x55, 0x4B, 0x53, 0xba, 0xbe]),
      (6, 8, to_be_bytes 2 (1 :: u16)),
      (8, 11, bytes_of_string ''aes''),
      (40, 40 + length mode, mode),
      (72, 72 + length hash, hash),
      (104, 108, to_be_bytes 4 (4096 :: u32)),
      (108, 112, to_be_bytes 4 (64 :: u32)),
      (208, 208 + 4, to_be_bytes 4 (0x00AC71F3 :: u32)),
      (208 + 4, 208 + 8, to_be_bytes 4 iters),
      (208 + 44, 208 + 48, to_be_bytes 4 (4000 :: u32))]"

definition audit_header_bytes :: "bytes \<Rightarrow> bytes \<Rightarrow> u32 \<Rightarrow> bytes res" where
  "audit_header_bytes mode hash iters = writes (audit_header_writes mode hash iters) (replicate 592 0)"

text \<open>\<open>Luks1Header::parse(&header_bytes(..)).unwrap()\<close>, the first statement of every test.\<close>

definition audited_header :: "string \<Rightarrow> string \<Rightarrow> u32 \<Rightarrow> Luks1Header res" where
  "audited_header mode hash iters =
     bindR (audit_header_bytes (bytes_of_string mode) (bytes_of_string hash) iters) (\<lambda>b. unwrap (Header1.parse b))"

section \<open>The tests\<close>

definition clean_xts_sha256_header_only_inventory :: "unit res" where
  "clean_xts_sha256_header_only_inventory =
     bindR (audited_header ''xts-plain64'' ''sha256'' 50000) (\<lambda>h.
     let a = audit1 h in
     bindR (assert_that (length a = 1)) (\<lambda>_.
     bindR (index_at a 0) (\<lambda>a0.
     assert_all [an_code a0 = ''LUKS-KEYSLOT-INVENTORY'', an_severity a0 = Info])))"

definition flags_cbc_mode_and_sha1_and_low_iterations :: "unit res" where
  "flags_cbc_mode_and_sha1_and_low_iterations =
     bindR (audited_header ''cbc-essiv:sha256'' ''sha1'' 100) (\<lambda>h.
     let codes = map an_code (audit1 h) in
     assert_all [List.member codes ''LUKS-WEAK-CIPHER-MODE'', List.member codes ''LUKS-WEAK-KDF-HASH'',
       List.member codes ''LUKS-LOW-KDF-ITERATIONS''])"

definition low_iterations_is_medium :: "unit res" where
  "low_iterations_is_medium =
     bindR (audited_header ''xts-plain64'' ''sha256'' 999) (\<lambda>h.
     bindR (unwrap_some (List.find (\<lambda>x. an_code x = ''LUKS-LOW-KDF-ITERATIONS'') (audit1 h))) (\<lambda>low.
     assert_that (an_severity low = Medium)))"

text \<open>The crate of the report types, as far as the tests look at a finding.\<close>

record 'f finding_api =
  to_finding :: "Observation \<Rightarrow> Source \<Rightarrow> 'f"
  f_source :: "'f \<Rightarrow> Source"
  f_code :: "'f \<Rightarrow> string"
  f_category :: "'f \<Rightarrow> Category"
  f_severity :: "'f \<Rightarrow> Severity option"
  f_evidence :: "'f \<Rightarrow> Evidence list"

definition finding_ok :: "'f finding_api \<Rightarrow> bool" where
  "finding_ok N \<longleftrightarrow>
     (\<forall>obs src. f_source N (to_finding N obs src) = src \<and> f_code N (to_finding N obs src) = obs_code obs \<and>
        f_category N (to_finding N obs src) = obs_category obs \<and> f_severity N (to_finding N obs src) = obs_severity obs \<and>
        f_evidence N (to_finding N obs src) = obs_evidence obs)"

definition findings_carry_source_category_and_evidence :: "'f finding_api \<Rightarrow> string \<Rightarrow> unit res" where
  "findings_carry_source_category_and_evidence N pkg_version =
     bindR (audited_header ''cbc-essiv:sha256'' ''sha1'' 100) (\<lambda>h.
     let findings = audit1_findings (to_finding N) pkg_version h ''container.luks'';
         the_one = (\<lambda>c. unwrap_some (List.find (\<lambda>f. f_code N f = c) findings)) in
     bindR (assert_that (length findings = 4)) (\<lambda>_.
     bindR (assert_all (concat (map (\<lambda>f. [analyzer (f_source N f) = ''luks-forensic'',
        scope (f_source N f) = ''container.luks'', src_version (f_source N f) \<noteq> None]) findings))) (\<lambda>_.
     bindR (the_one ''LUKS-KEYSLOT-INVENTORY'') (\<lambda>inv.
     bindR (assert_all [f_category N inv = Provenance, f_severity N inv = Some Info]) (\<lambda>_.
     bindR (the_one ''LUKS-WEAK-CIPHER-MODE'') (\<lambda>weak.
     bindR (assert_all [f_category N weak = Integrity, f_evidence N weak \<noteq> []]) (\<lambda>_.
     bindR (the_one ''LUKS-LOW-KDF-ITERATIONS'') (\<lambda>low.
     assert_that (length (f_evidence N low) = 2)))))))))"

section \<open>The tests pass\<close>

text \<open>What the audit sees of a header of the tests: its mode, its hash and one active keyslot.\<close>

definition audit_layout :: "string \<Rightarrow> string \<Rightarrow> u32 \<Rightarrow> bytes" where
  "audit_layout mode hash iters =
     [0x4C, 0x55, 0x4B, 0x53, 0xba, 0xbe] @ to_be_bytes 2 (1 :: u16) @ bytes_of_string ''aes'' @ replicate 29 0 @
     (bytes_of_string mode @ replicate (32 - length mode) 0) @ (bytes_of_string hash @ replicate (32 - length hash) 0) @
     to_be_bytes 4 (4096 :: u32) @ to_be_bytes 4 (64 :: u32) @ replicate 96 0 @
     to_be_bytes 4 (0x00AC71F3 :: u32) @ to_be_bytes 4 iters @ replicate 36 0 @ to_be_bytes 4 (4000 :: u32) @ replicate 336 0"

lemma audit_header_bytes_value:
  assumes "length mode \<le> 32" and "length hash \<le> 32"
  shows "audit_header_bytes (bytes_of_string mode) (bytes_of_string hash) iters = Ok (audit_layout mode hash iters)"
proof -
  have "ascending 0 (audit_header_writes (bytes_of_string mode) (bytes_of_string hash) iters) 592"
    using assms by (simp add: audit_header_writes_def)
  from writes_spread [OF this] show ?thesis
    using assms by (simp add: audit_header_bytes_def audit_layout_def audit_header_writes_def)
qed

lemma audit_layout_fields:
  assumes "text_fits 32 mode" and "text_fits 32 hash"
  shows "length (audit_layout mode hash iters) = 592" "take 6 (audit_layout mode hash iters) = LUKS_MAGIC"
    "version (header_at (audit_layout mode hash iters)) = 1"
    "cipher_mode (header_at (audit_layout mode hash iters)) = mode" "hash_spec (header_at (audit_layout mode hash iters)) = hash"
  using assms by (simp_all add: audit_layout_def header_at_def text_at_def text_fits_def takeWhile_pad from_utf8_lossy_ascii LUKS_MAGIC_def)

lemma audit_layout_slots:
  assumes "text_fits 32 mode" and "text_fits 32 hash"
  shows "is_active (slot_at (audit_layout mode hash iters) 208)" "iterations (slot_at (audit_layout mode hash iters) 208) = iters"
    "i \<in> {256, 304, 352, 400, 448, 496, 544} \<Longrightarrow> \<not> is_active (slot_at (audit_layout mode hash iters) i)"
  using assms by (auto simp: audit_layout_def slot_at_def text_fits_def is_active_def KEY_ENABLED_def)

lemma audited_header_value:
  assumes "text_fits 32 mode" and "text_fits 32 hash"
  shows "audited_header mode hash iters = Ok (header_at (audit_layout mode hash iters))"
  using assms audit_layout_fields [OF assms]
  by (simp add: audited_header_def audit_header_bytes_value text_fits_def parse_value)

lemma audit_of_layout:
  assumes "text_fits 32 mode" and "text_fits 32 hash"
  shows "audit1 (header_at (audit_layout mode hash iters)) = map Anomaly_new
     ((if starts_with mode ''cbc'' \<or> starts_with mode ''ecb'' then [WeakCipherMode mode] else []) @
      (if hash = ''sha1'' then [WeakKdfHash hash] else []) @
      (if iters < 1000 then [LowKdfIterations 0 iters] else []) @ [KeyslotInventory 1])"
proof -
  let ?b = "audit_layout mode hash iters"
  have slots: "keyslots (header_at ?b) = map (slot_at ?b) [208, 256, 304, 352, 400, 448, 496, 544]"
    by (simp add: header_at_def upt_rec)
  have "audit_slots (List.enumerate 0 (keyslots (header_at ?b))) =
      (if iters < 1000 then [Anomaly_new (LowKdfIterations 0 iters)] else [])"
    by (simp add: slots audit_layout_slots [OF assms])
  moreover have "length (active_keyslots (header_at ?b)) = 1"
    by (simp add: active_keyslots_def slots audit_layout_slots [OF assms])
  ultimately show ?thesis unfolding audit1_def audit_layout_fields [OF assms] by simp
qed

lemma audit_texts_fit:
  "text_fits 32 ''xts-plain64''" "text_fits 32 ''sha256''" "text_fits 32 ''cbc-essiv:sha256''" "text_fits 32 ''sha1''"
  by (simp_all add: text_fits_def is_ascii_def)

lemmas audit_tests_run = audited_header_value audit_of_layout audit_texts_fit Anomaly_new_def starts_with_three

section \<open>The suite\<close>

text \<open>
  The unit tests of the auditor pass: a clean header yields the inventory alone, a weak one all four
  anomalies with their severities, and every finding carries its source, category and
  evidence.  They pass for every report crate whose findings carry what the observation says and for
  every version of the package.
\<close>

lemma audit_test_suite_passes:
  assumes "finding_ok N"
  shows "list_all (\<lambda>t. t = Ok ())
     [clean_xts_sha256_header_only_inventory, flags_cbc_mode_and_sha1_and_low_iterations, low_iterations_is_medium,
      findings_carry_source_category_and_evidence N pkg_version]"
proof -
  have "clean_xts_sha256_header_only_inventory = Ok ()" "flags_cbc_mode_and_sha1_and_low_iterations = Ok ()"
    "low_iterations_is_medium = Ok ()"
    by (simp_all add: clean_xts_sha256_header_only_inventory_def flags_cbc_mode_and_sha1_and_low_iterations_def
        low_iterations_is_medium_def audit_tests_run index_at_def Let_def)
  moreover have "findings_carry_source_category_and_evidence N pkg_version = Ok ()"
    using assms by (simp add: findings_carry_source_category_and_evidence_def audit_tests_run audit1_findings_def Let_def
        finding_ok_def observe_def ANALYZER_def)
  ultimately show ?thesis by simp
qed

lemma audit_test_suite_passes_witness:
  "findings_carry_source_category_and_evidence
     \<lparr>to_finding = Pair, f_source = snd, f_code = \<lambda>f. obs_code (fst f), f_category = \<lambda>f. obs_category (fst f),
      f_severity = \<lambda>f. obs_severity (fst f), f_evidence = \<lambda>f. obs_evidence (fst f)\<rparr> ''0.1.0'' = Ok ()"
  using audit_test_suite_passes [of "\<lparr>to_finding = Pair, f_source = snd, f_code = \<lambda>f. obs_code (fst f),
      f_category = \<lambda>f. obs_category (fst f), f_severity = \<lambda>f. obs_severity (fst f), f_evidence = \<lambda>f. obs_evidence (fst f)\<rparr>" "''0.1.0''"]
  by (simp add: finding_ok_def)

end
