(* ===== verification/Spec2Isabelle.thy ===== *)
theory Spec2Isabelle
  imports Fuzz Vfs_Fixtures Causes Tests_Headers Tests_Volume2 Tests_Vfs Tests_Forensic
begin

text \<open>
  A verification development for the Rust workspace \<^verbatim>\<open>luks-forensic\<close>: the crate \<^verbatim>\<open>luks-core\<close>
  (\<^verbatim>\<open>core/\<close>), which parses LUKS containers, recovers the master key from a passphrase and decrypts
  the payload, and the crate \<^verbatim>\<open>luks-forensic\<close> (\<^verbatim>\<open>forensic/\<close>), which audits a header.

  \<^bold>\<open>How the program works.\<close>  \<open>LuksVolume::unlock_with_passphrase_within\<close> reads the version and hands
  the reader to the LUKS1 or the LUKS2 path.  Each parses its header, takes a deadline, and tries the
  keyslots in order: derive a slot key from the passphrase, read and decrypt the key material, merge
  its stripes to a candidate key, and compare a digest of the candidate with the header.  The first
  candidate that agrees becomes the key of a \<open>DecryptedPayload\<close>, which decrypts data units on demand.
  \<open>LuksLayer\<close> offers the same to a virtual file system, one credential after the other.

  \<^bold>\<open>How it is modelled.\<close>  Total code is a function; code that can fail returns \<open>outcome\<close>, with \<open>Ok\<close>,
  \<open>Err\<close> and \<open>Panic\<close> (every overflow check of a debug build, every slice index and every oversized
  allocation is a \<open>Panic\<close>); code over a reader or the clock is a \<open>prog\<close>, a function from the state to
  an optional outcome and state, where \<open>None\<close> is a loop that does not return.  Machine integers are
  words; \<open>usize\<close> is \<open>nat\<close> with its bound written out, on a 64-bit target.

  \<^item> \<open>Rust_Prelude\<close>, \<open>Rust_Text\<close>: outcomes, programs, checked arithmetic, slices, chunks; byte order,
    UTF-8, decimal numbers.  Named collections \<open>outcome_simps\<close> and \<open>chk_simps\<close>.
  \<^item> \<open>Luks_Error\<close>, \<open>Bytes\<close>, \<open>Header1\<close>, \<open>Header2\<close>, \<open>Af\<close>, \<open>Crypto\<close>: the files \<^verbatim>\<open>error.rs\<close>, \<^verbatim>\<open>bytes.rs\<close>,
    \<^verbatim>\<open>header.rs\<close>, \<^verbatim>\<open>header2.rs\<close>, \<^verbatim>\<open>af.rs\<close> and \<^verbatim>\<open>crypto.rs\<close> of \<^verbatim>\<open>core/src\<close>, one definition per function.
    The readers of \<^verbatim>\<open>bytes.rs\<close> are interpretations of the locale \<open>field_reader\<close>, whose lemmas invert
    an encoder and exclude panics.
  \<^item> \<open>Crypto_Api\<close>: the crypto crates as a record of functions, with the documented sizes of their
    outputs as \<open>crypto_ok\<close> and decryption as the inverse of encryption as \<open>xts_inverse\<close>; the clock.
  \<^item> \<open>Reader\<close>: \<open>read_available\<close> and \<open>read_fill\<close> of \<^verbatim>\<open>volume.rs\<close>, and the locales \<open>byte_stream\<close> and
    \<open>byte_reader\<close>, the contract of a \<open>Read + Seek\<close> over fixed bytes; \<open>cursor\<close> interprets it.
  \<^item> \<open>Volume\<close>, \<open>Payload\<close>: the two halves of \<^verbatim>\<open>volume.rs\<close>.  The payload over a reader that keeps the
    contract keeps the contract itself (the interpretation \<open>payload\<close>).
  \<^item> \<open>Unlock\<close>, \<open>Entry\<close>: a specification of unlocking as pure functions of the bytes of the container,
    and that the code agrees with it (\<open>agrees\<close>), proved once for every \<open>byte_reader\<close>.
  \<^item> \<open>Vfs\<close>: \<^verbatim>\<open>vfs.rs\<close>; the locale \<open>image_source\<close> is the contract of its trait, interpreted for the
    test source and for the decrypted source.
  \<^item> \<open>Forensic\<close>: \<^verbatim>\<open>forensic/src/lib.rs\<close>.
  \<^item> \<open>Fixtures\<close>, \<open>Fixtures2\<close>, \<open>Vfs_Fixtures\<close>: the container builders of the tests, generalised to any
    header, and what unlocking and the adapter make of the containers.
  \<^item> \<open>Fuzz\<close>: the fuzz targets of \<^verbatim>\<open>core/fuzz\<close>, with the invariants they check.
  \<^item> \<open>Causes\<close>: for each error of unlocking, what must hold of the container, the budget and the clock,
    and that the code throws an error only for its cause (\<open>throws\<close>, one lemma per operation).
  \<^item> \<open>Test_Support\<close>, \<open>Tests_Headers\<close>, \<open>Tests_Crypto\<close>, \<open>Tests_Volume\<close>, \<open>Tests_Volume2\<close>, \<open>Tests_Vfs\<close>,
    \<open>Tests_Forensic\<close>: the unit tests of both crates.  A test is a computation that panics at a failed
    assertion and passes when it returns \<open>Ok ()\<close>; the theories follow the test modules of the source
    files.  They are regression instances of the library: fixed inputs, run through the model, that end
    with a lemma on which of them pass and under what assumptions.

  \<^bold>\<open>What the theorems show.\<close>  Unlocking refines its specification, for any clock and budget, and never
  panics but for one allocation; a formatted container of either version unlocks and reads back
  (round trips through parser, derivation, anti-forensic split and AES-XTS); a payload is returned
  only with a verified key; reads return the plaintext in every reachable state of a payload; loops
  equal reference definitions without indices; parsers invert layouts and documents, return
  only well-formed headers and classify every input; interrupted reads are retried over any reader;
  budgets and ceilings bound what a header can ask for; every error of unlocking names its cause; the
  auditor reports exactly what holds.  The last section and some theorems of \<open>Payload\<close> and \<open>Af\<close> state
  where the code differs from what its documentation says.  The lemmas on the unit tests show that the
  model answers them as the tests expect; a test that depends on luck or on a published key (a wrong
  passphrase, a wrong digest, the known key) is shown to pass exactly when the keyslot does not open by
  chance, or when the crate derives that key.

  \<^bold>\<open>Loops.\<close>  \<open>diffuse_loop\<close> has a termination proof; \<open>fill_loop\<close>, \<open>read_at_loop\<close> and \<open>read_to_end\<close> are partial functions
  whose results are proved to exist over readers that keep their contract; the other loops recurse on
  a list.  No fuel is used.

  \<^bold>\<open>Assumptions.\<close>  The theorems name them: \<open>crypto_ok\<close> and \<open>xts_inverse\<close> of the crypto crates, \<open>json_ok\<close>
  of the JSON crate (and \<open>json_documented\<close> where the order of a document matters: the crate is built
  without \<^verbatim>\<open>preserve_order\<close>, so every object lists its keys in ascending order and once, \<open>value_ok\<close>,
  and so do the documents that the lemmas assume for a text), and the contract \<open>byte_reader\<close> of a reader; for the unit tests also the limits
  of Argon2 (\<open>argon2_documented\<close>), what the JSON and base64
  crates make of the texts of the tests (\<open>header2_texts_ok\<close>, \<open>volume_texts_ok\<close>), what a finding carries
  (\<open>finding_ok\<close>), and a clock that stands still or, for the calibration, is \<open>ordinary\<close>.  \<open>sample_crypto\<close>,
  \<open>sample_json\<close>, their variants in the test theories and the in-memory cursor satisfy them.  A calm run is one where the clock stands still and every parameter
  is supported; a real clock can turn any answer into a refusal for lack of time, and nothing else.

  \<^bold>\<open>Not modelled.\<close>  The insides of the crypto, JSON, base64 and VFS crates; the re-exports of \<^verbatim>\<open>lib.rs\<close>;
  the oracle tests against containers of \<^verbatim>\<open>cryptsetup\<close>, which are files outside the repository; the
  thread of the watchdog in two tests of \<^verbatim>\<open>crypto.rs\<close>, beyond its limit on the time taken; the lock of
  \<open>LuksSource\<close>, which makes its calls sequential, beyond that effect; allocation failure below the
  limit of a vector.
\<close>

section \<open>Unlocking\<close>

text \<open>
  C1.  Unlocking refines its specification.  For every in-memory container, passphrase, budget and
  clock, the entry point returns and never panics, except for a LUKS2 header whose size field
  exceeds what can be allocated.  A payload it returns is the one that the specification computes
  from the bytes alone: by version, header, first keyslot that opens, and geometry.  It never claims
  a failed authentication when a keyslot opens.  On a calm run, when the clock stands still, the budget is
  positive and the parameters are supported, the answer, error or payload, is the specified one.
\<close>

theorem unlock_refines_specification:
  assumes "crypto_ok C" and "length (cur_data (rd_state w)) \<le> isize_MAX"
    and "version_of (cur_data (rd_state w)) = 2 \<Longrightarrow> hdr_size_of (cur_data (rd_state w)) \<le> isize_MAX"
  shows "\<exists>x w'. unlock_with_passphrase_within C J cursor_reader pw budget w = Some (x, w') \<and>
     agrees (still w \<and> 0 < budget \<and> image_supported C J (cur_data (rd_state w)) pw)
       (unlock_spec C J (cur_data (rd_state w)) pw) (map_outcome forget id x) \<and>
     (\<forall>p. x = Ok p \<longrightarrow> cur_data (dp_reader p) = cur_data (rd_state w))"
  using cursor.unlock_within_spec [OF assms(1,2), of J pw budget] assms(3)
  by (fastforce simp: cursor.entry_ok_def cursor.calm_def image_supported_def cursor.world_step_def
      cursor.same_source_def)

theorem unlock_refines_specification_witness:
  "\<exists>w'. unlock_with_passphrase_within sample_crypto (sample_json Null) cursor_reader [1] 5 (sample_world (replicate 8 0)) =
     Some (Err (NotLuks (replicate 6 0)), w')"
proof -
  have v: "version_of (replicate 8 0) = 0" by (simp add: version_of_def)
  then have spec: "unlock_spec sample_crypto (sample_json Null) (replicate 8 0) [1] = Err (NotLuks (replicate 6 0))"
    by (simp add: unlock_spec_def)
  obtain x w' where run: "unlock_with_passphrase_within sample_crypto (sample_json Null) cursor_reader [1] 5
      (sample_world (replicate 8 0)) = Some (x, w')"
    "agrees True (Err (NotLuks (replicate 6 0))) (map_outcome forget id x)"
    using unlock_refines_specification [OF sample_crypto_ok(1), of "sample_world (replicate 8 0)" "sample_json Null" "[1]" 5]
    by (auto simp: v spec image_supported_def)
  then have "x = Err (NotLuks (replicate 6 0))" by (cases x) auto
  with run show ?thesis by auto
qed

text \<open>
  C2.  The whole path works: a LUKS1 container that was formatted with a supported header, with the
  master key split and encrypted under the passphrase and the data encrypted under the master key,
  unlocks with that passphrase on a calm run to exactly that master key, and every read of the
  payload returns the data that was encrypted.
\<close>

theorem luks1_format_unlock_read:
  assumes "crypto_ok C" and "xts_inverse C" and "format_ok C D h slot master" and "512 dvd length plain"
    and "luks1_image C D h slot master pw filler plain = Ok img" and "length img \<le> isize_MAX"
    and "supported1 h" and "still w" and "0 < budget" and "cur_data (rd_state w) = img"
    and "unat offset + length buf \<le> length plain"
  shows "\<exists>p w' c. unlock_with_passphrase_within C J cursor_reader pw budget w = Some (Ok p, w') \<and>
     master_key p = master \<and> info_version (info p) = 1 \<and> unat (payload_size p) = length plain \<and>
     read_at C cursor_reader offset buf p = Some (Ok (take (length buf) (drop (unat offset) plain)), p\<lparr>dp_reader := c\<rparr>)"
proof -
  obtain p w' where p: "unlock_with_passphrase_within C J cursor_reader pw budget w = Some (Ok p, w')"
    "p = payload1 h master (of_nat (length img)) (dp_reader p)" "cur_data (dp_reader p) = img" "payload_ok p"
    "plaintext C p img = plain"
    using luks1_image_run [OF assms(1-10)] by blast
  moreover have "master_key p = master" "info_version (info p) = 1"
    by (subst p(2), simp add: payload1_def master_key_def info_def)+
  ultimately show ?thesis using read_at_of_plaintext [OF assms(1) p(4) assms(6) p(3,5) assms(11)] by blast
qed

theorem luks1_format_unlock_read_witness:
  "\<exists>img p w' c. build_luks1 sample_crypto (replicate 64 9) = Ok (img, known_plain 1536) \<and>
     unlock_with_passphrase_within sample_crypto (sample_json Null) cursor_reader PASS 5 (sample_world img) = Some (Ok p, w') \<and>
     master_key p = replicate 64 9 \<and>
     read_at sample_crypto cursor_reader 100 (replicate 700 0) p =
       Some (Ok (take 700 (drop 100 (known_plain 1536))), p\<lparr>dp_reader := c\<rparr>)"
proof -
  let ?m = "replicate 64 9 :: bytes"
  obtain img where img: "build_luks1 sample_crypto ?m = Ok (img, known_plain 1536)" "length img = 3584"
    "luks1_image sample_crypto Sha256 (build_header sample_crypto ?m) build_slot0 ?m PASS 0x5a (known_plain 1536) = Ok img"
    using build_luks1_image [OF sample_crypto_ok, of ?m] by auto
  show ?thesis
    using luks1_format_unlock_read [OF sample_crypto_ok build_format_ok [OF sample_crypto_ok(1), of ?m] _ img(3) _ build_supported,
        of "sample_world img" 5 100 "replicate 700 0" "sample_json Null"] img(1,2)
    by (auto simp: known_plain_def)
qed

text \<open>
  C3.  The same for LUKS2: a container whose JSON text describes a header with a first keyslot that
  the passphrase opens (by PBKDF2 or Argon2), a digest that accepts the master key and an AES-XTS
  segment of any sector size from 512 on, unlocks on a calm run to that master key, and every read
  of the payload returns the data that was encrypted in units of that sector size.
\<close>

theorem luks2_format_unlock_read:
  assumes "crypto_ok C" and "xts_inverse C" and "format2_ok C D n h slot seg master slot_key pw"
    and "json_text_ok n json" and "n \<le> isize_MAX" and "from_slice J json = Some root"
    and "header2_of J (of_nat (4096 + n)) root = h" and "segment_sector_size seg dvd length plain"
    and "luks2_image C D n json slot seg master slot_key filler plain = Ok img" and "length img \<le> isize_MAX"
    and "supported2 C h pw" and "still w" and "0 < budget" and "cur_data (rd_state w) = img"
    and "unat offset + length buf \<le> length plain"
  shows "\<exists>p w' c. unlock_with_passphrase_within C J cursor_reader pw budget w = Some (Ok p, w') \<and>
     master_key p = master \<and> info_version (info p) = 2 \<and> info_sector_size (info p) = segment_sector_size seg \<and>
     unat (payload_size p) = length plain \<and>
     read_at C cursor_reader offset buf p = Some (Ok (take (length buf) (drop (unat offset) plain)), p\<lparr>dp_reader := c\<rparr>)"
proof -
  obtain p w' where p: "unlock_with_passphrase_within C J cursor_reader pw budget w = Some (Ok p, w')"
    "p = payload2 seg master (of_nat (length img)) (dp_reader p)" "cur_data (dp_reader p) = img" "payload_ok p"
    "plaintext C p img = plain"
    using luks2_image_run [OF assms(1-14)] by blast
  moreover have "master_key p = master" "info_version (info p) = 2"
    by (subst p(2), simp add: payload2_def master_key_def info_def)+
  moreover have "info_sector_size (info p) = segment_sector_size seg"
    using assms(3) by (subst p(2)) (simp add: payload2_def info_def format2_ok_def)
  ultimately show ?thesis using read_at_of_plaintext [OF assms(1) p(4) assms(10) p(3,5) assms(15)] by blast
qed

theorem luks2_format_unlock_read_witness:
  "\<exists>img p w' c. luks2_image sample_crypto Sha256 4096 [123, 125] (build_slot2 sample_kdf) (build_segment2 1024)
       (replicate 64 9) sample_slot_key 0x5a (known_plain 2048) = Ok img \<and>
     unlock_with_passphrase_within sample_crypto (sample_json2 1024) cursor_reader PASS 5 (sample_world img) = Some (Ok p, w') \<and>
     master_key p = replicate 64 9 \<and>
     read_at sample_crypto cursor_reader 1000 (replicate 100 0) p =
       Some (Ok (take 100 (drop 1000 (known_plain 2048))), p\<lparr>dp_reader := c\<rparr>)"
proof -
  obtain img where img: "luks2_image sample_crypto Sha256 4096 [123, 125] (build_slot2 sample_kdf) (build_segment2 1024)
       (replicate 64 9) sample_slot_key 0x5a (known_plain 2048) = Ok img" "length img \<le> isize_MAX"
    using sample_image2 [of 1024 2048] by auto
  show ?thesis
    using luks2_format_unlock_read [OF sample_crypto_ok sample_format2 _ _ sample_document _ _ img sample_supported2,
        of 1024 "sample_world img" 5 1000 "replicate 100 0"] img(1)
    by (auto simp: json_text_ok_def build_segment2_def known_plain_def sample_header2_of)
qed

section \<open>What a returned payload guarantees\<close>

text \<open>
  C4.  No LUKS1 payload is returned without a verified key: whatever the clock and the budget, if
  unlocking succeeds, some active keyslot of the parsed header opened under the passphrase, and the
  PBKDF2 digest of the returned master key is the digest in the header.  The payload is of a
  supported cipher and its geometry is that of the header.
\<close>

theorem unlock1_success_is_verified:
  assumes "crypto_ok C" and "length (cur_data (rd_state w)) \<le> isize_MAX" and "version_of (cur_data (rd_state w)) = 1"
    and "unlock_with_passphrase_within C J cursor_reader pw budget w = Some (Ok p, w')"
  shows "\<exists>h D. Header1.parse (take 592 (cur_data (rd_state w))) = Ok h \<and>
     (\<exists>slot \<in> set (active_keyslots h). open_slot1 C h (cur_data (rd_state w)) pw slot = Some (master_key p)) \<and>
     hash_of_name (hash_spec h) = Some D \<and>
     pbkdf2_hmac C D (master_key p) (mk_digest_salt h) (max (mk_digest_iter h) 1) 20 = mk_digest h \<and>
     payload_ok p \<and> unat (dp_payload_offset p) = unat (payload_offset h) * 512 \<and> dp_sector_size p = 512"
proof -
  let ?img = "cur_data (rd_state w)"
  have "unlock1_spec C ?img pw = Ok (forget p)"
    using cursor.unlock_within_spec [OF assms(1,2), of J pw budget] assms(3,4)
    by (auto simp: cursor.entry_ok_def unlock_spec_def split: if_splits)
  then obtain h mk where h: "Header1.parse (take 592 ?img) = Ok h" "forget p = payload1 h mk (of_nat (length ?img)) ()"
    "first_open (open_slot1 C h ?img pw) (active_keyslots h) = Some mk"
    by (rule unlock1_spec_Ok)
  then have p: "p = payload1 h mk (of_nat (length ?img)) (dp_reader p)" by (cases p) (simp add: forget_def payload1_def)
  then have mk: "master_key p = mk" by (metis master_key_def payload1_def DecryptedPayload.select_convs(2))
  obtain slot where slot: "slot \<in> set (active_keyslots h)" "open_slot1 C h ?img pw slot = Some mk"
    using first_open_Some [OF h(3)] by blast
  note ver = open_slot1_Some [OF assms(1) slot(2)]
  have "payload_ok (payload1 h mk n r) \<and> unat (dp_payload_offset (payload1 h mk n r)) = unat (payload_offset h) * 512 \<and>
      dp_sector_size (payload1 h mk n r) = 512" for n and r :: cursor
    using ver by (auto simp: payload_ok_def payload1_def xts_cipher_def sector_product)
  then have "payload_ok p \<and> unat (dp_payload_offset p) = unat (payload_offset h) * 512 \<and> dp_sector_size p = 512"
    using p by metis
  with h(1) slot ver mk show ?thesis by blast
qed

theorem unlock1_success_is_verified_witness:
  "\<exists>img p w'. build_luks1 sample_crypto (replicate 64 9) = Ok (img, known_plain 1536) \<and>
     unlock_with_passphrase_within sample_crypto (sample_json Null) cursor_reader PASS 5 (sample_world img) = Some (Ok p, w') \<and>
     payload_ok p \<and> unat (dp_payload_offset p) = 2048 \<and>
     pbkdf2_hmac sample_crypto Sha256 (master_key p) (replicate 32 0x22) 7 20 = mk_digest (build_header sample_crypto (replicate 64 9))"
proof -
  obtain img p w' where run: "build_luks1 sample_crypto (replicate 64 9) = Ok (img, known_plain 1536)"
    "length img = 3584" "version_of img = 1" "Header1.parse (take 592 img) = Ok (build_header sample_crypto (replicate 64 9))"
    "unlock_with_passphrase_within sample_crypto (sample_json Null) cursor_reader PASS 5 (sample_world img) = Some (Ok p, w')"
    by (rule sample_run1)
  have "payload_ok p \<and> unat (dp_payload_offset p) = 2048 \<and>
     pbkdf2_hmac sample_crypto Sha256 (master_key p) (replicate 32 0x22) 7 20 = mk_digest (build_header sample_crypto (replicate 64 9))"
    using unlock1_success_is_verified [of sample_crypto "sample_world img" "sample_json Null" PASS 5 p w'] run
    by (auto simp: build_header_def hash_of_name_def L1_defs max_one)
  with run show ?thesis by blast
qed

text \<open>
  C5.  The same for LUKS2: a returned master key is one that a keyslot of the parsed header yields
  under the passphrase and that a PBKDF2 digest that refers to this keyslot accepts.
\<close>

theorem unlock2_success_is_verified:
  assumes "crypto_ok C" and "length (cur_data (rd_state w)) \<le> isize_MAX" and "version_of (cur_data (rd_state w)) = 2"
    and "hdr_size_of (cur_data (rd_state w)) \<le> isize_MAX"
    and "unlock_with_passphrase_within C J cursor_reader pw budget w = Some (Ok p, w')"
  shows "\<exists>h g. parse2 J (hdr_area_of (cur_data (rd_state w))) = Ok h \<and> crypt_segment h = Some g \<and>
     dp_payload_offset p = segment_offset g \<and> dp_iv_tweak p = iv_tweak g \<and>
     (\<exists>slot \<in> set (keyslots2 h). open_slot2 C h (cur_data (rd_state w)) pw slot = Some (master_key p) \<and>
        length (master_key p) = key_size slot \<and>
        (\<exists>d \<in> set (digests h). digest_accepts C (slot_id slot) (master_key p) d))"
proof -
  let ?img = "cur_data (rd_state w)"
  have "unlock2_spec C J ?img pw = Ok (forget p)"
    using cursor.unlock_within_spec [OF assms(1,2), of J pw budget] assms(3-5)
    by (auto simp: cursor.entry_ok_def unlock_spec_def split: if_splits)
  then obtain h g mk where h: "parse2 J (hdr_area_of ?img) = Ok h" "crypt_segment h = Some g"
    "forget p = payload2 g mk (of_nat (length ?img)) ()" "first_open (open_slot2 C h ?img pw) (keyslots2 h) = Some mk"
    by (rule unlock2_spec_Ok)
  then have p: "dp_payload_offset p = segment_offset g" "dp_iv_tweak p = iv_tweak g" "master_key p = mk"
    by (cases p; simp add: forget_def payload2_def master_key_def)+
  obtain slot where "slot \<in> set (keyslots2 h)" "open_slot2 C h ?img pw slot = Some mk"
    using first_open_Some [OF h(4)] by blast
  with open_slot2_Some [OF assms(1)] h(1,2) p show ?thesis by blast
qed

theorem unlock2_success_is_verified_witness:
  "\<exists>img p w'. unlock_with_passphrase_within sample_crypto (sample_json2 512) cursor_reader PASS 5 (sample_world img) = Some (Ok p, w') \<and>
     length (master_key p) = 64 \<and> digest_accepts sample_crypto ''0'' (master_key p) (build_digest2 sample_crypto (replicate 64 9))"
proof -
  obtain img p w' where run: "length img \<le> isize_MAX" "version_of img = 2" "hdr_size_of img \<le> isize_MAX"
    "parse2 (sample_json2 512) (hdr_area_of img) = Ok (build_header2 sample_crypto (replicate 64 9) sample_kdf 512)"
    "unlock_with_passphrase_within sample_crypto (sample_json2 512) cursor_reader PASS 5 (sample_world img) = Some (Ok p, w')"
    by (rule sample_run2)
  have "length (master_key p) = 64 \<and> digest_accepts sample_crypto ''0'' (master_key p) (build_digest2 sample_crypto (replicate 64 9))"
    using unlock2_success_is_verified [of sample_crypto "sample_world img" "sample_json2 512" PASS 5 p w'] run
    by (auto simp: build_header2_def build_slot2_def)
  with run show ?thesis by blast
qed

section \<open>What an error guarantees\<close>

text \<open>
  C6.  Every error of unlocking names its cause, for every in-memory container, passphrase, budget and
  clock.  The values that an error carries are those of the container: an unsupported hash, cipher
  mode, key size or Argon2 parameter is one that some keyslot or digest of the header asks for; a
  stripe count, a memory cost or a key length is the one of the header and is over its ceiling; a
  derivation is over budget only if a calibration run projected a cost above an allowance of at most
  30 seconds; the whole unlock is over budget only if two readings of the clock are that far apart,
  and the slots it reports as tried are fewer than the header has; a failed authentication means
  that no keyslot opens under the passphrase; and an I/O error is the end of a container that is too
  short for its header.
\<close>

theorem unlock_errors_name_their_cause:
  assumes "crypto_ok C" and "length (cur_data (rd_state w)) \<le> isize_MAX"
    and "unlock_with_passphrase_within C J cursor_reader pw budget w = Some (Err e, w')"
  shows "unlock_cause C J (reading w) budget (cur_data (rd_state w)) pw e"
  using assms by (rule cursor.unlock_error)

theorem unlock_errors_name_their_cause_witness:
  "\<exists>w'. unlock_with_passphrase_within sample_crypto weak_json cursor_reader [1] 0 (sample_world weak_image) =
       Some (Err (UnlockBudgetExceeded 0 0), w') \<and>
     deadline_cause (\<lambda>n. 0) 0 1 (UnlockBudgetExceeded 0 0)"
proof -
  have seg: "crypt_segment weak_header2 \<noteq> None" "length (keyslots2 weak_header2) = 1"
    by (simp_all add: weak_header2_def crypt_segment_def build_segment2_def)
  then have "keyslots2 weak_header2 \<noteq> []" by auto
  with seg obtain w' where run: "unlock_with_passphrase_within sample_crypto weak_json cursor_reader [1] 0 (sample_world weak_image) =
      Some (Err (UnlockBudgetExceeded 0 0), w')"
    using cursor.expired [of "sample_world weak_image" undefined weak_json weak_header2 sample_crypto "[1]"] weak_container
    by auto
  have "unlock_cause sample_crypto weak_json (reading (sample_world weak_image)) 0 weak_image [1] (UnlockBudgetExceeded 0 0)"
    using unlock_errors_name_their_cause [OF sample_crypto_ok(1) _ run] weak_container(1) by simp
  moreover have "\<not> kdf_cause sample_crypto clk k p n (UnlockBudgetExceeded 0 0)" for clk k p n
    by (cases k) (simp_all add: kdf_cause_def)
  ultimately have "deadline_cause (reading (sample_world weak_image)) 0 1 (UnlockBudgetExceeded 0 0)"
    using weak_container(1-4) seg by (auto simp: unlock_cause_def recover2_cause_def slot2_cause_def split: if_splits)
  with run show ?thesis by (auto simp: sample_world_def)
qed

section \<open>The budget\<close>

text \<open>
  C15.  A budget of zero refuses before the first derivation, for both versions: as soon as a keyslot
  would be tried, the entry point answers \<open>UnlockBudgetExceeded\<close> with no slot tried, whatever the
  passphrase and the clock.
\<close>

theorem zero_budget_refuses:
  assumes "length (cur_data (rd_state w)) \<le> isize_MAX"
    and "version_of (cur_data (rd_state w)) = 1 \<and> 592 \<le> length (cur_data (rd_state w)) \<and>
       Header1.parse (take 592 (cur_data (rd_state w))) = Ok h1 \<and> active_keyslots h1 \<noteq> [] \<or>
     version_of (cur_data (rd_state w)) = 2 \<and> 4096 \<le> length (cur_data (rd_state w)) \<and>
       hdr_size_of (cur_data (rd_state w)) \<le> isize_MAX \<and>
       parse2 J (hdr_area_of (cur_data (rd_state w))) = Ok h2 \<and> crypt_segment h2 \<noteq> None \<and> keyslots2 h2 \<noteq> []"
  shows "\<exists>w'. unlock_with_passphrase_within C J cursor_reader pw 0 w = Some (Err (UnlockBudgetExceeded 0 0), w')"
  using assms by (rule cursor.expired)

theorem zero_budget_refuses_witness:
  "\<exists>w'. unlock_with_passphrase_within sample_crypto weak_json cursor_reader [1] 0 (sample_world weak_image) =
     Some (Err (UnlockBudgetExceeded 0 0), w')"
  by (rule zero_budget_refuses [where ?h2.0 = weak_header2])
    (simp_all add: weak_container, simp add: weak_header2_def crypt_segment_def build_segment2_def)

text \<open>
  C16.  The deadline hands out time only while it lasts.  A check of the remaining time succeeds
  exactly when less than the total has elapsed; the allowance it grants is positive, at most the
  ceiling of a single derivation and at most what is left of the total, and the largest such time;
  otherwise it reports the number of slots tried and the total in seconds.
\<close>

theorem deadline_grants_what_is_left:
  "\<exists>x. remaining d tried s = Some (x, s\<lparr>tick := Suc (tick s)\<rparr>) \<and>
     (let e = reading s (tick s) - started d in
      if e < total d then \<exists>left. x = Ok left \<and> 0 < left \<and> left \<le> DERIVATION_BUDGET \<and> e + left \<le> total d \<and>
          (left = DERIVATION_BUDGET \<or> e + left = total d)
      else x = Err (UnlockBudgetExceeded tried (as_secs (total d))))"
  by (auto simp: remaining_value Let_def DERIVATION_BUDGET_def from_secs_def)

section \<open>Divergences from the documentation\<close>

text \<open>
  C36.  A LUKS2 header whose size field exceeds what a vector can hold makes the unlocking code panic
  on an allocation, before the magic and the JSON text are looked at.
\<close>

theorem huge_header_panics:
  assumes "length (cur_data (rd_state w)) \<le> isize_MAX" and "4096 \<le> length (cur_data (rd_state w))"
    and "version_of (cur_data (rd_state w)) = 2" and "isize_MAX < hdr_size_of (cur_data (rd_state w))"
  shows "\<exists>w'. unlock_with_passphrase_within C J cursor_reader pw budget w = Some (Panic ''capacity overflow'', w')"
proof -
  obtain w1 where w1: "cursor.world_step w w1" "unlock_with_passphrase_within C J cursor_reader pw budget w =
      unlock2_with_passphrase_within C J cursor_reader pw budget w1"
    using cursor.dispatch [OF assms(1), of C J pw budget] assms(2,3) by auto
  let ?w2 = "w1\<lparr>tick := Suc (tick w1)\<rparr>"
  have "cur_data (rd_state ?w2) = cur_data (rd_state w)" using w1(1) by (auto simp: cursor.world_step_def cursor.same_source_def)
  then show ?thesis
    using cursor.unlock2_start [of ?w2 C J pw "\<lparr>started = reading w1 (tick w1), total = budget\<rparr>"] assms w1(2)
    by (auto simp: unlock2_with_passphrase_within_def cursor.deadline_run)
qed

theorem huge_header_panics_witness:
  "\<exists>w'. unlock_with_passphrase_within sample_crypto (sample_json Null) cursor_reader [1] 5
     (sample_world (replicate 7 0 @ [2] @ to_be_bytes 8 (9223372036854775808 :: u64) @ replicate 4080 0)) = Some (Panic ''capacity overflow'', w')"
  by (rule huge_header_panics)
    (simp_all add: version_of_def hdr_size_of_def from_be_bytes_to_be_bytes_full, simp add: from_be_bytes_def)

text \<open>
  C35.  A digest without bytes accepts every key: for a LUKS2 container of supported parameters with
  such a digest on its first keyslot (the parser makes one of a digest that is not base64 text),
  unlocking succeeds on a calm run with every passphrase.
\<close>

theorem empty_digest_accepts_every_passphrase:
  assumes "crypto_ok C" and "length (cur_data (rd_state w)) \<le> isize_MAX" and "4096 \<le> length (cur_data (rd_state w))"
    and "version_of (cur_data (rd_state w)) = 2" and "hdr_size_of (cur_data (rd_state w)) \<le> isize_MAX"
    and "parse2 J (hdr_area_of (cur_data (rd_state w))) = Ok h" and "crypt_segment h \<noteq> None"
    and "keyslots2 h = slot # rest" and "supported2 C h pw"
    and "unat (area_offset slot) + (key_size slot * unat (af_stripes slot) + 511) \<le> length (cur_data (rd_state w))"
    and "d \<in> set (digests h)" and "digest_kind d = ''pbkdf2''" and "slot_id slot \<in> set (digest_keyslots d)"
    and "digest_value d = []" and "still w" and "0 < budget"
  shows "\<exists>p w'. unlock_with_passphrase_within C J cursor_reader pw budget w = Some (Ok p, w')"
proof -
  let ?img = "cur_data (rd_state w)"
  have ready: "slot2_ready C h pw slot" using assms(8,9) by (simp add: supported2_def)
  obtain mk where mk: "open_slot2 C h ?img pw slot = Some mk"
    using empty_digest_opens [OF assms(1) ready assms(10-14)] by blast
  obtain g where "crypt_segment h = Some g" using assms(7) by blast
  then have spec: "unlock_spec C J ?img pw = Ok (payload2 g mk (of_nat (length ?img)) ())"
    using assms(3,4,6,8) mk by (simp add: unlock_spec_def unlock2_spec_def)
  have "image_supported2 C J ?img pw" using assms(6,9) by (simp add: image_supported2_def)
  then have "cursor.entry_ok True (unlock_spec C J ?img pw) w (unlock_with_passphrase_within C J cursor_reader pw budget w)"
    using cursor.unlock_within_spec [OF assms(1,2), of J pw budget] assms(4,5,15,16) by (auto simp: cursor.calm_def)
  then obtain x w' where "unlock_with_passphrase_within C J cursor_reader pw budget w = Some (x, w')"
    "agrees True (unlock_spec C J ?img pw) (map_outcome forget id x)"
    by (auto simp: cursor.entry_ok_def)
  with spec show ?thesis by (cases x) auto
qed

theorem empty_digest_accepts_every_passphrase_witness:
  "\<exists>p w'. unlock_with_passphrase_within sample_crypto weak_json cursor_reader [1, 2, 3] 5 (sample_world weak_image) = Some (Ok p, w')"
  by (rule empty_digest_accepts_every_passphrase [where h = weak_header2 and slot = "(build_slot2 sample_kdf)\<lparr>area_offset := 16384\<rparr>"
        and rest = "[]" and d = "(build_digest2 sample_crypto [])\<lparr>digest_value := []\<rparr>"])
    (simp_all add: weak_container,
     simp_all add: weak_header2_def crypt_segment_def build_segment2_def build_slot2_def build_digest2_def L2_defs)

lemma recover_loop1_cipher_name: "recover_loop1 C R (h\<lparr>cipher_name := x\<rparr>) pw kb dl slots = recover_loop1 C R h pw kb dl slots"
  by (induction slots) (auto cong: if_cong)

text \<open>
  C37.  The cipher name of a LUKS1 header takes no part in recovering the master key: a header that
  names any other cipher is processed exactly like one that names \<^verbatim>\<open>aes\<close>, with any reader.
\<close>

theorem cipher_name_is_ignored:
  "recover_master_key1 C R (h\<lparr>cipher_name := x\<rparr>) pw kb dl = recover_master_key1 C R h pw kb dl"
  by (simp add: recover_master_key1_def active_keyslots_def recover_loop1_cipher_name)

end
